(* ===== verification/Prelude.thy ===== *)
theory Prelude
  imports "HOL-Library.Word"
begin

text \<open>
  The vocabulary the components share: machine integers, Go's result conventions, positional
  number systems, and three interfaces.

  \<^item> \<open>byte\<close>, \<open>u32\<close>, \<open>u64\<close> are Go's \<open>byte\<close>, \<open>uint32\<close> and \<open>uint64\<close>; a Go \<open>string\<close> is a
    HOL \<open>string\<close>, one \<open>char\<close> per byte, and a \<open>[]byte\<close> is a \<open>byte list\<close>.
  \<^item> \<open>'a go\<close> is the outcome of code that can panic (a slice out of range, a failed type
    assertion, a nil dereference, a send on a closed channel), wait for ever (a mutex that its
    own caller holds) or end the process (\<open>os.Exit\<close>): \<open>Ret\<close> of the result, \<open>Panic\<close>,
    \<open>Deadlock\<close> or \<open>Exit\<close>.
  \<^item> \<open>from_digits\<close> and \<open>to_digits\<close> are positional notation in any base, most significant digit
    first; \<open>big.Int\<close>, base58, hex and \<open>encoding/binary\<close> are all instances.
  \<^item> The locales \<open>codec\<close> (an encoder and the decoder that undoes it), \<open>closable\<close> (an operation
    that closes an object once) and \<open>invariant_system\<close> (a step relation with an invariant) are
    interpreted by the components that provide them.
\<close>

type_synonym byte = "8 word"
type_synonym u32 = "32 word"
type_synonym u64 = "64 word"

named_theorems go_defs \<comment> \<open>definitions of the outcome combinators\<close>
named_theorems digit_simps \<comment> \<open>positional notation\<close>

subsection \<open>Outcomes of Go code\<close>

datatype 'a go = Ret 'a | Panic | Deadlock | Exit

fun go_bind :: "'a go \<Rightarrow> ('a \<Rightarrow> 'b go) \<Rightarrow> 'b go" where
  "go_bind (Ret x) f = f x"
| "go_bind Panic f = Panic"
| "go_bind Deadlock f = Deadlock"
| "go_bind Exit f = Exit"

fun returns :: "'a go \<Rightarrow> bool" where
  "returns (Ret x) = True"
| "returns Panic = False"
| "returns Deadlock = False"
| "returns Exit = False"

lemma go_bind_Ret [simp]: "go_bind m Ret = m"
  by (cases m) simp_all

lemma go_bind_assoc [simp]: "go_bind (go_bind m f) g = go_bind m (\<lambda>x. go_bind (f x) g)"
  by (cases m) simp_all

lemma go_bind_eq_Ret_iff: "go_bind m f = Ret y \<longleftrightarrow> (\<exists>x. m = Ret x \<and> f x = Ret y)"
  by (cases m) simp_all

lemma go_bind_eq_Panic_iff:
  "go_bind m f = Panic \<longleftrightarrow> m = Panic \<or> (\<exists>x. m = Ret x \<and> f x = Panic)"
  by (cases m) simp_all

lemma go_bind_eq_Deadlock_iff:
  "go_bind m f = Deadlock \<longleftrightarrow> m = Deadlock \<or> (\<exists>x. m = Ret x \<and> f x = Deadlock)"
  by (cases m) simp_all

lemma go_bind_eq_Exit_iff:
  "go_bind m f = Exit \<longleftrightarrow> m = Exit \<or> (\<exists>x. m = Ret x \<and> f x = Exit)"
  by (cases m) simp_all

lemma returns_iff: "returns m \<longleftrightarrow> (\<exists>x. m = Ret x)"
  by (cases m) simp_all

lemma returns_bind: "returns (go_bind m f) \<longleftrightarrow> (\<exists>x. m = Ret x \<and> returns (f x))"
  by (cases m) simp_all

subsection \<open>Lists\<close>

lemma take_takeWhile_replicate:
  "takeWhile (\<lambda>x. x = a) xs = replicate (length (takeWhile (\<lambda>x. x = a) xs)) a"
  by (induction xs) simp_all

lemma takeWhile_dropWhile_replicate:
  "xs = replicate (length (takeWhile (\<lambda>x. x = a) xs)) a @ dropWhile (\<lambda>x. x = a) xs"
  using takeWhile_dropWhile_id [of "\<lambda>x. x = a" xs] take_takeWhile_replicate [of a xs] by simp

lemma takeWhile_replicate_append:
  "zs = [] \<or> hd zs \<noteq> a \<Longrightarrow> takeWhile (\<lambda>x. x = a) (replicate n a @ zs) = replicate n a"
  by (induction n) (cases zs; simp)+

lemma dropWhile_replicate_append:
  "zs = [] \<or> hd zs \<noteq> a \<Longrightarrow> dropWhile (\<lambda>x. x = a) (replicate n a @ zs) = zs"
  by (induction n) (cases zs; simp)+

lemma dropWhile_hd: "dropWhile P xs = [] \<or> \<not> P (hd (dropWhile P xs))"
  using hd_dropWhile [of P xs] by blast

lemma list_update_id_lookup: "i < length xs \<Longrightarrow> xs[i := x] ! i = x"
  by simp

text \<open>The 256 byte values, written out: lookup tables are checked entry by entry over this list.\<close>

lemma upt_256:
  "[0..<256] =
   [0, 1, 2, 3, 4, 5, 6, 7, 8, 9, 10, 11, 12, 13, 14, 15, 16, 17, 18, 19, 20, 21, 22, 23, 24,
   25, 26, 27, 28, 29, 30, 31, 32, 33, 34, 35, 36, 37, 38, 39, 40, 41, 42, 43, 44, 45, 46,
   47, 48, 49, 50, 51, 52, 53, 54, 55, 56, 57, 58, 59, 60, 61, 62, 63, 64, 65, 66, 67, 68,
   69, 70, 71, 72, 73, 74, 75, 76, 77, 78, 79, 80, 81, 82, 83, 84, 85, 86, 87, 88, 89, 90,
   91, 92, 93, 94, 95, 96, 97, 98, 99, 100, 101, 102, 103, 104, 105, 106, 107, 108, 109, 110,
   111, 112, 113, 114, 115, 116, 117, 118, 119, 120, 121, 122, 123, 124, 125, 126, 127, 128,
   129, 130, 131, 132, 133, 134, 135, 136, 137, 138, 139, 140, 141, 142, 143, 144, 145, 146,
   147, 148, 149, 150, 151, 152, 153, 154, 155, 156, 157, 158, 159, 160, 161, 162, 163, 164,
   165, 166, 167, 168, 169, 170, 171, 172, 173, 174, 175, 176, 177, 178, 179, 180, 181, 182,
   183, 184, 185, 186, 187, 188, 189, 190, 191, 192, 193, 194, 195, 196, 197, 198, 199, 200,
   201, 202, 203, 204, 205, 206, 207, 208, 209, 210, 211, 212, 213, 214, 215, 216, 217, 218,
   219, 220, 221, 222, 223, 224, 225, 226, 227, 228, 229, 230, 231, 232, 233, 234, 235, 236,
   237, 238, 239, 240, 241, 242, 243, 244, 245, 246, 247, 248, 249, 250, 251, 252, 253, 254,
   255]"
  by (simp add: upt_rec)

subsection \<open>Positional notation\<close>

definition from_digits :: "nat \<Rightarrow> nat list \<Rightarrow> nat" where
  "from_digits B ds = foldl (\<lambda>acc d. acc * B + d) 0 ds"

function to_digits :: "nat \<Rightarrow> nat \<Rightarrow> nat list" where
  "to_digits B n = (if n = 0 \<or> B < 2 then [] else to_digits B (n div B) @ [n mod B])"
  by pat_completeness auto
termination
  by (relation "measure snd") auto

declare to_digits.simps [simp del]

lemma from_digits_Nil [simp]: "from_digits B [] = 0"
  by (simp add: from_digits_def)

lemma from_digits_snoc [simp]: "from_digits B (ds @ [d]) = from_digits B ds * B + d"
  by (simp add: from_digits_def)

lemma foldl_digits: "foldl (\<lambda>acc d. acc * B + d) a ds = a * B ^ length ds + from_digits B ds"
  for a :: nat
proof (induction ds rule: rev_induct)
  case Nil
  then show ?case by simp
next
  case (snoc d ds)
  then show ?case by (simp add: algebra_simps)
qed

lemma from_digits_append [digit_simps]:
  "from_digits B (xs @ ys) = from_digits B xs * B ^ length ys + from_digits B ys"
  using foldl_digits [of B "from_digits B xs" ys] by (simp add: from_digits_def)

lemma from_digits_Cons [digit_simps]:
  "from_digits B (d # ds) = d * B ^ length ds + from_digits B ds"
  using from_digits_append [of B "[d]" ds] by (simp add: from_digits_def)

lemma from_digits_replicate_0 [simp]: "from_digits B (replicate n 0) = 0"
  by (induction n) (simp_all add: digit_simps)

lemma from_digits_leading_0: "from_digits B (replicate n 0 @ ds) = from_digits B ds"
  by (simp add: digit_simps)

lemma from_digits_dropWhile: "from_digits B (dropWhile (\<lambda>d. d = 0) ds) = from_digits B ds"
  using from_digits_leading_0 [of B "length (takeWhile (\<lambda>d. d = 0) ds)" "dropWhile (\<lambda>d. d = 0) ds"]
  by (simp flip: takeWhile_dropWhile_replicate)

lemma from_digits_bound: "\<forall>d \<in> set ds. d < B \<Longrightarrow> from_digits B ds < B ^ length ds"
proof (induction ds rule: rev_induct)
  case Nil
  then show ?case by simp
next
  case (snoc d ds)
  then have "from_digits B ds + 1 \<le> B ^ length ds" and "d < B" by auto
  then have "(from_digits B ds + 1) * B \<le> B ^ length ds * B" by (simp only: mult_le_mono1)
  with \<open>d < B\<close> show ?case by (simp add: algebra_simps)
qed

lemma to_digits_0 [simp]: "to_digits B 0 = []"
  by (simp add: to_digits.simps)

lemma to_digits_step:
  "2 \<le> B \<Longrightarrow> 0 < n \<Longrightarrow> to_digits B n = to_digits B (n div B) @ [n mod B]"
  by (subst to_digits.simps) auto

lemma to_digits_less: "d \<in> set (to_digits B n) \<Longrightarrow> d < B"
proof (induction B n rule: to_digits.induct)
  case (1 B n)
  then show ?case by (subst (asm) (2) to_digits.simps) (auto split: if_splits)
qed

lemma from_to_digits [simp]: "2 \<le> B \<Longrightarrow> from_digits B (to_digits B n) = n"
proof (induction B n rule: to_digits.induct)
  case (1 B n)
  then show ?case by (cases "n = 0") (auto simp: to_digits_step)
qed

lemma to_digits_Nil_iff: "2 \<le> B \<Longrightarrow> to_digits B n = [] \<longleftrightarrow> n = 0"
  using from_to_digits [of B n] by (auto simp del: from_to_digits)

lemma to_digits_hd: "2 \<le> B \<Longrightarrow> to_digits B n = [] \<or> hd (to_digits B n) \<noteq> 0"
proof (induction B n rule: to_digits.induct)
  case (1 B n)
  show ?case
  proof (cases "n = 0")
    case False
    with 1 have *: "to_digits B (n div B) = [] \<or> hd (to_digits B (n div B)) \<noteq> 0" by simp
    show ?thesis
    proof (cases "n < B")
      case True
      with False 1 show ?thesis by (simp add: to_digits_step)
    next
      case False
      with 1 have "n div B \<noteq> 0" by (simp add: div_eq_0_iff)
      with 1 have "to_digits B (n div B) \<noteq> []" by (simp add: to_digits_Nil_iff)
      with * 1 \<open>n \<noteq> 0\<close> show ?thesis by (simp add: to_digits_step hd_append)
    qed
  qed simp
qed

lemma length_to_digits: "2 \<le> B \<Longrightarrow> n < B ^ k \<Longrightarrow> length (to_digits B n) \<le> k"
proof (induction k arbitrary: n)
  case (Suc k)
  then have "n div B < B ^ k" by (simp add: less_mult_imp_div_less mult.commute)
  with Suc show ?case by (cases "n = 0") (simp_all add: to_digits_step)
qed simp

text \<open>Converting digits to a number and back drops the leading zeros, and nothing else.\<close>

lemma to_from_digits_strict:
  "2 \<le> B \<Longrightarrow> \<forall>d \<in> set ds. d < B \<Longrightarrow> ds = [] \<or> hd ds \<noteq> 0 \<Longrightarrow> to_digits B (from_digits B ds) = ds"
proof (induction ds rule: rev_induct)
  case Nil
  then show ?case by simp
next
  case (snoc d ds)
  then have d: "d < B" and ds: "ds = [] \<or> hd ds \<noteq> 0" by (auto simp: hd_append split: if_splits)
  have pos: "0 < from_digits B ds * B + d"
  proof (cases "ds = []")
    case True
    with snoc.prems show ?thesis by simp
  next
    case False
    with ds snoc have "to_digits B (from_digits B ds) = ds" by simp
    with False have "from_digits B ds \<noteq> 0" by (metis to_digits_0)
    with snoc.prems(1) show ?thesis by simp
  qed
  have "(from_digits B ds * B + d) div B = from_digits B ds" "(from_digits B ds * B + d) mod B = d"
    using d by simp_all
  with pos snoc ds show ?case by (simp add: to_digits_step)
qed

lemma to_from_digits:
  "2 \<le> B \<Longrightarrow> \<forall>d \<in> set ds. d < B \<Longrightarrow>
   to_digits B (from_digits B ds) = dropWhile (\<lambda>d. d = 0) ds"
proof -
  assume B: "2 \<le> B" and ds: "\<forall>d \<in> set ds. d < B"
  have "\<forall>d \<in> set (dropWhile (\<lambda>d. d = 0) ds). d < B"
    using ds by (auto dest: set_dropWhileD)
  with B have "to_digits B (from_digits B (dropWhile (\<lambda>d. d = 0) ds)) = dropWhile (\<lambda>d. d = 0) ds"
    using dropWhile_hd [of "\<lambda>d. d = 0" ds] by (intro to_from_digits_strict) simp_all
  then show ?thesis by (simp add: from_digits_dropWhile)
qed

text \<open>Prefixes and single digits of a number; \<open>pad_digits\<close> is the \<open>k\<close>-digit form.\<close>

lemma from_digits_take:
  assumes "\<forall>d \<in> set ds. d < B" and "i \<le> length ds"
  shows "from_digits B (take i ds) = from_digits B ds div B ^ (length ds - i)"
proof -
  have "from_digits B ds = from_digits B (take i ds) * B ^ (length ds - i) + from_digits B (drop i ds)"
    using from_digits_append [of B "take i ds" "drop i ds"] by simp
  moreover have "from_digits B (drop i ds) < B ^ (length ds - i)"
    using from_digits_bound [of "drop i ds" B] assms by (auto dest: in_set_dropD)
  moreover from this have "B ^ (length ds - i) \<noteq> 0" by linarith
  ultimately show ?thesis by (metis add.right_neutral div_less div_mult_self3)
qed

definition pad_digits :: "nat \<Rightarrow> nat \<Rightarrow> nat \<Rightarrow> nat list" where
  "pad_digits B k n = map (\<lambda>i. n div B ^ (k - 1 - i) mod B) [0..<k]"

lemma length_pad_digits [simp]: "length (pad_digits B k n) = k"
  by (simp add: pad_digits_def)

lemma pad_digits_nth: "i < k \<Longrightarrow> pad_digits B k n ! i = n div B ^ (k - 1 - i) mod B"
  by (simp add: pad_digits_def)

lemma pad_digits_less: "0 < B \<Longrightarrow> d \<in> set (pad_digits B k n) \<Longrightarrow> d < B"
  by (auto simp: pad_digits_def)

lemma pad_digits_Suc: "pad_digits B (Suc k) n = (n div B ^ k mod B) # pad_digits B k n"
  by (rule nth_equalityI) (auto simp: pad_digits_nth nth_Cons split: nat.split)

lemma from_pad_digits: "from_digits B (pad_digits B k n) = n mod B ^ k"
proof (induction k)
  case 0
  then show ?case by (simp add: pad_digits_def)
next
  case (Suc k)
  have "n mod (B ^ k * B) = B ^ k * (n div B ^ k mod B) + n mod B ^ k"
    by (rule mod_mult2_eq)
  with Suc show ?case by (simp add: pad_digits_Suc digit_simps mult.commute)
qed

lemma from_digits_inject:
  "length xs = length ys \<Longrightarrow> \<forall>d \<in> set xs. d < B \<Longrightarrow> \<forall>d \<in> set ys. d < B \<Longrightarrow>
   from_digits B xs = from_digits B ys \<Longrightarrow> xs = ys"
proof (induction xs arbitrary: ys rule: rev_induct)
  case Nil
  then show ?case by simp
next
  case (snoc x xs)
  then obtain y zs where ys: "ys = zs @ [y]" by (cases ys rule: rev_cases) auto
  with snoc.prems have eq: "from_digits B xs * B + x = from_digits B zs * B + y"
    and "x < B" "y < B" by auto
  from eq \<open>x < B\<close> \<open>y < B\<close> have "x = y" "from_digits B xs = from_digits B zs"
    by (metis mod_mult_self3 mod_less, metis div_mult_self3 div_less add_0_right not_less0)
  with snoc ys show ?case by auto
qed

lemma pad_from_digits:
  assumes "\<forall>d \<in> set ds. d < B" and "0 < B"
  shows "pad_digits B (length ds) (from_digits B ds) = ds"
  using assms from_digits_bound [OF assms(1)]
  by (intro from_digits_inject) (auto simp: from_pad_digits dest: pad_digits_less)

text \<open>Counting up in a word that has not reached its largest value.\<close>

lemma next_word:
  fixes c :: "'a :: len word"
  assumes "c \<noteq> - 1"
  shows "0 < c + 1" and "i \<le> c + 1 \<longleftrightarrow> i = c + 1 \<or> i \<le> c" and "\<not> c + 1 \<le> c"
proof -
  have "1 + c \<noteq> 0" using assms by (simp only: add_eq_0_iff not_False_eq_True)
  then have sum: "unat (c + 1) = unat c + 1" using unatSuc [of c] by (simp add: add.commute)
  then show "0 < c + 1" by (simp add: word_less_nat_alt)
  show "\<not> c + 1 \<le> c" using sum by (simp add: word_le_nat_alt)
  show "i \<le> c + 1 \<longleftrightarrow> i = c + 1 \<or> i \<le> c"
    using sum unsigned_word_eqI [of i "c + 1", where 'a = nat] by (auto simp: word_le_nat_alt)
qed

subsection \<open>Interfaces\<close>

text \<open>An encoder on a set of values, and the decoder that recovers them.\<close>

locale codec =
  fixes enc :: "'a \<Rightarrow> 'b" and dec :: "'b \<Rightarrow> 'a option" and good :: "'a \<Rightarrow> bool"
  assumes dec_enc: "good x \<Longrightarrow> dec (enc x) = Some x"
begin

lemma enc_inject: "good x \<Longrightarrow> good y \<Longrightarrow> enc x = enc y \<longleftrightarrow> x = y"
  by (metis dec_enc option.inject)

lemma enc_inj_on: "inj_on enc {x. good x}"
  by (rule inj_onI) (simp add: enc_inject)

end

text \<open>A codec whose decoder accepts canonical encodings only: a bijection.\<close>

locale strict_codec = codec +
  assumes dec_strict: "dec y = Some x \<Longrightarrow> good x \<and> enc x = y"
begin

lemma dec_Some_iff: "dec y = Some x \<longleftrightarrow> good x \<and> enc x = y"
  using dec_enc dec_strict by blast

lemma dec_inject: "dec y = Some x \<Longrightarrow> dec z = Some x \<Longrightarrow> y = z"
  using dec_strict by blast

lemma dec_None_iff: "dec y = None \<longleftrightarrow> y \<notin> enc ` {x. good x}"
  by (auto simp: image_iff dec_enc) (metis dec_Some_iff option.exhaust)

end

text \<open>An operation that closes an object at most once.\<close>

locale closable =
  fixes closed :: "'s \<Rightarrow> bool" and close :: "'s \<Rightarrow> 's go" and inv :: "'s \<Rightarrow> bool"
  assumes close_closed: "inv s \<Longrightarrow> closed s \<Longrightarrow> close s = Ret s"
    and close_open: "inv s \<Longrightarrow> \<not> closed s \<Longrightarrow> \<exists>t. close s = Ret t \<and> closed t \<and> inv t"
begin

lemma close_total: "inv s \<Longrightarrow> \<exists>t. close s = Ret t \<and> closed t \<and> inv t"
  using close_closed close_open by (cases "closed s") auto

lemma close_never_panics: "inv s \<Longrightarrow> close s \<noteq> Panic"
  using close_total by fastforce

lemma close_idempotent: "inv s \<Longrightarrow> go_bind (close s) close = close s"
  using close_total [of s] by (auto simp: close_closed)

end

text \<open>A step relation, its reachable states, and an invariant.\<close>

inductive reach :: "('s \<Rightarrow> bool) \<Rightarrow> ('s \<Rightarrow> 's \<Rightarrow> bool) \<Rightarrow> 's \<Rightarrow> bool" for ini stp where
  reach_init: "ini s \<Longrightarrow> reach ini stp s"
| reach_step: "reach ini stp s \<Longrightarrow> stp s t \<Longrightarrow> reach ini stp t"

locale invariant_system =
  fixes ini :: "'s \<Rightarrow> bool" and stp :: "'s \<Rightarrow> 's \<Rightarrow> bool" and inv :: "'s \<Rightarrow> bool"
  assumes inv_init: "ini s \<Longrightarrow> inv s"
    and inv_step: "inv s \<Longrightarrow> stp s t \<Longrightarrow> inv t"
begin

lemma reach_inv: "reach ini stp s \<Longrightarrow> inv s"
  by (induction rule: reach.induct) (auto intro: inv_init inv_step)

lemma steps_inv: "stp\<^sup>*\<^sup>* s t \<Longrightarrow> inv s \<Longrightarrow> inv t"
  by (induction rule: rtranclp_induct) (auto intro: inv_step)

end

end
