(* ===== verification/GoLib.thy ===== *)
theory GoLib
  imports Prelude
begin

text \<open>
  What the program uses of Go's standard library: slices and \<open>copy\<close>, \<open>encoding/hex\<close>,
  \<open>encoding/binary\<close>, \<open>strconv\<close>, \<open>strings\<close>, the UTF-8 decoding of \<open>range\<close> over a string, and the
  byte conversions of \<open>math/big\<close>. Each group ends with the laws the components rely on: the
  round trips of hex, decimals and fixed-width integers (instances of \<open>codec\<close>), and that a string is
  ASCII exactly when its runes are its bytes.
\<close>

subsection \<open>Bytes and strings\<close>

definition byte_of :: "char \<Rightarrow> byte" where
  "byte_of c = of_nat (of_char c)"

definition char_of_byte :: "byte \<Rightarrow> char" where
  "char_of_byte b = char_of (unat b)"

definition str_bytes :: "string \<Rightarrow> byte list" where
  "str_bytes s = map byte_of s"

definition bytes_str :: "byte list \<Rightarrow> string" where
  "bytes_str bs = map char_of_byte bs"

lemma unat_byte_less [simp]: "unat (b :: byte) < 256"
  by (rule order.strict_trans2 [OF unsigned_less]) simp

lemma of_char_less [simp]: "(of_char c :: nat) < 256"
  by (cases c) simp

lemma unat_byte_of [simp]: "unat (byte_of c) = of_char c"
  using of_char_less [of c] by (simp add: byte_of_def unat_of_nat del: of_char_less)

lemma char_of_byte_of [simp]: "char_of_byte (byte_of c) = c"
  by (simp add: char_of_byte_def)

lemma byte_of_char_of_byte [simp]: "byte_of (char_of_byte b) = b"
proof -
  have "unat b mod 256 = unat b" by simp
  then show ?thesis by (simp add: byte_of_def char_of_byte_def)
qed

lemma bytes_str_bytes [simp]: "bytes_str (str_bytes s) = s"
  by (simp add: str_bytes_def bytes_str_def comp_def)

lemma str_bytes_str [simp]: "str_bytes (bytes_str bs) = bs"
  by (simp add: str_bytes_def bytes_str_def comp_def)

lemma length_str_bytes [simp]: "length (str_bytes s) = length s"
  by (simp add: str_bytes_def)

lemma length_bytes_str [simp]: "length (bytes_str bs) = length bs"
  by (simp add: bytes_str_def)

lemma byte_of_nat_unat_mod [simp]: "unat (of_nat n :: byte) = n mod 256"
  by (simp add: unat_of_nat)

definition has_prefix :: "string \<Rightarrow> string \<Rightarrow> bool" where
  "has_prefix p s = (take (length p) s = p)"

fun str_contains :: "string \<Rightarrow> string \<Rightarrow> bool" where
  "str_contains p [] = (p = [])"
| "str_contains p (c # s) = (has_prefix p (c # s) \<or> str_contains p s)"

subsection \<open>Slices\<close>

text \<open>
  \<open>slice xs a b\<close> is \<open>xs[a:b]\<close> of a string, or of a slice whose capacity is its length; it
  panics when the bounds are out of range. \<open>go_copy dst src\<close> is the array or slice \<open>dst\<close>
  after \<open>copy(dst, src)\<close>, and \<open>copy_at a b dst src\<close> is \<open>dst\<close> after
  \<open>copy(dst[a:b], src)\<close> for constant bounds inside \<open>dst\<close>.
\<close>

definition slice :: "'a list \<Rightarrow> int \<Rightarrow> int \<Rightarrow> 'a list go" where
  "slice xs a b =
     (if 0 \<le> a \<and> a \<le> b \<and> b \<le> int (length xs)
      then Ret (take (nat (b - a)) (drop (nat a) xs)) else Panic)"

definition go_copy :: "'a list \<Rightarrow> 'a list \<Rightarrow> 'a list" where
  "go_copy dst src = take (length dst) src @ drop (length src) dst"

definition copy_at :: "nat \<Rightarrow> nat \<Rightarrow> 'a list \<Rightarrow> 'a list \<Rightarrow> 'a list" where
  "copy_at a b dst src = take a dst @ go_copy (take (b - a) (drop a dst)) src @ drop b dst"

lemma slice_eq_Ret_iff:
  "slice xs a b = Ret ys \<longleftrightarrow>
   0 \<le> a \<and> a \<le> b \<and> b \<le> int (length xs) \<and> ys = take (nat (b - a)) (drop (nat a) xs)"
  by (auto simp: slice_def)

lemma slice_in_range:
  "a \<le> b \<Longrightarrow> b \<le> length xs \<Longrightarrow> slice xs (int a) (int b) = Ret (take (b - a) (drop a xs))"
  by (simp add: slice_def nat_diff_distrib)

lemma length_go_copy [simp]: "length (go_copy dst src) = length dst"
  by (simp add: go_copy_def)

lemma go_copy_exact: "length src = length dst \<Longrightarrow> go_copy dst src = src"
  by (simp add: go_copy_def)

lemma length_copy_at [simp]:
  "a \<le> b \<Longrightarrow> b \<le> length dst \<Longrightarrow> length (copy_at a b dst src) = length dst"
  by (simp add: copy_at_def)

lemma copy_at_exact:
  "a \<le> b \<Longrightarrow> b \<le> length dst \<Longrightarrow> length src = b - a \<Longrightarrow>
   copy_at a b dst src = take a dst @ src @ drop b dst"
  by (simp add: copy_at_def go_copy_exact)

subsection \<open>encoding/hex\<close>

datatype hex_error = InvalidByte char | OddLength

definition hex_digit :: "nat \<Rightarrow> char" where
  "hex_digit n = ''0123456789abcdef'' ! n"

definition from_hex_char :: "char \<Rightarrow> nat option" where
  "from_hex_char c =
     (let n = of_char c :: nat in
      if 48 \<le> n \<and> n \<le> 57 then Some (n - 48)
      else if 97 \<le> n \<and> n \<le> 102 then Some (n - 97 + 10)
      else if 65 \<le> n \<and> n \<le> 70 then Some (n - 65 + 10)
      else None)"

definition hex_byte :: "byte \<Rightarrow> string" where
  "hex_byte b = [hex_digit (unat b div 16), hex_digit (unat b mod 16)]"

definition hex_encode :: "byte list \<Rightarrow> string" where
  "hex_encode bs = concat (map hex_byte bs)"

text \<open>\<open>hex.DecodeString\<close>: the bytes decoded before the first error, and the error.\<close>

fun hex_decode :: "string \<Rightarrow> byte list \<times> hex_error option" where
  "hex_decode [] = ([], None)"
| "hex_decode [c] =
     (case from_hex_char c of None \<Rightarrow> ([], Some (InvalidByte c)) | Some _ \<Rightarrow> ([], Some OddLength))"
| "hex_decode (p # q # s) =
     (case from_hex_char p of
        None \<Rightarrow> ([], Some (InvalidByte p))
      | Some a \<Rightarrow>
          (case from_hex_char q of
             None \<Rightarrow> ([], Some (InvalidByte q))
           | Some b \<Rightarrow> (case hex_decode s of (bs, e) \<Rightarrow> (of_nat (16 * a + b) # bs, e))))"

definition hex_decode_ok :: "string \<Rightarrow> byte list option" where
  "hex_decode_ok s = (case hex_decode s of (bs, None) \<Rightarrow> Some bs | (_, Some _) \<Rightarrow> None)"

lemma from_hex_digit: "n < 16 \<Longrightarrow> from_hex_char (hex_digit n) = Some n"
proof -
  have "list_all (\<lambda>n. from_hex_char (hex_digit n) = Some n) [0..<16]" by code_simp
  then show "n < 16 \<Longrightarrow> from_hex_char (hex_digit n) = Some n" by (simp add: list_all_iff)
qed

lemma length_hex_encode [simp]: "length (hex_encode bs) = 2 * length bs"
  by (induction bs) (simp_all add: hex_encode_def hex_byte_def)

lemma hex_encode_simps [simp]:
  "hex_encode [] = []" "hex_encode (b # bs) = hex_byte b @ hex_encode bs"
  by (simp_all add: hex_encode_def)

lemma hex_decode_encode [simp]: "hex_decode (hex_encode bs) = (bs, None)"
proof (induction bs)
  case Nil
  then show ?case by simp
next
  case (Cons b bs)
  have "unat b div 16 < 16" by (rule less_mult_imp_div_less) simp
  then have "from_hex_char (hex_digit (unat b div 16)) = Some (unat b div 16)"
    "from_hex_char (hex_digit (unat b mod 16)) = Some (unat b mod 16)"
    by (simp_all add: from_hex_digit)
  with Cons show ?case by (simp add: hex_byte_def)
qed

lemma hex_decode_length: "snd (hex_decode s) = None \<Longrightarrow> length s = 2 * length (fst (hex_decode s))"
  by (induction s rule: hex_decode.induct) (auto split: option.splits prod.splits)

lemma hex_encode_take: "take (2 * n) (hex_encode bs) = hex_encode (take n bs)"
proof (induction bs arbitrary: n)
  case (Cons b bs)
  then show ?case by (cases n) (simp_all add: hex_byte_def)
qed simp

interpretation hex: codec hex_encode hex_decode_ok "\<lambda>_. True"
  by unfold_locales (simp add: hex_decode_ok_def)

subsection \<open>strconv\<close>

definition dec_digits :: "nat \<Rightarrow> string" where
  "dec_digits n = (if n = 0 then ''0'' else map (\<lambda>d. char_of (48 + d)) (to_digits 10 n))"

definition is_dec :: "char \<Rightarrow> bool" where
  "is_dec c \<longleftrightarrow> 48 \<le> (of_char c :: nat) \<and> (of_char c :: nat) \<le> 57"

definition parse_nat :: "string \<Rightarrow> nat option" where
  "parse_nat s =
     (if s \<noteq> [] \<and> list_all is_dec s then Some (from_digits 10 (map (\<lambda>c. of_char c - 48) s)) else None)"

text \<open>\<open>strconv.Itoa\<close>, and \<open>strconv.Atoi\<close> (which is \<open>ParseInt(s, 10, 64)\<close>).\<close>

definition itoa :: "int \<Rightarrow> string" where
  "itoa i = (if i < 0 then CHR ''-'' # dec_digits (nat (- i)) else dec_digits (nat i))"

definition in_int64 :: "int \<Rightarrow> bool" where
  "in_int64 i \<longleftrightarrow> - (2 ^ 63) \<le> i \<and> i < 2 ^ 63"

definition atoi :: "string \<Rightarrow> int option" where
  "atoi s =
     (let i = (case s of
                 [] \<Rightarrow> None
               | c # cs \<Rightarrow>
                   if c = CHR ''-'' then map_option (\<lambda>n. - int n) (parse_nat cs)
                   else if c = CHR ''+'' then map_option int (parse_nat cs)
                   else map_option int (parse_nat s))
      in case i of None \<Rightarrow> None | Some n \<Rightarrow> if in_int64 n then Some n else None)"

lemma of_char_digit: "d < 10 \<Longrightarrow> (of_char (char_of (48 + d) :: char) :: nat) = 48 + d"
  by simp

lemma parse_dec_digits: "parse_nat (dec_digits n) = Some n"
proof (cases "n = 0")
  case True
  then show ?thesis by (simp add: parse_nat_def dec_digits_def is_dec_def from_digits_Cons)
next
  case False
  have less: "\<forall>d \<in> set (to_digits 10 n). d < 10" by (auto dest: to_digits_less)
  then have "map (\<lambda>c. of_char c - 48) (map (\<lambda>d. char_of (48 + d) :: char) (to_digits 10 n)) = to_digits 10 n"
    by (auto intro!: map_idI)
  with less False show ?thesis
    by (auto simp: parse_nat_def dec_digits_def is_dec_def list_all_iff to_digits_Nil_iff)
qed

lemma dec_digits_hd: "\<exists>c cs. dec_digits n = c # cs \<and> is_dec c"
proof (cases "to_digits 10 n")
  case Nil
  then show ?thesis by (auto simp: dec_digits_def is_dec_def to_digits_Nil_iff)
next
  case (Cons d ds)
  moreover have "d < 10" using Cons by (intro to_digits_less [of d 10 n]) simp
  ultimately show ?thesis by (auto simp: dec_digits_def is_dec_def)
qed

lemma atoi_itoa: "in_int64 i \<Longrightarrow> atoi (itoa i) = Some i"
proof -
  assume i: "in_int64 i"
  obtain c cs where c: "dec_digits (nat i) = c # cs" "is_dec c" using dec_digits_hd by blast
  then have "c \<noteq> CHR ''-''" "c \<noteq> CHR ''+''" by (auto simp: is_dec_def)
  with c i parse_dec_digits [of "nat i"] parse_dec_digits [of "nat (- i)"] show ?thesis
    by (simp add: atoi_def itoa_def)
qed

interpretation dec: codec itoa atoi in_int64
  by unfold_locales (rule atoi_itoa)

subsection \<open>encoding/binary\<close>

text \<open>
  \<open>le_put n w\<close> and \<open>be_put n w\<close> are the \<open>n\<close> bytes that \<open>PutUint32\<close> and \<open>PutUint64\<close>
  write; \<open>le_get\<close> and \<open>be_get\<close> read a whole byte string back. The \<open>Uint\<close> readers panic on
  a short slice.
\<close>

definition le_put :: "nat \<Rightarrow> 'a::len word \<Rightarrow> byte list" where
  "le_put n w = map (\<lambda>i. of_nat (unat w div 256 ^ i)) [0..<n]"

definition be_put :: "nat \<Rightarrow> 'a::len word \<Rightarrow> byte list" where
  "be_put n w = rev (le_put n w)"

definition be_get :: "byte list \<Rightarrow> 'a::len word" where
  "be_get bs = of_nat (from_digits 256 (map unat bs))"

definition le_get :: "byte list \<Rightarrow> 'a::len word" where
  "le_get bs = be_get (rev bs)"

definition le_uint64 :: "byte list \<Rightarrow> u64 go" where
  "le_uint64 bs = (if length bs < 8 then Panic else Ret (le_get (take 8 bs)))"

definition le_uint32 :: "byte list \<Rightarrow> u32 go" where
  "le_uint32 bs = (if length bs < 4 then Panic else Ret (le_get (take 4 bs)))"

definition be_uint64 :: "byte list \<Rightarrow> u64 go" where
  "be_uint64 bs = (if length bs < 8 then Panic else Ret (be_get (take 8 bs)))"

lemma length_le_put [simp]: "length (le_put n w) = n"
  by (simp add: le_put_def)

lemma length_be_put [simp]: "length (be_put n w) = n"
  by (simp add: be_put_def)

lemma be_put_pad: "be_put n w = map of_nat (pad_digits 256 n (unat w))"
proof (rule nth_equalityI)
  fix i
  assume "i < length (be_put n w)"
  then have i: "i < n" by simp
  then have "be_put n w ! i = of_nat (unat w div 256 ^ (n - 1 - i))"
    by (simp add: be_put_def le_put_def rev_nth)
  also have "\<dots> = (of_nat (unat w div 256 ^ (n - 1 - i) mod 256) :: byte)"
    by (rule unsigned_word_eqI [where 'a = nat]) simp
  finally show "be_put n w ! i = map of_nat (pad_digits 256 n (unat w)) ! i"
    using i by (simp add: pad_digits_nth)
qed simp

lemma map_unat_of_nat: "\<forall>d \<in> set ds. d < 256 \<Longrightarrow> map unat (map of_nat ds :: byte list) = ds"
  by (induction ds) simp_all

lemma unat_be_put: "map unat (be_put n w) = pad_digits 256 n (unat w)"
  unfolding be_put_pad by (rule map_unat_of_nat) (auto dest: pad_digits_less [rotated])

lemma digits_be_put: "from_digits 256 (map unat (be_put n w)) = unat w mod 256 ^ n"
  by (simp only: unat_be_put from_pad_digits)

lemma word_range: "LENGTH('a) = 8 * n \<Longrightarrow> unat (w :: 'a::len word) < 256 ^ n"
  using unsigned_less [of w, where 'a = nat] by (simp add: power_mult)

lemma be_get_put: "LENGTH('a) = 8 * n \<Longrightarrow> be_get (be_put n (w :: 'a::len word)) = w"
  using word_range [of n w] by (simp add: be_get_def digits_be_put)

lemma le_get_put: "LENGTH('a) = 8 * n \<Longrightarrow> le_get (le_put n (w :: 'a::len word)) = w"
  using be_get_put [of n w] by (simp add: le_get_def be_put_def)

lemma digits_unat_less: "\<forall>d \<in> set (map unat (bs :: byte list)). d < 256"
  by simp

lemma unat_list_inject: "map unat (xs :: byte list) = map unat ys \<longleftrightarrow> xs = ys"
  by (rule inj_map_eq_map) (metis injI unsigned_word_eqI)

lemma be_put_get:
  assumes "length bs = n" and "LENGTH('a) = 8 * n"
  shows "be_put n (be_get bs :: 'a::len word) = bs"
proof -
  have bound: "from_digits 256 (map unat bs) < 256 ^ n"
    using from_digits_bound [OF digits_unat_less, of bs] assms by simp
  then have "unat (be_get bs :: 'a word) = from_digits 256 (map unat bs)"
    using assms by (simp add: be_get_def unat_of_nat power_mult)
  then have "from_digits 256 (map unat (be_put n (be_get bs :: 'a word)))
           = from_digits 256 (map unat bs)"
    using bound by (simp add: digits_be_put)
  then have "map unat (be_put n (be_get bs :: 'a word)) = map unat bs"
    using assms by (intro from_digits_inject [where B = 256]) simp_all
  then show ?thesis by (simp add: unat_list_inject)
qed

lemma le_put_get:
  "length bs = n \<Longrightarrow> LENGTH('a) = 8 * n \<Longrightarrow> le_put n (le_get bs :: 'a::len word) = bs"
  using be_put_get [of "rev bs" n, where 'a = 'a]
  by (simp add: le_get_def be_put_def rev_swap)

interpretation le32: strict_codec "le_put 4 :: u32 \<Rightarrow> byte list"
    "\<lambda>bs. if length bs = 4 then Some (le_get bs) else None" "\<lambda>_. True"
  by unfold_locales (auto simp: le_get_put le_put_get split: if_splits)

interpretation be64: strict_codec "be_put 8 :: u64 \<Rightarrow> byte list"
    "\<lambda>bs. if length bs = 8 then Some (be_get bs) else None" "\<lambda>_. True"
  by unfold_locales (auto simp: be_get_put be_put_get split: if_splits)

subsection \<open>math/big: numbers and their big-endian bytes\<close>

definition big_set_bytes :: "byte list \<Rightarrow> nat" where
  "big_set_bytes bs = from_digits 256 (map unat bs)"

definition big_bytes :: "nat \<Rightarrow> byte list" where
  "big_bytes n = map of_nat (to_digits 256 n)"

lemma unat_big_bytes: "map unat (big_bytes n) = to_digits 256 n"
  by (rule nth_equalityI) (auto simp: big_bytes_def dest!: nth_mem to_digits_less)

lemma big_set_bytes_bytes [simp]: "big_set_bytes (big_bytes n) = n"
  by (simp add: big_set_bytes_def unat_big_bytes)

lemma big_bytes_set_bytes: "big_bytes (big_set_bytes bs) = dropWhile (\<lambda>b. b = 0) bs"
proof -
  have "map unat (big_bytes (big_set_bytes bs)) = dropWhile (\<lambda>d. d = 0) (map unat bs)"
    unfolding unat_big_bytes big_set_bytes_def by (intro to_from_digits) simp_all
  also have "\<dots> = map unat (dropWhile (\<lambda>b. b = 0) bs)"
    by (simp add: dropWhile_map comp_def unat_eq_0)
  finally show ?thesis by (simp add: unat_list_inject)
qed

lemma big_bytes_hd: "big_bytes n = [] \<or> hd (big_bytes n) \<noteq> 0"
  using dropWhile_hd [of "\<lambda>b. b = 0" "big_bytes n"]
  by (simp only: big_bytes_set_bytes [symmetric] big_set_bytes_bytes)

subsection \<open>Runes: the UTF-8 decoding of range over a string\<close>

text \<open>
  \<open>range\<close> yields code points. An ill-formed sequence yields U+FFFD and consumes one byte.
  The tables are those of \<open>unicode/utf8\<close>: the first byte gives the length and the range of the
  second byte.
\<close>

definition rune_error :: nat where "rune_error = 0xFFFD"

definition second_range :: "nat \<Rightarrow> nat \<times> nat" where
  "second_range b0 =
     (if b0 = 0xE0 then (0xA0, 0xBF) else if b0 = 0xED then (0x80, 0x9F)
      else if b0 = 0xF0 then (0x90, 0xBF) else if b0 = 0xF4 then (0x80, 0x8F)
      else (0x80, 0xBF))"

definition in_range :: "nat \<times> nat \<Rightarrow> nat \<Rightarrow> bool" where
  "in_range r b = (fst r \<le> b \<and> b \<le> snd r)"

fun decode_rune :: "nat list \<Rightarrow> nat \<times> nat" where
  "decode_rune [] = (rune_error, 0)"
| "decode_rune (b0 # bs) =
     (if b0 < 0x80 then (b0, 1)
      else if b0 < 0xC2 \<or> 0xF4 < b0 then (rune_error, 1)
      else case bs of
        [] \<Rightarrow> (rune_error, 1)
      | b1 # bs1 \<Rightarrow>
          if \<not> in_range (second_range b0) b1 then (rune_error, 1)
          else if b0 < 0xE0 then ((b0 mod 32) * 64 + b1 mod 64, 2)
          else case bs1 of
            [] \<Rightarrow> (rune_error, 1)
          | b2 # bs2 \<Rightarrow>
              if \<not> in_range (0x80, 0xBF) b2 then (rune_error, 1)
              else if b0 < 0xF0 then ((b0 mod 16) * 4096 + (b1 mod 64) * 64 + b2 mod 64, 3)
              else case bs2 of
                [] \<Rightarrow> (rune_error, 1)
              | b3 # _ \<Rightarrow>
                  if \<not> in_range (0x80, 0xBF) b3 then (rune_error, 1)
                  else ((b0 mod 8) * 262144 + (b1 mod 64) * 4096 + (b2 mod 64) * 64 + b3 mod 64, 4))"

lemma decode_rune_size: "bs \<noteq> [] \<Longrightarrow> 0 < snd (decode_rune bs)"
  by (cases bs) (auto split: list.splits)

function runes :: "nat list \<Rightarrow> nat list" where
  "runes bs =
     (if bs = [] then []
      else fst (decode_rune bs) # runes (drop (snd (decode_rune bs)) bs))"
  by pat_completeness auto
termination
  by (relation "measure length") (simp_all add: decode_rune_size)

declare runes.simps [simp del]

definition str_runes :: "string \<Rightarrow> nat list" where
  "str_runes s = runes (map of_char s)"

lemma runes_Nil [simp]: "runes [] = []"
  by (simp add: runes.simps)

lemma runes_ascii_Cons [simp]: "b < 128 \<Longrightarrow> runes (b # bs) = b # runes bs"
  by (subst runes.simps) simp

lemma runes_ascii: "\<forall>b \<in> set bs. b < 128 \<Longrightarrow> runes bs = bs"
  by (induction bs) simp_all

lemma decode_rune_high: "128 \<le> b \<Longrightarrow> 128 \<le> fst (decode_rune (b # bs))"
proof -
  have m2: "list_all (\<lambda>b. 2 \<le> b mod (32 :: nat)) [194..<224]"
    and m3: "list_all (\<lambda>b. 1 \<le> b mod (16 :: nat)) [225..<240]"
    and m3': "list_all (\<lambda>c. 32 \<le> c mod (64 :: nat)) [160..<192]"
    and m4: "list_all (\<lambda>b. 1 \<le> b mod (8 :: nat)) [241..<245]"
    and m4': "list_all (\<lambda>c. 16 \<le> c mod (64 :: nat)) [144..<192]"
    by code_simp+
  have two: "128 \<le> (b mod 32) * 64 + x" if "194 \<le> b" "b < 224" for b x :: nat
  proof -
    from that bspec [OF m2 [unfolded list_all_iff set_upt], of b] have "2 \<le> b mod 32" by simp
    then show ?thesis by simp
  qed
  have three: "128 \<le> (b mod 16) * 4096 + ((c mod 64) * 64 + x)"
    if "224 \<le> b" "b < 240" "b = 224 \<longrightarrow> 160 \<le> c" "c \<le> 191" for b c x :: nat
  proof (cases "b = 224")
    case True
    with that bspec [OF m3' [unfolded list_all_iff set_upt], of c] have "32 \<le> c mod 64" by simp
    then show ?thesis by simp
  next
    case False
    with that bspec [OF m3 [unfolded list_all_iff set_upt], of b] have "1 \<le> b mod 16" by simp
    then show ?thesis by simp
  qed
  have four: "128 \<le> (b mod 8) * 262144 + ((c mod 64) * 4096 + x)"
    if "240 \<le> b" "b \<le> 244" "b = 240 \<longrightarrow> 144 \<le> c" "c \<le> 191" for b c x :: nat
  proof (cases "b = 240")
    case True
    with that bspec [OF m4' [unfolded list_all_iff set_upt], of c] have "16 \<le> c mod 64" by simp
    then show ?thesis by simp
  next
    case False
    with that bspec [OF m4 [unfolded list_all_iff set_upt], of b] have "1 \<le> b mod 8" by simp
    then show ?thesis by simp
  qed
  have second: "in_range (second_range b) c \<Longrightarrow>
    c \<le> 191 \<and> (b = 224 \<longrightarrow> 160 \<le> c) \<and> (b = 240 \<longrightarrow> 144 \<le> c)" for b c
    by (auto simp: in_range_def second_range_def split: if_splits)
  assume "128 \<le> b"
  then show ?thesis
    using two three four
    by (auto simp: rune_error_def add.assoc dest!: second split: list.split)
qed

lemma runes_high: "b \<in> set bs \<Longrightarrow> 128 \<le> b \<Longrightarrow> \<exists>r \<in> set (runes bs). 128 \<le> r"
proof (induction bs)
  case (Cons a bs)
  show ?case
  proof (cases "a < 128")
    case True
    with Cons show ?thesis by auto
  next
    case False
    then have "128 \<le> fst (decode_rune (a # bs))" by (intro decode_rune_high) simp
    then show ?thesis by (subst runes.simps) (simp del: decode_rune.simps)
  qed
qed simp

end
