(* ===== verification/Base58.thy ===== *)
theory Base58
  imports GoLib
begin

text \<open>
  The package \<open>server/base58\<close>: the alphabet and its inverse table (\<open>alphabet.go\<close>), the
  program that generates that table (\<open>genalphabet.go\<close>), and \<open>Decode\<close> and \<open>Encode\<close>
  (\<open>base58.go\<close>), which work on ten digits at a time in 64-bit arithmetic.

  The reference is positional notation: \<open>b58_decode_valid\<close> and \<open>b58_encode_spec\<close> say that the
  chunked loops compute the base-58 value digit by digit, with one zero byte per leading \<open>1\<close>.
  The round trips follow, and make \<open>Encode\<close> a \<open>strict_codec\<close>.
\<close>

subsection \<open>The alphabet and its table\<close>

definition alphabet :: string where
  "alphabet = ''123456789ABCDEFGHJKLMNPQRSTUVWXYZabcdefghijkmnopqrstuvwxyz''"

definition alphabetIdx0 :: char where
  "alphabetIdx0 = CHR ''1''"

definition b58 :: "nat list" where
  "b58 =
   [255, 255, 255, 255, 255, 255, 255, 255, 255, 255, 255, 255, 255, 255, 255, 255,
    255, 255, 255, 255, 255, 255, 255, 255, 255, 255, 255, 255, 255, 255, 255, 255,
    255, 255, 255, 255, 255, 255, 255, 255, 255, 255, 255, 255, 255, 255, 255, 255,
    255, 0, 1, 2, 3, 4, 5, 6, 7, 8, 255, 255, 255, 255, 255, 255,
    255, 9, 10, 11, 12, 13, 14, 15, 16, 255, 17, 18, 19, 20, 21, 255,
    22, 23, 24, 25, 26, 27, 28, 29, 30, 31, 32, 255, 255, 255, 255, 255,
    255, 33, 34, 35, 36, 37, 38, 39, 40, 41, 42, 43, 255, 44, 45, 46,
    47, 48, 49, 50, 51, 52, 53, 54, 55, 56, 57, 255, 255, 255, 255, 255,
    255, 255, 255, 255, 255, 255, 255, 255, 255, 255, 255, 255, 255, 255, 255, 255,
    255, 255, 255, 255, 255, 255, 255, 255, 255, 255, 255, 255, 255, 255, 255, 255,
    255, 255, 255, 255, 255, 255, 255, 255, 255, 255, 255, 255, 255, 255, 255, 255,
    255, 255, 255, 255, 255, 255, 255, 255, 255, 255, 255, 255, 255, 255, 255, 255,
    255, 255, 255, 255, 255, 255, 255, 255, 255, 255, 255, 255, 255, 255, 255, 255,
    255, 255, 255, 255, 255, 255, 255, 255, 255, 255, 255, 255, 255, 255, 255, 255,
    255, 255, 255, 255, 255, 255, 255, 255, 255, 255, 255, 255, 255, 255, 255, 255,
    255, 255, 255, 255, 255, 255, 255, 255, 255, 255, 255, 255, 255, 255, 255, 255]"

text \<open>\<open>genalphabet.go\<close>: 32 rows of 8 entries, each the index of that byte in the alphabet.\<close>

fun index_from :: "string \<Rightarrow> nat \<Rightarrow> int \<Rightarrow> int" where
  "index_from [] b i = -1"
| "index_from (c # s) b i = (if of_char c = b then i else index_from s b (i + 1))"

definition index_byte :: "string \<Rightarrow> nat \<Rightarrow> int" where
  "index_byte s b = index_from s b 0"

definition gen_entry :: "nat \<Rightarrow> nat \<Rightarrow> nat" where
  "gen_entry i j = (let idx = index_byte alphabet (i * 8 + j) in if idx = -1 then 255 else nat idx)"

definition gen_table :: "nat list" where
  "gen_table = concat (map (\<lambda>i. map (gen_entry i) [0..<8]) [0..<32])"

lemma b58_length [simp]: "length b58 = 256"
  by (simp add: b58_def)

lemma alphabet_length [simp]: "length alphabet = 58"
  by (simp add: alphabet_def)

definition valid58 :: "string \<Rightarrow> bool" where
  "valid58 s = list_all (\<lambda>c. c \<in> set alphabet) s"

definition digit58 :: "char \<Rightarrow> nat" where
  "digit58 c = b58 ! of_char c"

definition char58 :: "nat \<Rightarrow> char" where
  "char58 d = alphabet ! d"

lemma alphabet_codes:
  "map of_char alphabet =
   [49, 50, 51, 52, 53, 54, 55, 56, 57, 65, 66, 67, 68, 69, 70, 71, 72, 74, 75, 76, 77, 78,
   80, 81, 82, 83, 84, 85, 86, 87, 88, 89, 90, 97, 98, 99, 100, 101, 102, 103, 104, 105,
   106, 107, 109, 110, 111, 112, 113, 114, 115, 116, 117, 118, 119, 120, 121, 122 :: nat]"
  by (simp add: alphabet_def)

lemma alphabet_facts:
  "list_all (\<lambda>c. digit58 c < 58 \<and> char58 (digit58 c) = c \<and> of_char c < (128 :: nat)) alphabet"
  by (simp add: alphabet_def digit58_def char58_def b58_def)

lemma alphabet_index: "map digit58 alphabet = [0..<58]"
  by (simp add: alphabet_def digit58_def b58_def upt_rec)

lemma b58_invalid_table: "list_all2 (\<lambda>n v. v = 255 \<or> n \<in> set (map of_char alphabet)) [0..<256] b58"
  unfolding alphabet_codes upt_256 b58_def by simp

lemma digit58_less [simp]: "c \<in> set alphabet \<Longrightarrow> digit58 c < 58"
  and char58_digit [simp]: "c \<in> set alphabet \<Longrightarrow> char58 (digit58 c) = c"
  and alphabet_ascii: "c \<in> set alphabet \<Longrightarrow> of_char c < (128 :: nat)"
  using alphabet_facts by (simp_all add: list_all_iff)

lemma digit58_char [simp]: "d < 58 \<Longrightarrow> digit58 (char58 d) = d"
  using arg_cong [OF alphabet_index, of "\<lambda>xs. xs ! d"] by (simp add: char58_def)

lemma char58_in [simp]: "d < 58 \<Longrightarrow> char58 d \<in> set alphabet"
  by (simp add: char58_def)

lemma b58_invalid: "n < 256 \<Longrightarrow> n \<notin> of_char ` set alphabet \<Longrightarrow> b58 ! n = 255"
  using list_all2_nthD [OF b58_invalid_table, of n] by simp

lemma digit58_invalid: "c \<notin> set alphabet \<Longrightarrow> b58 ! of_char c = 255"
  by (rule b58_invalid) (auto simp: of_char_eq_iff)

lemma b58_high: "128 \<le> n \<Longrightarrow> n < 256 \<Longrightarrow> b58 ! n = 255"
  by (rule b58_invalid) (auto dest: alphabet_ascii)

lemma char58_0 [simp]: "char58 0 = alphabetIdx0"
  by (simp add: char58_def alphabet_def alphabetIdx0_def)

lemma idx0_in [simp]: "alphabetIdx0 \<in> set alphabet"
  using char58_in [of 0] by simp

lemma digit58_idx0 [simp]: "digit58 alphabetIdx0 = 0"
  using digit58_char [of 0] by simp

lemma digit58_0_iff: "c \<in> set alphabet \<Longrightarrow> digit58 c = 0 \<longleftrightarrow> c = alphabetIdx0"
  using char58_digit [of c] by (auto simp del: char58_digit)

lemma char58_eq_idx0: "d < 58 \<Longrightarrow> char58 d = alphabetIdx0 \<longleftrightarrow> d = 0"
  using digit58_char [of d] by (auto simp del: digit58_char)

lemma valid58_simps [simp]:
  "valid58 []" "valid58 (c # s) \<longleftrightarrow> c \<in> set alphabet \<and> valid58 s"
  "valid58 (s @ t) \<longleftrightarrow> valid58 s \<and> valid58 t"
  by (simp_all add: valid58_def)

lemma valid58_iff: "valid58 s \<longleftrightarrow> (\<forall>c \<in> set s. c \<in> set alphabet)"
  by (simp add: valid58_def list_all_iff)

text \<open>The table is what the generator produces.\<close>

lemma index_from_absent: "b \<notin> of_char ` set s \<Longrightarrow> index_from s b i = -1"
  by (induction s arbitrary: i) auto

lemma index_from_present:
  "distinct s \<Longrightarrow> k < length s \<Longrightarrow> index_from s (of_char (s ! k)) i = i + int k"
proof (induction s arbitrary: i k)
  case (Cons c s)
  then show ?case by (cases k) (auto simp: of_char_eq_iff in_set_conv_nth)
qed simp

lemma distinct_alphabet: "distinct alphabet"
  by (simp add: alphabet_def)

lemma b58_entry:
  assumes "n < 256"
  shows "b58 ! n = (let idx = index_byte alphabet n in if idx = -1 then 255 else nat idx)"
proof (cases "n \<in> of_char ` set alphabet")
  case False
  with assms show ?thesis by (simp add: index_byte_def index_from_absent b58_invalid)
next
  case True
  then obtain k where k: "k < 58" "n = of_char (alphabet ! k)"
    by (auto simp: in_set_conv_nth)
  then have "index_byte alphabet n = int k"
    using index_from_present [OF distinct_alphabet, of k 0] by (simp add: index_byte_def)
  moreover have "b58 ! n = k"
    using k digit58_char [of k] by (simp add: digit58_def char58_def)
  ultimately show ?thesis by simp
qed

subsection \<open>Decode\<close>

definition bigRadix :: "nat list" where
  "bigRadix = [0, 58, 58 * 58, 58 * 58 * 58, 58 * 58 * 58 * 58, 58 * 58 * 58 * 58 * 58,
     58 * 58 * 58 * 58 * 58 * 58, 58 * 58 * 58 * 58 * 58 * 58 * 58,
     58 * 58 * 58 * 58 * 58 * 58 * 58 * 58, 58 * 58 * 58 * 58 * 58 * 58 * 58 * 58 * 58,
     58 * 58 * 58 * 58 * 58 * 58 * 58 * 58 * 58 * 58]"

definition bigRadix10 :: nat where
  "bigRadix10 = 58 * 58 * 58 * 58 * 58 * 58 * 58 * 58 * 58 * 58"

text \<open>The inner loop over the runes of one chunk; \<open>None\<close> is the early return.\<close>

fun chunk_total :: "nat list \<Rightarrow> u64 \<Rightarrow> u64 option" where
  "chunk_total [] tot = Some tot"
| "chunk_total (v # vs) tot =
     (if 255 < v then None
      else let tmp = b58 ! v in
        if tmp = 255 then None else chunk_total vs (tot * 58 + of_nat tmp))"

function decode_loop :: "string \<Rightarrow> nat \<Rightarrow> nat option" where
  "decode_loop t answer =
     (if t = [] then Some answer
      else let n = (if 10 < length t then 10 else length t) in
        case chunk_total (str_runes (take n t)) 0 of
          None \<Rightarrow> None
        | Some tot \<Rightarrow> decode_loop (drop n t) (answer * (bigRadix ! n) + unat tot))"
  by pat_completeness auto
termination
  by (relation "measure (\<lambda>(t, answer). length t)") auto

declare decode_loop.simps [simp del]

fun leading :: "'a \<Rightarrow> 'a list \<Rightarrow> nat" where
  "leading a [] = 0"
| "leading a (x # xs) = (if x = a then Suc (leading a xs) else 0)"

definition b58_decode :: "string \<Rightarrow> byte list" where
  "b58_decode b =
     (case decode_loop b 0 of
        None \<Rightarrow> []
      | Some answer \<Rightarrow>
          let tmpval = big_bytes answer;
              numZeros = leading alphabetIdx0 b;
              flen = numZeros + length tmpval
          in copy_at numZeros flen (replicate flen 0) tmpval)"

subsection \<open>Encode\<close>

function emit_rest :: "nat \<Rightarrow> string" where
  "emit_rest m = (if 0 < m then alphabet ! (m mod 58) # emit_rest (m div 58) else [])"
  by pat_completeness auto
termination
  by (relation "measure id") auto

declare emit_rest.simps [simp del]

fun emit_n :: "nat \<Rightarrow> nat \<Rightarrow> string" where
  "emit_n 0 m = []"
| "emit_n (Suc i) m = alphabet ! (m mod 58) # emit_n i (m div 58)"

function encode_loop :: "nat \<Rightarrow> string \<Rightarrow> string" where
  "encode_loop x answer =
     (if 0 < x then
        let md = x mod bigRadix10; x' = x div bigRadix10 in
        if x' = 0 then encode_loop x' (answer @ emit_rest md)
        else encode_loop x' (answer @ emit_n 10 md)
      else answer)"
  by pat_completeness auto
termination
  by (relation "measure (\<lambda>(x, answer). x)") (auto simp: bigRadix10_def)

declare encode_loop.simps [simp del]

text \<open>The in-place reversal: swap \<open>answer[i]\<close> and \<open>answer[alen-1-i]\<close> for \<open>i < alen/2\<close>.\<close>

definition swap_ends :: "'a list \<Rightarrow> nat \<Rightarrow> 'a list" where
  "swap_ends xs i = (let j = length xs - 1 - i in xs[i := xs ! j, j := xs ! i])"

definition reverse_in_place :: "'a list \<Rightarrow> 'a list" where
  "reverse_in_place xs = foldl swap_ends xs [0..<length xs div 2]"

definition b58_encode :: "byte list \<Rightarrow> string" where
  "b58_encode b =
     (let answer = encode_loop (big_set_bytes b) [];
          answer' = answer @ replicate (leading 0 b) alphabetIdx0
      in reverse_in_place answer')"


subsection \<open>Decode computes the positional value\<close>

lemma chunk_total_valid:
  "valid58 s \<Longrightarrow> chunk_total (map of_char s) (of_nat a) =
   Some (of_nat (foldl (\<lambda>acc d. acc * 58 + d) a (map digit58 s)))"
proof (induction s arbitrary: a)
  case (Cons c s)
  then have "digit58 c < 58" by simp
  moreover have "(of_char c :: nat) < 256" by (rule of_char_less)
  ultimately show ?case
    using Cons.IH [of "a * 58 + digit58 c"] Cons.prems by (simp add: digit58_def del: of_char_less)
qed simp

lemma chunk_total_invalid:
  "v \<in> set vs \<Longrightarrow> 255 < v \<or> b58 ! v = 255 \<Longrightarrow> chunk_total vs a = None"
  by (induction vs arbitrary: a) (auto simp: Let_def)

lemma str_runes_valid: "valid58 s \<Longrightarrow> str_runes s = map of_char s"
  unfolding str_runes_def valid58_iff by (rule runes_ascii) (auto intro: alphabet_ascii)

lemma chunk_valid:
  assumes "valid58 s" and "length s \<le> 10"
  shows "\<exists>t. chunk_total (str_runes s) 0 = Some t \<and> unat t = from_digits 58 (map digit58 s)"
proof -
  have "from_digits 58 (map digit58 s) < 58 ^ length (map digit58 s)"
    using assms(1) by (intro from_digits_bound) (auto simp: valid58_iff)
  also have "\<dots> \<le> 58 ^ 10" using assms(2) by (intro power_increasing) auto
  also have "\<dots> < (2 :: nat) ^ 64" by simp
  finally have "unat (of_nat (from_digits 58 (map digit58 s)) :: u64) = from_digits 58 (map digit58 s)"
    by (simp add: unat_of_nat)
  then show ?thesis
    using chunk_total_valid [OF assms(1), of 0] assms(1)
    by (simp add: str_runes_valid from_digits_def)
qed

lemma chunk_invalid:
  assumes "c \<in> set s" and "c \<notin> set alphabet"
  shows "chunk_total (str_runes s) a = None"
proof (cases "\<forall>d \<in> set s. of_char d < (128 :: nat)")
  case True
  then have "str_runes s = map of_char s"
    using runes_ascii [of "map of_char s"] by (simp add: str_runes_def)
  with assms show ?thesis
    by (intro chunk_total_invalid [of "of_char c"]) (auto simp: digit58_invalid)
next
  case False
  then obtain d where "d \<in> set s" "128 \<le> (of_char d :: nat)" by force
  then obtain r where "r \<in> set (str_runes s)" "128 \<le> r"
    using runes_high [of "of_char d" "map of_char s"] by (auto simp: str_runes_def)
  then show ?thesis using b58_high [of r]
    by (cases "r < 256") (auto intro: chunk_total_invalid)
qed

lemma bigRadix_nth: "0 < n \<Longrightarrow> n \<le> 10 \<Longrightarrow> bigRadix ! n = 58 ^ n"
proof -
  have "list_all (\<lambda>n. bigRadix ! n = 58 ^ n) [1..<11]"
    by (simp add: bigRadix_def upt_rec)
  then show "0 < n \<Longrightarrow> n \<le> 10 \<Longrightarrow> bigRadix ! n = 58 ^ n"
    unfolding list_all_iff set_upt by simp
qed

lemma decode_loop_valid:
  "valid58 t \<Longrightarrow> decode_loop t a = Some (a * 58 ^ length t + from_digits 58 (map digit58 t))"
proof (induction t a rule: decode_loop.induct)
  case (1 t a)
  show ?case
  proof (cases "t = []")
    case True
    then show ?thesis by (simp add: decode_loop.simps)
  next
    case False
    define n where "n = (if 10 < length t then 10 else length t)"
    have t: "t = take n t @ drop n t" by simp
    then have v: "valid58 (take n t)" "valid58 (drop n t)"
      using \<open>valid58 t\<close> by (metis valid58_simps(3))+
    have n: "0 < n" "n \<le> 10" "n \<le> length t" "length (take n t) = n"
      using False by (auto simp: n_def)
    obtain u where u: "chunk_total (str_runes (take n t)) 0 = Some u"
        "unat u = from_digits 58 (map digit58 (take n t))"
      using chunk_valid [OF v(1)] n by auto
    let ?a = "a * bigRadix ! n + unat u"
    have "decode_loop t a = decode_loop (drop n t) ?a"
      using False u by (subst decode_loop.simps) (simp add: n_def [symmetric] Let_def)
    also have "\<dots> = Some (?a * 58 ^ length (drop n t) + from_digits 58 (map digit58 (drop n t)))"
      using "1.IH" [OF False n_def u(1) v(2)] .
    also have "?a * 58 ^ length (drop n t) + from_digits 58 (map digit58 (drop n t)) =
        a * 58 ^ (n + length (drop n t)) + from_digits 58 (map digit58 (take n t @ drop n t))"
      by (simp only: bigRadix_nth [OF n(1,2)] u(2) map_append from_digits_append length_map)
         (simp add: algebra_simps power_add)
    also have "n + length (drop n t) = length t" using n by simp
    also have "take n t @ drop n t = t" by simp
    finally show ?thesis .
  qed
qed

lemma decode_loop_invalid: "\<not> valid58 t \<Longrightarrow> decode_loop t a = None"
proof (induction t a rule: decode_loop.induct)
  case (1 t a)
  then have False: "t \<noteq> []" by auto
  define n where "n = (if 10 < length t then 10 else length t)"
  show ?case
  proof (cases "valid58 (take n t)")
    case False
    then have "chunk_total (str_runes (take n t)) 0 = None"
      unfolding valid58_iff by (blast intro: chunk_invalid)
    with \<open>t \<noteq> []\<close> show ?thesis
      by (subst decode_loop.simps) (simp add: n_def [symmetric] Let_def)
  next
    case True
    have "length (take n t) \<le> 10" by (simp add: n_def)
    then obtain u where u: "chunk_total (str_runes (take n t)) 0 = Some u"
      using chunk_valid [OF True] by blast
    have "\<not> valid58 (drop n t)"
      using True \<open>\<not> valid58 t\<close> valid58_simps(3) [of "take n t" "drop n t"] by simp
    from "1.IH" [OF False n_def u this] show ?thesis
      using \<open>t \<noteq> []\<close> u by (subst decode_loop.simps) (simp add: n_def [symmetric] Let_def)
  qed
qed

lemma leading_takeWhile: "leading a xs = length (takeWhile (\<lambda>x. x = a) xs)"
  by (induction xs) simp_all

lemma copy_leading:
  "copy_at k (k + length xs) (replicate (k + length xs) a) xs = replicate k a @ xs"
  by (simp add: copy_at_def go_copy_def min_def)

lemma b58_decode_invalid: "\<not> valid58 s \<Longrightarrow> b58_decode s = []"
  by (simp add: b58_decode_def decode_loop_invalid)

lemma b58_decode_valid:
  "valid58 s \<Longrightarrow> b58_decode s =
   replicate (leading alphabetIdx0 s) 0 @ big_bytes (from_digits 58 (map digit58 s))"
  by (simp add: b58_decode_def decode_loop_valid copy_leading Let_def)

subsection \<open>Encode computes the positional digits\<close>

fun low_digits :: "nat \<Rightarrow> nat \<Rightarrow> nat list" where
  "low_digits 0 n = []"
| "low_digits (Suc k) n = n mod 58 # low_digits k (n div 58)"

lemma emit_n_digits: "emit_n k n = map char58 (low_digits k n)"
  by (induction k arbitrary: n) (simp_all add: char58_def)

lemma emit_rest_digits: "emit_rest m = map char58 (rev (to_digits 58 m))"
proof (induction m rule: emit_rest.induct)
  case (1 m)
  then show ?case
    by (cases "m = 0") (simp_all add: emit_rest.simps [of m] emit_rest.simps [of 0] to_digits_step char58_def)
qed

lemma low_digits_mod: "low_digits k (n mod 58 ^ k) = low_digits k n"
proof (induction k arbitrary: n)
  case (Suc k)
  have "n mod 58 ^ Suc k = 58 * (n div 58 mod 58 ^ k) + n mod 58"
    using mod_mult2_eq [of n 58 "58 ^ k"] by simp
  with Suc show ?case by simp
qed simp

lemma to_digits_low:
  "n div 58 ^ k \<noteq> 0 \<Longrightarrow> rev (to_digits 58 n) = low_digits k n @ rev (to_digits 58 (n div 58 ^ k))"
proof (induction k arbitrary: n)
  case (Suc k)
  then have "n div 58 div 58 ^ k \<noteq> 0" by (simp add: div_mult2_eq [symmetric])
  moreover from this have "0 < n" by (cases n) simp_all
  ultimately show ?case using Suc.IH [of "n div 58"]
    by (simp add: to_digits_step [of 58 n] div_mult2_eq [symmetric])
qed simp

lemma bigRadix10_power: "bigRadix10 = 58 ^ 10"
  by (simp add: bigRadix10_def)

lemma encode_loop_digits: "encode_loop x ans = ans @ map char58 (rev (to_digits 58 x))"
proof (induction x ans rule: encode_loop.induct)
  case (1 x ans)
  let ?md = "x mod bigRadix10" and ?x = "x div bigRadix10"
  consider "x = 0" | "0 < x" "?x = 0" | "0 < x" "?x \<noteq> 0" by blast
  then show ?case
  proof cases
    case 1
    then show ?thesis by (simp add: encode_loop.simps)
  next
    case 2
    then have "?md = x" by (simp add: div_eq_0_iff bigRadix10_def)
    with 2 have "encode_loop x ans = encode_loop 0 (ans @ emit_rest x)"
      by (subst encode_loop.simps) (simp add: Let_def)
    then show ?thesis by (simp add: encode_loop.simps [of 0] emit_rest_digits)
  next
    case 3
    then have "encode_loop x ans = encode_loop ?x (ans @ emit_n 10 ?md)"
      by (subst encode_loop.simps) (simp add: Let_def)
    also have "\<dots> = (ans @ emit_n 10 ?md) @ map char58 (rev (to_digits 58 ?x))"
      using 3 by (intro "1.IH"(2) [OF _ refl refl]) simp_all
    also have "\<dots> = ans @ map char58 (low_digits 10 x @ rev (to_digits 58 ?x))"
      using low_digits_mod [of 10 x] by (simp add: emit_n_digits bigRadix10_power)
    also have "low_digits 10 x @ rev (to_digits 58 ?x) = rev (to_digits 58 x)"
      using to_digits_low [of x 10] 3 by (simp add: bigRadix10_power)
    finally show ?thesis .
  qed
qed


lemma swap_ends_nth:
  assumes "i < length xs div 2" and "m < length xs"
  shows "swap_ends xs i ! m =
    (if m = i then xs ! (length xs - 1 - i) else if m = length xs - 1 - i then xs ! i else xs ! m)"
proof -
  have "i < length xs" "length xs - 1 - i < length xs" "i \<noteq> length xs - 1 - i"
    using assms by auto
  then show ?thesis using assms by (auto simp: swap_ends_def Let_def nth_list_update)
qed

lemma length_swap_ends [simp]: "length (swap_ends xs i) = length xs"
  by (simp add: swap_ends_def Let_def)

lemma length_foldl_swap [simp]: "length (foldl swap_ends xs is) = length xs"
  by (induction "is" arbitrary: xs) simp_all

lemma swap_prefix:
  "k \<le> length xs div 2 \<Longrightarrow> m < length xs \<Longrightarrow>
   foldl swap_ends xs [0..<k] ! m =
     (if m < k \<or> length xs - 1 - k < m then xs ! (length xs - 1 - m) else xs ! m)"
proof (induction k arbitrary: m)
  case 0
  then show ?case by auto
next
  case (Suc k)
  let ?ys = "foldl swap_ends xs [0..<k]" and ?n = "length xs"
  have IH: "?ys ! m = (if m < k \<or> ?n - 1 - k < m then xs ! (?n - 1 - m) else xs ! m)"
    if "m < ?n" for m using Suc.IH [of m] Suc.prems that by simp
  have k: "k < ?n div 2" using Suc.prems by simp
  then have "k < ?n - 1 - k" "?n - 1 - k < ?n" by auto
  have "foldl swap_ends xs [0..<Suc k] ! m =
    (if m = k then ?ys ! (?n - 1 - k) else if m = ?n - 1 - k then ?ys ! k else ?ys ! m)"
    using swap_ends_nth [of k ?ys m] k Suc.prems by simp
  also have "\<dots> =
    (if m < Suc k \<or> ?n - 1 - Suc k < m then xs ! (?n - 1 - m) else xs ! m)"
    using k Suc.prems \<open>k < ?n - 1 - k\<close> IH [of k] IH [of m] IH [of "?n - 1 - k"]
    by (cases "m = k"; cases "m = ?n - 1 - k") auto
  finally show ?case .
qed

lemma reverse_in_place_rev [simp]: "reverse_in_place xs = rev xs"
proof (rule nth_equalityI)
  fix i
  assume "i < length (reverse_in_place xs)"
  then have i: "i < length xs" by (simp add: reverse_in_place_def)
  show "reverse_in_place xs ! i = rev xs ! i"
  proof (cases "i = length xs - 1 - i")
    case True
    with i show ?thesis
      by (simp add: reverse_in_place_def swap_prefix rev_nth)
  next
    case False
    then have "i < length xs div 2 \<or> length xs - 1 - length xs div 2 < i"
      using i by linarith
    with i show ?thesis
      by (simp add: reverse_in_place_def swap_prefix rev_nth)
  qed
qed (simp add: reverse_in_place_def)

lemma b58_encode_spec:
  "b58_encode b =
   replicate (leading 0 b) alphabetIdx0 @ map char58 (to_digits 58 (big_set_bytes b))"
  by (simp add: b58_encode_def encode_loop_digits rev_map)

subsection \<open>Properties\<close>

lemma to_digits58_less: "d \<in> set (to_digits 58 n) \<Longrightarrow> d < 58"
  by (rule to_digits_less)

lemma encode_valid: "valid58 (b58_encode b)"
  by (auto simp: b58_encode_spec valid58_iff dest: to_digits58_less)

lemma leading_append:
  "ys = [] \<or> hd ys \<noteq> a \<Longrightarrow> leading a (replicate k a @ ys) = k"
  by (simp add: leading_takeWhile takeWhile_replicate_append)

lemma map_digit_char: "\<forall>d \<in> set ds. d < 58 \<Longrightarrow> map digit58 (map char58 ds) = ds"
  by (induction ds) simp_all

lemma map_char_digit: "valid58 s \<Longrightarrow> map char58 (map digit58 s) = s"
  by (induction s) simp_all

lemma decode_encode: "b58_decode (b58_encode b) = b"
proof -
  let ?z = "leading 0 b" and ?ds = "to_digits 58 (big_set_bytes b)"
  have hd: "?ds = [] \<or> hd ?ds \<noteq> 0" by (rule to_digits_hd) simp
  have "map char58 ?ds = [] \<or> hd (map char58 ?ds) \<noteq> alphabetIdx0"
    using hd char58_eq_idx0 [OF to_digits58_less, of "hd ?ds" "big_set_bytes b"]
    by (cases "?ds = []") (auto simp: hd_map)
  then have lead: "leading alphabetIdx0 (b58_encode b) = ?z"
    unfolding b58_encode_spec by (rule leading_append)
  have "map digit58 (b58_encode b) = replicate ?z 0 @ ?ds"
    using map_digit_char [of ?ds] to_digits58_less by (simp add: b58_encode_spec)
  then have "from_digits 58 (map digit58 (b58_encode b)) = big_set_bytes b"
    by (simp add: from_digits_leading_0)
  with lead have "b58_decode (b58_encode b) = replicate ?z 0 @ big_bytes (big_set_bytes b)"
    by (simp add: b58_decode_valid encode_valid)
  also have "\<dots> = b"
    using takeWhile_dropWhile_replicate [of b 0]
    by (simp add: big_bytes_set_bytes leading_takeWhile)
  finally show ?thesis .
qed

lemma encode_decode: "valid58 s \<Longrightarrow> b58_encode (b58_decode s) = s"
proof -
  assume s: "valid58 s"
  let ?z = "leading alphabetIdx0 s" and ?ds = "map digit58 s"
  let ?n = "from_digits 58 ?ds"
  have lead: "leading 0 (b58_decode s) = ?z"
    unfolding b58_decode_valid [OF s] by (rule leading_append) (rule big_bytes_hd)
  have "big_set_bytes (b58_decode s) = ?n"
    unfolding b58_decode_valid [OF s] big_set_bytes_def
    by (simp add: from_digits_leading_0 unat_big_bytes)
  with lead have "b58_encode (b58_decode s) = replicate ?z alphabetIdx0 @ map char58 (to_digits 58 ?n)"
    by (simp add: b58_encode_spec)
  also have "to_digits 58 ?n = dropWhile (\<lambda>d. d = 0) ?ds"
    using s by (intro to_from_digits) (auto simp: valid58_iff)
  also have "\<dots> = map digit58 (dropWhile (\<lambda>c. c = alphabetIdx0) s)"
    using s by (induction s) (simp_all add: digit58_0_iff)
  also have "map char58 \<dots> = dropWhile (\<lambda>c. c = alphabetIdx0) s"
    using s by (intro map_char_digit) (auto simp: valid58_iff dest: set_dropWhileD)
  also have "replicate ?z alphabetIdx0 @ \<dots> = s"
    using takeWhile_dropWhile_replicate [of s alphabetIdx0] by (simp add: leading_takeWhile)
  finally show ?thesis .
qed

text \<open>\<open>Encode\<close> is a bijection between byte strings and the strings over the alphabet.\<close>

interpretation b58: strict_codec b58_encode
    "\<lambda>s. if valid58 s then Some (b58_decode s) else None" "\<lambda>_. True"
  by unfold_locales
    (auto simp: encode_valid decode_encode encode_decode split: if_splits)

text \<open>C38: \<open>Decode\<close> undoes \<open>Encode\<close> on every byte string, leading zero bytes included.\<close>

theorem base58_decode_encode: "b58_decode (b58_encode b) = b"
  by (rule decode_encode)

text \<open>
  C18: \<open>Decode\<close>, computed ten digits at a time in \<open>uint64\<close>, is the digit-by-digit base-58
  value in big-endian bytes after one zero byte per leading \<open>1\<close>; and it is empty when any
  character, ASCII or not, is outside the alphabet.
\<close>

theorem base58_decode_reference:
  "b58_decode s =
   (if list_all (\<lambda>c. c \<in> set alphabet) s
    then replicate (length (takeWhile (\<lambda>c. c = alphabetIdx0) s)) 0
         @ big_bytes (from_digits 58 (map digit58 s))
    else [])"
  using b58_decode_valid [of s] b58_decode_invalid [of s]
  by (simp add: valid58_def leading_takeWhile)

text \<open>
  C19: \<open>Encode\<close>, computed by dividing by \<open>58^10\<close> and emitting ten digits at a time, is one
  \<open>1\<close> per leading zero byte followed by the base-58 digits of the number, none of them lost or
  padded.
\<close>

theorem base58_encode_reference:
  "b58_encode b =
   replicate (length (takeWhile (\<lambda>x. x = 0) b)) alphabetIdx0
   @ map (\<lambda>d. alphabet ! d) (to_digits 58 (big_set_bytes b))"
  by (simp add: b58_encode_spec leading_takeWhile char58_def [abs_def])

text \<open>A string over the alphabet is the encoding of the bytes it decodes to.\<close>

theorem base58_encode_decode: "list_all (\<lambda>c. c \<in> set alphabet) s \<Longrightarrow> b58_encode (b58_decode s) = s"
  by (rule encode_decode) (simp add: valid58_def)

theorem base58_encode_decode_witness: "b58_encode (b58_decode ''11Z5'') = ''11Z5''"
  by (rule base58_encode_decode) (simp add: alphabet_def)

text \<open>The table of \<open>alphabet.go\<close> is the one its generator \<open>genalphabet.go\<close> writes.\<close>

theorem base58_table_generated: "b58 = gen_table"
proof -
  have grid: "concat (map (\<lambda>i. map (\<lambda>j. f (i * 8 + j)) [0..<8]) [0..<n]) = map f [0..<n * 8]"
    for f :: "nat \<Rightarrow> nat" and n
  proof (induction n)
    case (Suc n)
    have "[0..<Suc n * 8] = [0..<n * 8] @ map (\<lambda>j. n * 8 + j) [0..<8]"
      using upt_add_eq_append [of 0 "n * 8" 8] by (simp add: map_add_upt add.commute)
    with Suc show ?case by (simp add: comp_def)
  qed simp
  let ?f = "\<lambda>b. let idx = index_byte alphabet b in if idx = -1 then 255 else nat idx"
  have "gen_table = map ?f [0..<256]"
    using grid [of ?f 32] by (simp add: gen_table_def gen_entry_def [abs_def])
  also have "\<dots> = map (\<lambda>n. b58 ! n) [0..<256]"
    by (rule map_cong) (simp_all only: b58_entry set_upt atLeastLessThan_iff)
  also have "\<dots> = b58"
    using map_nth [of b58] by simp
  finally show ?thesis by simp
qed

end
