(* ===== verification/Sha256.thy ===== *)
theory Sha256
  imports GoLib
begin

text \<open>
  \<open>crypto/sha256\<close>, which the program calls as \<open>sha256.Sum256\<close>: the padding, the message
  schedule and the compression function of FIPS 180-4 over 32-bit words. The round constants
  \<open>sha_k\<close> are the first 32 bits of the fractional parts of the cube roots of the first 64
  primes, the initial state \<open>sha_init\<close> those of the square roots of the first eight. What the
  development uses of it is that it is a function and that a digest has 32 bytes.
\<close>

unbundle bit_operations_syntax

definition sha_k :: "u32 list" where
  "sha_k =
   [1116352408, 1899447441, 3049323471, 3921009573, 961987163, 1508970993, 2453635748,
   2870763221, 3624381080, 310598401, 607225278, 1426881987, 1925078388, 2162078206,
   2614888103, 3248222580, 3835390401, 4022224774, 264347078, 604807628, 770255983,
   1249150122, 1555081692, 1996064986, 2554220882, 2821834349, 2952996808, 3210313671,
   3336571891, 3584528711, 113926993, 338241895, 666307205, 773529912, 1294757372, 1396182291,
   1695183700, 1986661051, 2177026350, 2456956037, 2730485921, 2820302411, 3259730800,
   3345764771, 3516065817, 3600352804, 4094571909, 275423344, 430227734, 506948616, 659060556,
   883997877, 958139571, 1322822218, 1537002063, 1747873779, 1955562222, 2024104815,
   2227730452, 2361852424, 2428436474, 2756734187, 3204031479, 3329325298]"

definition sha_init :: "u32 list" where
  "sha_init =
   [1779033703, 3144134277, 1013904242, 2773480762, 1359893119, 2600822924, 528734635,
   1541459225]"

definition rotr32 :: "nat \<Rightarrow> u32 \<Rightarrow> u32" where
  "rotr32 n w = drop_bit n w OR push_bit (32 - n) w"

definition ssig0 :: "u32 \<Rightarrow> u32" where
  "ssig0 x = rotr32 7 x XOR rotr32 18 x XOR drop_bit 3 x"

definition ssig1 :: "u32 \<Rightarrow> u32" where
  "ssig1 x = rotr32 17 x XOR rotr32 19 x XOR drop_bit 10 x"

definition bsig0 :: "u32 \<Rightarrow> u32" where
  "bsig0 x = rotr32 2 x XOR rotr32 13 x XOR rotr32 22 x"

definition bsig1 :: "u32 \<Rightarrow> u32" where
  "bsig1 x = rotr32 6 x XOR rotr32 11 x XOR rotr32 25 x"

text \<open>The schedule grows from the 16 words of the block, one word at a time.\<close>

fun sha_extend :: "nat \<Rightarrow> u32 list \<Rightarrow> u32 list" where
  "sha_extend 0 ws = ws"
| "sha_extend (Suc n) ws =
     (let t = length ws in
      sha_extend n
        (ws @ [ssig1 (ws ! (t - 2)) + ws ! (t - 7) + ssig0 (ws ! (t - 15)) + ws ! (t - 16)]))"

fun sha_round :: "u32 list \<Rightarrow> u32 \<times> u32 \<Rightarrow> u32 list" where
  "sha_round [a, b, c, d, e, f, g, h] (k, w) =
     (let t1 = h + bsig1 e + ((e AND f) XOR (NOT e AND g)) + k + w;
          t2 = bsig0 a + ((a AND b) XOR (a AND c) XOR (b AND c))
      in [t1 + t2, a, b, c, d + t1, e, f, g])"
| "sha_round st _ = st"

definition sha_compress :: "u32 list \<Rightarrow> u32 list \<Rightarrow> u32 list" where
  "sha_compress st block = map2 (+) st (foldl sha_round st (zip sha_k (sha_extend 48 block)))"

fun words_of :: "byte list \<Rightarrow> u32 list" where
  "words_of (a # b # c # d # bs) = be_get [a, b, c, d] # words_of bs"
| "words_of _ = []"

definition sha_pad :: "byte list \<Rightarrow> byte list" where
  "sha_pad m =
     m @ 128 # replicate ((119 - length m mod 64) mod 64) 0
       @ be_put 8 (of_nat (8 * length m) :: u64)"

function sha_blocks :: "u32 list \<Rightarrow> u32 list \<Rightarrow> u32 list" where
  "sha_blocks st ws =
     (if length ws < 16 then st else sha_blocks (sha_compress st (take 16 ws)) (drop 16 ws))"
  by pat_completeness auto
termination
  by (relation "measure (\<lambda>(st, ws). length ws)") auto

declare sha_blocks.simps [simp del]

definition sha256 :: "byte list \<Rightarrow> byte list" where
  "sha256 m = concat (map (be_put 4) (sha_blocks sha_init (words_of (sha_pad m))))"

lemma length_sha_round [simp]: "length (sha_round st kw) = length st"
  by (induction st kw rule: sha_round.induct) (simp_all add: Let_def)

lemma length_foldl_sha_round [simp]: "length (foldl sha_round st kws) = length st"
  by (induction kws arbitrary: st) simp_all

lemma length_sha_compress [simp]: "length (sha_compress st block) = length st"
  by (simp add: sha_compress_def)

lemma length_sha_blocks [simp]: "length (sha_blocks st ws) = length st"
proof (induction st ws rule: sha_blocks.induct)
  case (1 st ws)
  then show ?case by (subst sha_blocks.simps) simp
qed

lemma length_concat_const: "\<forall>xs \<in> set xss. length xs = n \<Longrightarrow> length (concat xss) = n * length xss"
  by (induction xss) simp_all

lemma length_sha256 [simp]: "length (sha256 m) = 32"
proof -
  have "length (concat (map (be_put 4) ws)) = 4 * length (ws :: u32 list)" for ws
    by (subst length_concat_const [where n = 4]) simp_all
  then show ?thesis by (simp add: sha256_def sha_init_def)
qed

text \<open>The padded message is a whole number of 64-byte blocks, and starts with the message.\<close>

lemma sha_pad_blocks: "64 dvd length (sha_pad m)"
proof -
  let ?r = "length m mod 64"
  have "?r + (119 - ?r) mod 64 = 55 \<or> ?r + (119 - ?r) mod 64 = 119"
  proof (cases "?r \<le> 55")
    case True
    then have "119 - ?r = 64 + (55 - ?r)" by simp
    then have "(119 - ?r) mod 64 = (64 + (55 - ?r)) mod 64" by (rule arg_cong)
    also have "\<dots> = 55 - ?r" by (simp only: mod_add_self1) simp
    finally have "(119 - ?r) mod 64 = 55 - ?r" .
    with True show ?thesis by simp
  next
    case False
    moreover have "?r < 64" by simp
    ultimately have "(119 - ?r) mod 64 = 119 - ?r" by (intro mod_less) linarith
    with \<open>?r < 64\<close> show ?thesis by simp
  qed
  then have "64 dvd ?r + (119 - ?r) mod 64 + 9" by auto
  then have "64 dvd length m div 64 * 64 + (?r + (119 - ?r) mod 64 + 9)"
    by (rule dvd_add [OF dvd_triv_right])
  also have "length m div 64 * 64 + (?r + (119 - ?r) mod 64 + 9) = length (sha_pad m)"
    by (simp add: sha_pad_def)
  finally show ?thesis .
qed

end
