(* ===== verification/Base58Check.thy ===== *)
theory Base58Check
  imports Base58 Sha256
begin

text \<open>
  \<open>server/base58/base58check.go\<close>: the four-byte double SHA-256 checksum, \<open>CheckEncode\<close>,
  \<open>CheckDecode\<close> and \<open>ChkDec\<close> (the variant for XDAG wallet addresses, which returns the whole
  decoded string). An error return is \<open>Inl\<close>; a result is \<open>Inr (bytes, version)\<close>.

  \<open>check_decode_iff\<close> is the contract: the strings \<open>CheckDecode\<close> accepts are exactly the
  outputs of \<open>CheckEncode\<close>, which makes the pair a \<open>strict_codec\<close>.
\<close>

datatype check_error = ErrChecksum | ErrInvalidFormat

definition checksum :: "byte list \<Rightarrow> byte list" where
  "checksum input = (let h = sha256 input; h2 = sha256 h in go_copy (replicate 4 0) (take 4 h2))"

definition CheckEncode :: "byte list \<Rightarrow> byte \<Rightarrow> string" where
  "CheckEncode input version =
     (let b = [version]; b = b @ input; cksum = checksum b; b = b @ cksum in b58_encode b)"

definition CheckDecode :: "string \<Rightarrow> check_error + byte list \<times> byte" where
  "CheckDecode input =
     (let decoded = b58_decode input in
      if length decoded < 5 then Inl ErrInvalidFormat
      else
        let version = decoded ! 0;
            cksum = drop (length decoded - 4) decoded
        in if checksum (take (length decoded - 4) decoded) \<noteq> cksum then Inl ErrChecksum
           else let payload = drop 1 (take (length decoded - 4) decoded) in Inr (payload, version))"

definition ChkDec :: "string \<Rightarrow> check_error + byte list \<times> byte" where
  "ChkDec input =
     (let decoded = b58_decode input in
      if length decoded < 5 then Inl ErrInvalidFormat
      else
        let version = decoded ! 0;
            cksum = drop (length decoded - 4) decoded
        in if checksum (take (length decoded - 4) decoded) \<noteq> cksum then Inl ErrChecksum
           else let payload = decoded in Inr (payload, version))"

subsection \<open>Lemmas\<close>

lemma length_checksum [simp]: "length (checksum b) = 4"
  by (simp add: checksum_def Let_def)

lemma checksum_take: "checksum b = take 4 (sha256 (sha256 b))"
  by (simp add: checksum_def Let_def go_copy_def)

lemma CheckEncode_eq: "CheckEncode p v = b58_encode (v # p @ checksum (v # p))"
  by (simp add: CheckEncode_def Let_def)

lemma decode_CheckEncode: "b58_decode (CheckEncode p v) = v # p @ checksum (v # p)"
  by (simp add: CheckEncode_eq decode_encode)

lemma CheckDecode_CheckEncode: "CheckDecode (CheckEncode p v) = Inr (p, v)"
  by (simp add: CheckDecode_def decode_CheckEncode Let_def)

lemma ChkDec_CheckEncode: "ChkDec (CheckEncode p v) = Inr (v # p @ checksum (v # p), v)"
  by (simp add: ChkDec_def decode_CheckEncode Let_def)

lemma decode_nonempty_valid: "b58_decode s \<noteq> [] \<Longrightarrow> valid58 s"
  using b58_decode_invalid by blast

lemma checked_split:
  assumes "5 \<le> length d" and "checksum (take (length d - 4) d) = drop (length d - 4) d"
  shows "d = (d ! 0) # drop 1 (take (length d - 4) d)
             @ checksum ((d ! 0) # drop 1 (take (length d - 4) d))"
proof -
  let ?b = "take (length d - 4) d"
  have "?b \<noteq> []" using assms(1) by auto
  then have "?b = ?b ! 0 # drop 1 ?b" by (cases ?b) simp_all
  then have b: "(d ! 0) # drop 1 ?b = ?b" using assms(1) by simp
  have "?b @ checksum ?b = d" using assms(2) by simp
  with b show ?thesis by (metis append_Cons)
qed

lemma CheckDecode_sound: "CheckDecode s = Inr (p, v) \<Longrightarrow> s = CheckEncode p v"
proof -
  let ?d = "b58_decode s"
  assume "CheckDecode s = Inr (p, v)"
  then have len: "5 \<le> length ?d" and ck: "checksum (take (length ?d - 4) ?d) = drop (length ?d - 4) ?d"
    and pv: "p = drop 1 (take (length ?d - 4) ?d)" "v = ?d ! 0"
    by (auto simp: CheckDecode_def Let_def split: if_splits)
  have "?d = v # p @ checksum (v # p)"
    using checked_split [OF len ck] by (simp only: pv)
  then have "b58_encode ?d = CheckEncode p v" by (simp add: CheckEncode_eq)
  moreover have "valid58 s" using len by (intro decode_nonempty_valid) auto
  ultimately show ?thesis by (simp add: encode_decode)
qed

lemma ChkDec_CheckDecode:
  "ChkDec s = (case CheckDecode s of
     Inl e \<Rightarrow> Inl e | Inr (p, v) \<Rightarrow> Inr (v # p @ checksum (v # p), v))"
proof (cases "CheckDecode s")
  case (Inl e)
  then show ?thesis by (auto simp: ChkDec_def CheckDecode_def Let_def split: if_splits)
next
  case (Inr pv)
  then obtain p v where "CheckDecode s = Inr (p, v)" by (cases pv) auto
  then have "s = CheckEncode p v" by (rule CheckDecode_sound)
  then show ?thesis by (simp add: ChkDec_CheckEncode CheckDecode_CheckEncode)
qed

lemma ChkDec_sound: "ChkDec s = Inr (b, v) \<Longrightarrow> \<exists>p. b = v # p @ checksum (v # p) \<and> s = CheckEncode p v"
  using CheckDecode_sound [of s] by (auto simp: ChkDec_CheckDecode split: sum.splits)

interpretation check: strict_codec "\<lambda>(p, v). CheckEncode p v"
    "\<lambda>s. case CheckDecode s of Inl _ \<Rightarrow> None | Inr pv \<Rightarrow> Some pv" "\<lambda>_. True"
  by unfold_locales
    (auto simp: CheckDecode_CheckEncode dest: CheckDecode_sound split: sum.splits)

subsection \<open>Properties\<close>

text \<open>
  C20: \<open>CheckDecode\<close> accepts exactly the strings \<open>CheckEncode\<close> produces, and gives back the
  payload and the version byte that were encoded.
\<close>

theorem check_decode_iff: "CheckDecode s = Inr (p, v) \<longleftrightarrow> s = CheckEncode p v"
  using CheckDecode_sound CheckDecode_CheckEncode by blast

text \<open>
  \<open>ChkDec\<close>, the wallet-address check, reports the errors of \<open>CheckDecode\<close> and otherwise
  returns the version byte, the payload and the four checksum bytes together: the first four
  bytes of the double SHA-256 of the rest.
\<close>

theorem chk_dec_refines:
  "ChkDec s = (case CheckDecode s of
     Inl e \<Rightarrow> Inl e
   | Inr (p, v) \<Rightarrow> Inr (v # p @ take 4 (sha256 (sha256 (v # p))), v))"
  by (simp add: ChkDec_CheckDecode checksum_take split: sum.split)

end
