(* ===== verification/SafeMap.thy ===== *)
theory SafeMap
  imports Prelude "HOL-Library.AList"
begin

text \<open>
  \<open>server/utils/safemap.go\<close>: a map from \<open>uint64\<close> kept as two Go maps, an old and a new
  one, so that the one with many deletions can be dropped and its memory reclaimed. A Go map is
  an association list with distinct keys; the order in which Go's \<open>range\<close> visits it is not
  specified, and nothing below depends on the order of the list. The read-write lock makes each
  operation atomic.

  The interface the clients rely on is the locale \<open>key_map\<close> (a lookup after an update) and
  its extension \<open>counted_map\<close> (the entries that \<open>Range\<close> visits); \<open>sm_get\<close>, \<open>sm_set\<close> and
  \<open>sm_del\<close> implement it on every state that satisfies \<open>sm_inv\<close>.
\<close>

subsection \<open>Interface\<close>

datatype 'v map_op = Put u64 'v | Remove u64

fun abs_op :: "(u64 \<rightharpoonup> 'v) \<Rightarrow> 'v map_op \<Rightarrow> (u64 \<rightharpoonup> 'v)" where
  "abs_op m (Put k v) = m(k \<mapsto> v)"
| "abs_op m (Remove k) = m(k := None)"

locale key_map =
  fixes empty :: 'm and get :: "'m \<Rightarrow> u64 \<Rightarrow> 'v option"
    and put :: "'m \<Rightarrow> u64 \<Rightarrow> 'v \<Rightarrow> 'm" and del :: "'m \<Rightarrow> u64 \<Rightarrow> 'm" and inv :: "'m \<Rightarrow> bool"
  assumes inv_empty: "inv empty" and get_empty: "get empty = Map.empty"
    and inv_put: "inv m \<Longrightarrow> inv (put m k v)" and get_put: "inv m \<Longrightarrow> get (put m k v) = (get m)(k \<mapsto> v)"
    and inv_del: "inv m \<Longrightarrow> inv (del m k)" and get_del: "inv m \<Longrightarrow> get (del m k) = (get m)(k := None)"
begin

lemma run_ops:
  "inv m \<Longrightarrow>
   inv (foldl (\<lambda>m x. case x of Put k v \<Rightarrow> put m k v | Remove k \<Rightarrow> del m k) m xs) \<and>
   get (foldl (\<lambda>m x. case x of Put k v \<Rightarrow> put m k v | Remove k \<Rightarrow> del m k) m xs)
     = foldl abs_op (get m) xs"
proof (induction xs arbitrary: m)
  case (Cons x xs)
  then show ?case
    by (cases x) (simp_all add: inv_put inv_del get_put get_del del: fun_upd_apply)
qed simp

end

locale counted_map = key_map +
  fixes entries :: "'a \<Rightarrow> (u64 \<times> 'b) list"
  assumes entries_get: "inv m \<Longrightarrow> map_of (entries m) = get m"
    and entries_distinct: "inv m \<Longrightarrow> distinct (map fst (entries m))"
begin

lemma length_entries: "inv m \<Longrightarrow> length (entries m) = card (dom (get m))"
proof -
  assume m: "inv m"
  have "dom (get m) = set (map fst (entries m))"
    using m by (simp add: entries_get [symmetric] dom_map_of_conv_image_fst)
  with m show ?thesis by (simp only: distinct_card entries_distinct) simp
qed

lemma finite_get: "inv m \<Longrightarrow> finite (dom (get m))"
  by (metis entries_get finite_dom_map_of)

lemma sum_entries:
  fixes f :: "u64 \<Rightarrow> 'b \<Rightarrow> 'c::comm_monoid_add"
  assumes "inv m"
  shows "sum_list (map (\<lambda>(k, v). f k v) (entries m)) = (\<Sum>k \<in> dom (get m). f k (the (get m k)))"
proof -
  have "distinct (map fst es) \<Longrightarrow> sum_list (map (\<lambda>(k, v). f k v) es)
      = (\<Sum>k \<in> fst ` set es. f k (the (map_of es k)))" for es
  proof (induction es)
    case (Cons e es)
    obtain k v where e: "e = (k, v)" by (cases e)
    with Cons.prems have k: "k \<notin> fst ` set es" by simp
    then have "(\<Sum>j \<in> fst ` set es. f j (the (map_of (e # es) j)))
        = (\<Sum>j \<in> fst ` set es. f j (the (map_of es j)))"
      unfolding e by (intro sum.cong) auto
    with Cons k e show ?case by simp
  qed simp
  from this [of "entries m"] assms show ?thesis
    by (simp add: entries_distinct entries_get dom_map_of_conv_image_fst flip: entries_get)
qed

lemma sum_put_fresh:
  fixes f :: "u64 \<Rightarrow> 'b \<Rightarrow> 'c::comm_monoid_add"
  assumes "inv m" and "get m k = None"
  shows "sum_list (map (\<lambda>(k, v). f k v) (entries (put m k v)))
       = f k v + sum_list (map (\<lambda>(k, v). f k v) (entries m))"
proof -
  have "k \<notin> dom (get m)" using assms by auto
  moreover have "(\<Sum>j \<in> dom (get m). f j (the (((get m)(k \<mapsto> v)) j)))
      = (\<Sum>j \<in> dom (get m). f j (the (get m j)))"
    using calculation by (intro sum.cong) auto
  ultimately show ?thesis
    using assms by (simp add: sum_entries inv_put get_put finite_get)
qed

lemma sum_del:
  fixes f :: "u64 \<Rightarrow> 'b \<Rightarrow> 'c::comm_monoid_add"
  assumes "inv m" and "get m k = Some v"
  shows "sum_list (map (\<lambda>(k, v). f k v) (entries m))
       = f k v + sum_list (map (\<lambda>(k, v). f k v) (entries (del m k)))"
proof -
  have "(\<Sum>j \<in> dom (get m) - {k}. f j (the (((get m)(k := None)) j)))
      = (\<Sum>j \<in> dom (get m) - {k}. f j (the (get m j)))"
    by (intro sum.cong) auto
  moreover have "(\<Sum>j \<in> dom (get m). f j (the (get m j)))
      = f k v + (\<Sum>j \<in> dom (get m) - {k}. f j (the (get m j)))"
    using assms by (subst sum.remove [of _ k]) (auto simp: finite_get)
  ultimately show ?thesis
    using assms by (simp add: sum_entries inv_del get_del)
qed

end

subsection \<open>The two-map implementation\<close>

definition copyThreshold :: nat where "copyThreshold = 1000"
definition maxDeletion :: nat where "maxDeletion = 10000"

record 'v safemap =
  deletionOld :: nat
  deletionNew :: nat
  dirtyOld :: "(u64 \<times> 'v) list"
  dirtyNew :: "(u64 \<times> 'v) list"

definition NewSafeMap :: "'v safemap" where
  "NewSafeMap = \<lparr>deletionOld = 0, deletionNew = 0, dirtyOld = [], dirtyNew = []\<rparr>"

text \<open>\<open>for k, v := range src { dst[k] = v }\<close>\<close>

definition copy_entries :: "(u64 \<times> 'v) list \<Rightarrow> (u64 \<times> 'v) list \<Rightarrow> (u64 \<times> 'v) list" where
  "copy_entries src dst = foldl (\<lambda>m (k, v). AList.update k v m) dst src"

definition del_key :: "'v safemap \<Rightarrow> u64 \<Rightarrow> 'v safemap" where
  "del_key m key =
     (if map_of (dirtyOld m) key \<noteq> None then
        m\<lparr>dirtyOld := AList.delete key (dirtyOld m), deletionOld := deletionOld m + 1\<rparr>
      else if map_of (dirtyNew m) key \<noteq> None then
        m\<lparr>dirtyNew := AList.delete key (dirtyNew m), deletionNew := deletionNew m + 1\<rparr>
      else m)"

definition fold_old :: "'v safemap \<Rightarrow> 'v safemap" where
  "fold_old m =
     (if maxDeletion \<le> deletionOld m \<and> length (dirtyOld m) < copyThreshold then
        m\<lparr>dirtyOld := copy_entries (dirtyOld m) (dirtyNew m), deletionOld := deletionNew m,
          dirtyNew := [], deletionNew := 0\<rparr>
      else m)"

definition fold_new :: "'v safemap \<Rightarrow> 'v safemap" where
  "fold_new m =
     (if maxDeletion \<le> deletionNew m \<and> length (dirtyNew m) < copyThreshold then
        m\<lparr>dirtyOld := copy_entries (dirtyNew m) (dirtyOld m), dirtyNew := [], deletionNew := 0\<rparr>
      else m)"

definition sm_del :: "'v safemap \<Rightarrow> u64 \<Rightarrow> 'v safemap" where
  "sm_del m key = fold_new (fold_old (del_key m key))"

definition sm_get :: "'v safemap \<Rightarrow> u64 \<Rightarrow> 'v option" where
  "sm_get m key =
     (case map_of (dirtyOld m) key of Some val \<Rightarrow> Some val | None \<Rightarrow> map_of (dirtyNew m) key)"

definition sm_set :: "'v safemap \<Rightarrow> u64 \<Rightarrow> 'v \<Rightarrow> 'v safemap" where
  "sm_set m key value =
     (if deletionOld m \<le> maxDeletion then
        let m = (if map_of (dirtyNew m) key \<noteq> None
                 then m\<lparr>dirtyNew := AList.delete key (dirtyNew m), deletionNew := deletionNew m + 1\<rparr>
                 else m)
        in m\<lparr>dirtyOld := AList.update key value (dirtyOld m)\<rparr>
      else
        let m = (if map_of (dirtyOld m) key \<noteq> None
                 then m\<lparr>dirtyOld := AList.delete key (dirtyOld m), deletionOld := deletionOld m + 1\<rparr>
                 else m)
        in m\<lparr>dirtyNew := AList.update key value (dirtyNew m)\<rparr>)"

definition sm_size :: "'v safemap \<Rightarrow> nat" where
  "sm_size m = length (dirtyOld m) + length (dirtyNew m)"

text \<open>
  \<open>Range\<close>: the callback \<open>f\<close> threads a state and says whether to go on; it sees the old map
  first, and once it has said stop it sees nothing more.
\<close>

fun range_list :: "(u64 \<Rightarrow> 'v \<Rightarrow> 's \<Rightarrow> 's \<times> bool) \<Rightarrow> (u64 \<times> 'v) list \<Rightarrow> 's \<Rightarrow> 's \<times> bool" where
  "range_list f [] s = (s, True)"
| "range_list f ((k, v) # kvs) s =
     (case f k v s of (s', True) \<Rightarrow> range_list f kvs s' | (s', False) \<Rightarrow> (s', False))"

definition sm_range :: "(u64 \<Rightarrow> 'v \<Rightarrow> 's \<Rightarrow> 's \<times> bool) \<Rightarrow> 'v safemap \<Rightarrow> 's \<Rightarrow> 's" where
  "sm_range f m s =
     (case range_list f (dirtyOld m) s of
        (s', False) \<Rightarrow> s'
      | (s', True) \<Rightarrow> fst (range_list f (dirtyNew m) s'))"

subsection \<open>Invariant and refinement\<close>

text \<open>No key is in both maps.\<close>

definition sm_inv :: "'v safemap \<Rightarrow> bool" where
  "sm_inv m \<longleftrightarrow>
     distinct (map fst (dirtyOld m)) \<and> distinct (map fst (dirtyNew m)) \<and>
     set (map fst (dirtyOld m)) \<inter> set (map fst (dirtyNew m)) = {}"

definition sm_entries :: "'v safemap \<Rightarrow> (u64 \<times> 'v) list" where
  "sm_entries m = dirtyOld m @ dirtyNew m"

lemma keys_update: "set (map fst (AList.update k v al)) = insert k (set (map fst al))"
  by (simp add: dom_update)

lemma keys_delete: "set (map fst (AList.delete k al)) = set (map fst al) - {k}"
  by (simp add: delete_keys)

lemma map_of_update [simp]: "map_of (AList.update k v al) = (map_of al)(k \<mapsto> v)"
  by (rule update_conv')

lemma map_of_delete [simp]: "map_of (AList.delete k al) = (map_of al)(k := None)"
  by (rule delete_conv')

lemma copy_entries_distinct:
  "distinct (map fst dst) \<Longrightarrow> distinct (map fst (copy_entries src dst))"
  by (induction src arbitrary: dst) (auto simp: copy_entries_def distinct_update)

lemma copy_entries_map:
  "distinct (map fst src) \<Longrightarrow> map_of (copy_entries src dst) = map_of dst ++ map_of src"
proof (induction src arbitrary: dst)
  case (Cons kv src)
  obtain k v where kv: "kv = (k, v)" by (cases kv)
  then have "copy_entries (kv # src) dst = copy_entries src (AList.update k v dst)"
    by (simp add: copy_entries_def)
  moreover have "k \<notin> dom (map_of src)" using Cons.prems kv by (simp add: dom_map_of_conv_image_fst)
  ultimately show ?case
    using Cons kv by (auto simp: fun_eq_iff map_add_def split: option.splits)
qed (simp add: copy_entries_def)

lemma sm_get_add: "sm_get m = map_of (dirtyNew m) ++ map_of (dirtyOld m)"
  by (auto simp: fun_eq_iff sm_get_def map_add_def split: option.splits)

lemmas alist_simps = keys_update keys_delete distinct_update distinct_delete dom_map_of_conv_image_fst

lemma sm_inv_dom:
  "sm_inv m \<longleftrightarrow> distinct (map fst (dirtyOld m)) \<and> distinct (map fst (dirtyNew m)) \<and>
     dom (map_of (dirtyOld m)) \<inter> dom (map_of (dirtyNew m)) = {}"
  by (simp add: sm_inv_def dom_map_of_conv_image_fst)

lemma del_key_inv: "sm_inv m \<Longrightarrow> sm_inv (del_key m k)"
  by (auto simp: sm_inv_dom del_key_def distinct_delete)

lemma del_key_get: "sm_inv m \<Longrightarrow> sm_get (del_key m k) = (sm_get m)(k := None)"
  by (auto simp: sm_inv_dom del_key_def sm_get_add fun_eq_iff map_add_def disjoint_iff
      simp del: map_of_eq_Some_iff split: option.splits)

lemma fold_old_inv: "sm_inv m \<Longrightarrow> sm_inv (fold_old m)"
  by (auto simp: sm_inv_dom fold_old_def copy_entries_distinct)

lemma fold_old_get: "sm_inv m \<Longrightarrow> sm_get (fold_old m) = sm_get m"
  by (simp add: fold_old_def sm_get_add copy_entries_map sm_inv_def)

lemma fold_new_inv: "sm_inv m \<Longrightarrow> sm_inv (fold_new m)"
  by (auto simp: sm_inv_dom fold_new_def copy_entries_distinct)

lemma fold_new_get: "sm_inv m \<Longrightarrow> sm_get (fold_new m) = sm_get m"
  by (simp add: fold_new_def sm_get_add copy_entries_map sm_inv_dom map_add_comm)

lemma sm_set_inv: "sm_inv m \<Longrightarrow> sm_inv (sm_set m k v)"
  by (auto simp: sm_inv_dom sm_set_def Let_def distinct_delete distinct_update)

lemma sm_set_get: "sm_inv m \<Longrightarrow> sm_get (sm_set m k v) = (sm_get m)(k \<mapsto> v)"
  by (auto simp: sm_inv_dom sm_set_def Let_def sm_get_add fun_eq_iff map_add_def split: option.splits)

lemma sm_entries_map: "sm_inv m \<Longrightarrow> map_of (sm_entries m) = sm_get m"
  by (simp add: sm_entries_def sm_get_add map_of_append map_add_comm sm_inv_dom)

lemma sm_entries_distinct: "sm_inv m \<Longrightarrow> distinct (map fst (sm_entries m))"
  by (simp add: sm_entries_def sm_inv_def)

interpretation sm: counted_map NewSafeMap sm_get sm_set sm_del sm_inv sm_entries
  by unfold_locales
    (simp_all add: sm_set_inv sm_set_get sm_del_def del_key_inv del_key_get fold_old_inv
       fold_old_get fold_new_inv fold_new_get sm_entries_map sm_entries_distinct,
     simp_all add: NewSafeMap_def sm_inv_def sm_get_def fun_eq_iff)

lemma sm_size_entries: "sm_size m = length (sm_entries m)"
  by (simp add: sm_size_def sm_entries_def)

lemma range_list_append:
  "range_list f (xs @ ys) s =
   (case range_list f xs s of (s', True) \<Rightarrow> range_list f ys s' | (s', False) \<Rightarrow> (s', False))"
  by (induction f xs s rule: range_list.induct) (auto split: prod.splits bool.splits)

lemma sm_range_entries: "sm_range f m s = fst (range_list f (sm_entries m) s)"
  by (simp add: sm_range_def sm_entries_def range_list_append split: prod.splits bool.splits)


text \<open>A run of the map: any sequence of \<open>Set\<close> and \<open>Del\<close> on a new map.\<close>

fun sm_apply :: "'v safemap \<Rightarrow> 'v map_op \<Rightarrow> 'v safemap" where
  "sm_apply m (Put k v) = sm_set m k v"
| "sm_apply m (Remove k) = sm_del m k"

definition sm_run :: "'v map_op list \<Rightarrow> 'v safemap" where
  "sm_run xs = foldl sm_apply NewSafeMap xs"

lemma sm_run_spec: "sm_inv (sm_run xs) \<and> sm_get (sm_run xs) = foldl abs_op Map.empty xs"
proof -
  have eq: "sm_apply = (\<lambda>m x. case x of Put k v \<Rightarrow> sm_set m k v | Remove k \<Rightarrow> sm_del m k)"
    by (simp add: fun_eq_iff split: map_op.split)
  then show ?thesis
    unfolding sm_run_def eq using sm.run_ops [OF sm.inv_empty, of xs] by (simp add: sm.get_empty)
qed

lemma range_list_collect:
  "range_list (\<lambda>k v s. (s @ [(k, v)], True)) es s = (s @ es, True)"
  by (induction es arbitrary: s) auto

subsection \<open>Properties\<close>

text \<open>
  C21: However the entries move between the old and the new map, and whenever one of them is
  folded into the other, a \<open>SafeMap\<close> behaves as one map: after any sequence of \<open>Set\<close> and
  \<open>Del\<close>, \<open>Get\<close> returns what the last of them left for the key.
\<close>

theorem safemap_refines_map: "sm_get (foldl sm_apply NewSafeMap xs) = foldl abs_op Map.empty xs"
  using sm_run_spec [of xs] by (simp add: sm_run_def)

text \<open>
  After any sequence of operations \<open>Size\<close> is the number of keys present, and \<open>Range\<close> with
  a callback that never stops visits every binding, each key once.
\<close>

theorem safemap_size_range:
  "let m = foldl sm_apply NewSafeMap xs;
       es = sm_range (\<lambda>k v s. (s @ [(k, v)], True)) m []
   in sm_size m = card (dom (foldl abs_op Map.empty xs))
      \<and> map_of es = foldl abs_op Map.empty xs \<and> distinct (map fst es)"
proof -
  let ?m = "foldl sm_apply NewSafeMap xs"
  have m: "sm_inv ?m" "sm_get ?m = foldl abs_op Map.empty xs"
    using sm_run_spec [of xs] by (simp_all add: sm_run_def)
  have "sm_range (\<lambda>k v s. (s @ [(k, v)], True)) ?m [] = sm_entries ?m"
    by (simp add: sm_range_entries range_list_collect)
  with m show ?thesis
    by (simp add: sm_size_entries sm.length_entries sm.entries_get sm.entries_distinct Let_def)
qed

end
