(* ===== verification/XdagBlock.thy ===== *)
theory XdagBlock
  imports Sha256
begin

text \<open>
  \<open>server/xdag/block.go\<close>: the base64-like text form of a hash (\<open>Hash2address\<close>,
  \<open>Address2hash\<close> and their table \<open>mime2bits\<close>), the 512-byte block (\<open>NewRawBlock\<close>) and the
  block a pool client logs in with (\<open>GenerateFakeBlock\<close>).

  Both conversions shift bits through a 64-bit accumulator that overflows on the way; the
  lemmas say that they nevertheless regroup the 192 bits of the first 24 bytes into 32 digits of
  6 bits, and back. The unsafe casts between strings and bytes are identities here.
\<close>

unbundle bit_operations_syntax

subsection \<open>Tables\<close>

definition HashLength :: nat where "HashLength = 32"
definition AddressLength :: nat where "AddressLength = 32"
definition RawBlockSize :: nat where "RawBlockSize = 512"

definition bits2mime :: string where
  "bits2mime = ''ABCDEFGHIJKLMNOPQRSTUVWXYZabcdefghijklmnopqrstuvwxyz0123456789+/''"

definition mime2bits :: "byte list" where
  "mime2bits =
     foldl (\<lambda>m i. m[of_char (bits2mime ! i) := of_nat i]) (replicate 256 0xFF) [0..<64]"

subsection \<open>Hash2address\<close>

text \<open>
  One iteration per character, \<open>i\<close> of them left; \<open>c\<close> is the accumulator, \<open>d\<close> the number of
  its low bits not yet used, \<open>j\<close> the next byte of \<open>h\<close>. Reading past the end of \<open>h\<close> panics.
\<close>

fun h2a_loop :: "nat \<Rightarrow> byte list \<Rightarrow> u64 \<Rightarrow> nat \<Rightarrow> nat \<Rightarrow> string go" where
  "h2a_loop 0 h c d j = Ret []"
| "h2a_loop (Suc i) h c d j =
     (if d < 6 then
        if j < length h then
          let c = push_bit 8 c OR ucast (h ! j); d = d + 8 - 6 in
          go_bind (h2a_loop i h c d (j + 1))
            (\<lambda>s. Ret (bits2mime ! unat (drop_bit d c AND 0x3F) # s))
        else Panic
      else
        let d = d - 6 in
        go_bind (h2a_loop i h c d j)
          (\<lambda>s. Ret (bits2mime ! unat (drop_bit d c AND 0x3F) # s)))"

definition Hash2address :: "byte list \<Rightarrow> string go" where
  "Hash2address h = h2a_loop AddressLength h 0 0 0"

subsection \<open>Address2hash\<close>

datatype address_error = InvalidAddress | AddressStringError

text \<open>
  The inner loop skips characters that are not digits; \<open>s\<close> is what \<open>k\<close> has not yet passed of
  the address, so the end of \<open>s\<close> is \<open>k == 32\<close>.
\<close>

fun a2h_next :: "string \<Rightarrow> (byte \<times> string) option" where
  "a2h_next [] = None"
| "a2h_next (c # s) =
     (let d = mime2bits ! of_char c in if d AND 0xC0 = 0 then Some (d, s) else a2h_next s)"

fun a2h_loop :: "nat \<Rightarrow> string \<Rightarrow> u64 \<Rightarrow> nat \<Rightarrow> nat \<Rightarrow> byte list \<Rightarrow> address_error + byte list" where
  "a2h_loop 0 s e n j hash = Inr hash"
| "a2h_loop (Suc i) s e n j hash =
     (case a2h_next s of
        None \<Rightarrow> Inl AddressStringError
      | Some (d, s') \<Rightarrow>
          let e = push_bit 6 e OR ucast d; n = n + 6 in
          if 8 \<le> n then
            let n = n - 8 in a2h_loop i s' e n (j + 1) (hash[j := ucast (drop_bit n e)])
          else a2h_loop i s' e n j hash)"

definition Address2hash :: "string \<Rightarrow> address_error + byte list" where
  "Address2hash addr =
     (if length addr \<noteq> 32 then Inl InvalidAddress
      else a2h_loop AddressLength addr 0 0 0 (replicate HashLength 0))"

subsection \<open>Accumulators as numbers\<close>

lemma nat_or_add: "y < 2 ^ k \<Longrightarrow> push_bit k x OR y = 2 ^ k * x + (y :: nat)"
proof -
  assume "y < 2 ^ k"
  then have "take_bit k y = y" by (simp add: take_bit_nat_eq_self_iff)
  then have "push_bit k x AND y = push_bit k x AND take_bit k y" by simp
  also have "\<dots> = 0" by (rule bit_eqI) (auto simp: bit_simps)
  finally have "push_bit k x + y = push_bit k x OR y" by (rule disjunctive_add_eq_or)
  then show ?thesis by (simp add: push_bit_eq_mult mult.commute)
qed

lemma shift_in_unat:
  assumes "unat (b :: byte) < 2 ^ k"
  shows "unat (push_bit k (c :: u64) OR ucast b) = (2 ^ k * unat c + unat b) mod 2 ^ 64"
proof -
  have b: "take_bit 64 (unat b) = unat b"
    unfolding take_bit_nat_eq_self_iff by (rule order.strict_trans [OF unat_byte_less]) simp
  have "unat (push_bit k c OR ucast b) = take_bit 64 (push_bit k (unat c)) OR take_bit 64 (unat b)"
    by (simp add: unsigned_or_eq unsigned_push_bit_eq unsigned_ucast_eq)
  also have "\<dots> = take_bit 64 (push_bit k (unat c) OR unat b)"
    by (simp add: take_bit_or)
  finally show ?thesis
    by (simp only: nat_or_add [OF assms] take_bit_eq_mod)
qed

lemma window_unat:
  assumes "unat (c :: u64) = N mod 2 ^ 64" and "d + k \<le> 64"
  shows "take_bit k (unat (drop_bit d c)) = N div 2 ^ d mod 2 ^ k"
proof -
  have "unat (drop_bit d c) = drop_bit d (take_bit 64 N)"
    using assms(1) by (simp add: unsigned_drop_bit_eq take_bit_eq_mod)
  then have "take_bit k (unat (drop_bit d c)) = take_bit k (drop_bit d (take_bit 64 N))"
    by (rule arg_cong)
  also have "\<dots> = take_bit k (drop_bit d N)"
    using assms(2) by (intro bit_eqI) (auto simp: bit_simps)
  finally show ?thesis by (simp add: take_bit_eq_mod drop_bit_eq_div)
qed

lemma window_6:
  "unat (c :: u64) = N mod 2 ^ 64 \<Longrightarrow> d \<le> 58 \<Longrightarrow>
   unat (drop_bit d c AND 0x3F) = N div 2 ^ d mod 64"
proof -
  assume "unat c = N mod 2 ^ 64" "d \<le> 58"
  then have "take_bit 6 (unat (drop_bit d c)) = N div 2 ^ d mod 2 ^ 6"
    by (intro window_unat) auto
  moreover have "(0x3F :: u64) = mask 6" by (simp add: mask_eq_exp_minus_1)
  then have "drop_bit d c AND 0x3F = take_bit 6 (drop_bit d c)" by (simp only: take_bit_eq_mask)
  ultimately show ?thesis by (simp add: unsigned_take_bit_eq)
qed

lemma window_8:
  "unat (c :: u64) = N mod 2 ^ 64 \<Longrightarrow> d \<le> 56 \<Longrightarrow>
   unat (ucast (drop_bit d c) :: byte) = N div 2 ^ d mod 256"
  using window_unat [of c N d 8] by (simp add: unsigned_ucast_eq)

subsection \<open>Hash2address regroups bits\<close>

lemma digit_window:
  assumes "8 * j = 6 * i + d" "j \<le> 24" "from_digits 256 (take j ds) = N div 256 ^ (24 - j)"
    and "6 \<le> d" "i < 32"
  shows "from_digits 256 (take j ds) div 2 ^ (d - 6) mod 64 = N div 64 ^ (31 - i) mod 64"
proof -
  have e: "8 * (24 - j) + (d - 6) = 6 * (31 - i)" using assms by simp
  have "(256 :: nat) ^ (24 - j) * 2 ^ (d - 6) = 2 ^ (8 * (24 - j) + (d - 6))"
    by (simp add: power_mult power_add)
  also have "\<dots> = 64 ^ (31 - i)" unfolding e by (simp add: power_mult)
  finally show ?thesis
    using assms(3) by (simp add: div_mult2_eq [symmetric])
qed

text \<open>What the loop needs to know: \<open>i\<close> characters written, \<open>j\<close> bytes read.\<close>

definition h2a_inv :: "byte list \<Rightarrow> nat \<Rightarrow> u64 \<Rightarrow> nat \<Rightarrow> nat \<Rightarrow> bool" where
  "h2a_inv h i c d j \<longleftrightarrow>
     8 * j = 6 * i + d \<and> d \<le> 6 \<and> unat c = from_digits 256 (map unat (take j h)) mod 2 ^ 64"

lemma mod_mul_add: "(a * (x mod m) + y) mod m = (a * x + y) mod (m :: nat)"
  by (metis mod_add_left_eq mod_mult_right_eq)

lemma h2a_refill:
  assumes "h2a_inv h i c d j" and "j < length h"
  shows "unat (push_bit 8 c OR ucast (h ! j))
       = from_digits 256 (map unat (take (j + 1) h)) mod 2 ^ 64"
proof -
  have "from_digits 256 (map unat (take (j + 1) h))
      = 256 * from_digits 256 (map unat (take j h)) + unat (h ! j)"
    using assms(2) by (simp add: take_Suc_conv_app_nth)
  moreover have "unat (push_bit 8 c OR ucast (h ! j)) = (2 ^ 8 * unat c + unat (h ! j)) mod 2 ^ 64"
    by (rule shift_in_unat) simp
  moreover have "unat c = from_digits 256 (map unat (take j h)) mod 2 ^ 64"
    using assms(1) by (simp add: h2a_inv_def)
  ultimately show ?thesis by (simp add: mod_mul_add)
qed

lemma h2a_loop_spec:
  assumes "24 \<le> length h" and "i + n = 32" and "h2a_inv h i c d j"
  shows "h2a_loop n h c d j =
    Ret (map (\<lambda>i. bits2mime ! (big_set_bytes (take 24 h) div 64 ^ (31 - i) mod 64)) [i..<32])"
  using assms(2,3)
proof (induction n arbitrary: i c d j)
  case 0
  then show ?case by simp
next
  case (Suc n)
  let ?N = "big_set_bytes (take 24 h)"
  let ?ch = "\<lambda>i. bits2mime ! (?N div 64 ^ (31 - i) mod 64)"
  have i: "i < 32" "i + 1 + n = 32" using Suc.prems by simp_all
  have step: "h2a_loop n h c' d' j' = Ret (map ?ch [i + 1..<32]) \<and>
      bits2mime ! unat (drop_bit d' c' AND 0x3F) = ?ch i"
    if "8 * j' = 6 * (i + 1) + d'" "d' \<le> 6"
      "unat c' = from_digits 256 (map unat (take j' h)) mod 2 ^ 64" for c' d' j'
  proof -
    have inv: "h2a_inv h (i + 1) c' d' j'" using that by (simp add: h2a_inv_def)
    have j': "j' \<le> 24" using that i by simp
    have "from_digits 256 (take j' (map unat (take 24 h))) = ?N div 256 ^ (24 - j')"
      using from_digits_take [of "map unat (take 24 h)" 256 j'] assms(1) j'
      by (simp add: big_set_bytes_def min_def)
    then have *: "from_digits 256 (take j' (map unat h)) = ?N div 256 ^ (24 - j')"
      using j' by (simp add: take_map min_def)
    have "unat (drop_bit d' c' AND 0x3F) = from_digits 256 (take j' (map unat h)) div 2 ^ d' mod 64"
      using window_6 [OF that(3), of d'] that(2) by (simp add: take_map)
    also have "\<dots> = ?N div 64 ^ (31 - i) mod 64"
      using digit_window [of j' i "d' + 6" "map unat h" ?N] that * j' i by simp
    finally show ?thesis using Suc.IH [OF i(2) inv] by simp
  qed
  have list: "map ?ch [i..<32] = ?ch i # map ?ch [i + 1..<32]"
    using i by (simp add: upt_conv_Cons)
  show ?case
  proof (cases "d < 6")
    case True
    have "j < length h" using Suc.prems True i assms(1) by (simp add: h2a_inv_def)
    moreover have "8 * (j + 1) = 6 * (i + 1) + (d + 8 - 6)" "d + 8 - 6 \<le> 6 \<or> d = 5"
      using Suc.prems True by (auto simp: h2a_inv_def)
    moreover have "8 * j = 6 * i + d" using Suc.prems by (simp add: h2a_inv_def)
    then have "d \<noteq> 5" by presburger
    ultimately show ?thesis
      using step [OF _ _ h2a_refill [OF Suc.prems(2)], of "d + 8 - 6"] True
      by (simp add: list Let_def)
  next
    case False
    then have "8 * j = 6 * (i + 1) + (d - 6)" "d - 6 \<le> 6"
      using Suc.prems by (auto simp: h2a_inv_def)
    then show ?thesis
      using step [of j "d - 6" c] Suc.prems False by (simp add: list Let_def h2a_inv_def)
  qed
qed

lemma h2a_loop_short:
  assumes "length h < 24" and "i + n = 32" and "8 * j = 6 * i + d" and "j \<le> length h"
  shows "h2a_loop n h c d j = Panic"
  using assms(2-)
proof (induction n arbitrary: i c d j)
  case 0
  with assms(1) show ?case by simp
next
  case (Suc n)
  show ?case
  proof (cases "d < 6")
    case True
    then show ?thesis
      using Suc.IH [of "i + 1" "j + 1" "d + 2"] Suc.prems by (simp add: Let_def)
  next
    case False
    then show ?thesis
      using Suc.IH [of "i + 1" j "d - 6"] Suc.prems by (simp add: Let_def)
  qed
qed

lemma Hash2address_spec:
  "Hash2address h =
     (if length h < 24 then Panic
      else Ret (map (\<lambda>d. bits2mime ! d) (pad_digits 64 32 (big_set_bytes (take 24 h)))))"
proof (cases "length h < 24")
  case True
  then show ?thesis
    using h2a_loop_short [of h 0 32 0 0 0] by (simp add: Hash2address_def AddressLength_def)
next
  case False
  then have "Hash2address h =
      Ret (map (\<lambda>i. bits2mime ! (big_set_bytes (take 24 h) div 64 ^ (31 - i) mod 64)) [0..<32])"
    using h2a_loop_spec [of h 0 32 0 0 0]
    by (simp add: Hash2address_def AddressLength_def h2a_inv_def)
  with False show ?thesis by (simp add: pad_digits_def comp_def)
qed

subsection \<open>Address2hash regroups them back\<close>

definition digit64 :: "char \<Rightarrow> nat" where
  "digit64 c = unat (mime2bits ! of_char c)"

definition valid64 :: "string \<Rightarrow> bool" where
  "valid64 s = list_all (\<lambda>c. c \<in> set bits2mime) s"

lemma length_bits2mime [simp]: "length bits2mime = 64"
  by (simp add: bits2mime_def)

lemma distinct_bits2mime: "distinct bits2mime"
  by (simp add: bits2mime_def)

lemma foldl_update_length [simp]: "length (foldl (\<lambda>m i. m[f i := g i]) m xs) = length m"
  by (induction xs arbitrary: m) simp_all

lemma foldl_update_other:
  "k \<notin> f ` set xs \<Longrightarrow> foldl (\<lambda>m i. m[f i := g i]) m xs ! k = m ! k"
  by (induction xs arbitrary: m) auto

lemma foldl_update_hit:
  "inj_on f (set xs) \<Longrightarrow> distinct xs \<Longrightarrow> i \<in> set xs \<Longrightarrow> f i < length m \<Longrightarrow>
   foldl (\<lambda>m i. m[f i := g i]) m xs ! f i = g i"
proof (induction xs arbitrary: m)
  case (Cons x xs)
  show ?case
  proof (cases "i = x")
    case True
    have "f x \<notin> f ` set xs" using Cons.prems by (auto simp: inj_on_def)
    with True Cons.prems show ?thesis by (simp add: foldl_update_other)
  next
    case False
    with Cons show ?thesis by simp
  qed
qed simp

lemma inj_mime: "inj_on (\<lambda>i. of_char (bits2mime ! i) :: nat) (set [0..<64])"
  by (auto simp: inj_on_def of_char_eq_iff nth_eq_iff_index_eq distinct_bits2mime)

lemma mime2bits_hit: "i < 64 \<Longrightarrow> mime2bits ! of_char (bits2mime ! i) = of_nat i"
  unfolding mime2bits_def by (rule foldl_update_hit [OF inj_mime]) simp_all

lemma mime2bits_miss: "c \<notin> set bits2mime \<Longrightarrow> mime2bits ! of_char c = 0xFF"
  unfolding mime2bits_def
  by (subst foldl_update_other) (auto simp: of_char_eq_iff in_set_conv_nth)

lemma digit64_nth [simp]: "i < 64 \<Longrightarrow> digit64 (bits2mime ! i) = i"
  by (simp add: digit64_def mime2bits_hit)

lemma digit64_less: "c \<in> set bits2mime \<Longrightarrow> digit64 c < 64"
  by (auto simp: in_set_conv_nth)

lemma nth_digit64: "c \<in> set bits2mime \<Longrightarrow> bits2mime ! digit64 c = c"
  by (auto simp: in_set_conv_nth)

lemma mime_test: "mime2bits ! of_char c AND 0xC0 = 0 \<longleftrightarrow> c \<in> set bits2mime"
proof (cases "c \<in> set bits2mime")
  case True
  let ?b = "mime2bits ! of_char c"
  have "unat ?b < 2 ^ 6" using digit64_less [OF True] by (simp add: digit64_def)
  then have "take_bit 6 (unat ?b) = unat ?b" by (simp add: take_bit_nat_eq_self_iff)
  then have "unat (take_bit 6 ?b) = unat ?b" by (simp add: unsigned_take_bit_eq)
  then have "take_bit 6 ?b = ?b" by (rule unsigned_word_eqI)
  moreover have "take_bit 6 ?b AND (0xC0 :: byte) = 0"
  proof -
    have "take_bit 6 x AND push_bit 6 y = 0" for x y :: byte
      by (rule bit_word_eqI) (auto simp: bit_simps)
    from this [of ?b 3] show ?thesis by simp
  qed
  ultimately show ?thesis using True by simp
next
  case False
  then show ?thesis by (simp add: mime2bits_miss)
qed

lemma a2h_next_Cons:
  "a2h_next (c # s) =
     (if c \<in> set bits2mime then Some (mime2bits ! of_char c, s) else a2h_next s)"
  by (simp add: mime_test Let_def)

declare a2h_next.simps(2) [simp del]
declare a2h_next_Cons [simp]

lemma a2h_next_count:
  "case a2h_next s of
     None \<Rightarrow> length (filter (\<lambda>c. c \<in> set bits2mime) s) = 0
   | Some (d, s') \<Rightarrow> length (filter (\<lambda>c. c \<in> set bits2mime) s)
                   = Suc (length (filter (\<lambda>c. c \<in> set bits2mime) s'))"
  by (induction s) (auto split: option.splits)

lemma a2h_loop_error:
  "length (filter (\<lambda>c. c \<in> set bits2mime) s) < n \<Longrightarrow> a2h_loop n s e k j hash = Inl AddressStringError"
proof (induction n arbitrary: s e k j hash)
  case (Suc n)
  show ?case
  proof (cases "a2h_next s")
    case (Some ds)
    then obtain d s' where "a2h_next s = Some (d, s')" by (cases ds) auto
    with a2h_next_count [of s] Suc show ?thesis by (auto simp: Let_def)
  qed simp
qed simp

definition a2h_bytes :: "nat \<Rightarrow> nat \<Rightarrow> byte list" where
  "a2h_bytes N j = map (\<lambda>i. of_nat (N div 256 ^ (23 - i))) [0..<j] @ replicate (32 - j) 0"

lemma a2h_store:
  assumes "j < 24"
  shows "(a2h_bytes N j)[j := of_nat (N div 256 ^ (23 - j))] = a2h_bytes N (Suc j)"
proof -
  have "replicate (32 - j) (0 :: byte) = 0 # replicate (32 - Suc j) 0"
    using assms by (subst Suc_diff_Suc [symmetric]) auto
  then show ?thesis by (simp add: a2h_bytes_def list_update_append)
qed

lemma byte_window:
  fixes N :: nat
  assumes "6 * (i + 1) = 8 * j + n" "8 \<le> n" "i < 32" "j < 24"
  shows "N div 64 ^ (31 - i) div 2 ^ (n - 8) = N div 256 ^ (23 - j)"
proof -
  have e: "6 * (31 - i) + (n - 8) = 8 * (23 - j)" using assms by simp
  have "(64 :: nat) ^ (31 - i) * 2 ^ (n - 8) = 2 ^ (6 * (31 - i) + (n - 8))"
    by (simp add: power_mult power_add)
  also have "\<dots> = 256 ^ (23 - j)" unfolding e by (simp add: power_mult)
  finally show ?thesis by (simp add: div_mult2_eq [symmetric])
qed

lemma a2h_loop_spec:
  assumes "length a = 32" and "valid64 a" and "s = drop i a" and "i + m = 32"
    and "6 * i = 8 * j + n" and "n < 8"
    and "unat e = from_digits 64 (map digit64 (take i a)) mod 2 ^ 64"
  shows "a2h_loop m s e n j (a2h_bytes (from_digits 64 (map digit64 a)) j)
       = Inr (a2h_bytes (from_digits 64 (map digit64 a)) 24)"
  using assms(3-)
proof (induction m arbitrary: s i e n j)
  case 0
  then have "j = 24" by simp
  then show ?case by simp
next
  case (Suc m)
  let ?N = "from_digits 64 (map digit64 a)"
  have i: "i < 32" using Suc.prems by simp
  let ?c = "a ! i"
  have s: "s = ?c # drop (Suc i) a" using Suc.prems i assms(1) by (simp add: Cons_nth_drop_Suc)
  have valid: "\<forall>c \<in> set a. c \<in> set bits2mime" using assms(2) by (simp add: valid64_def list_all_iff)
  then have c: "?c \<in> set bits2mime" using i assms(1) by simp
  let ?e = "push_bit 6 e OR ucast (mime2bits ! of_char ?c)"
  have "from_digits 64 (map digit64 (take (Suc i) a))
      = 64 * from_digits 64 (map digit64 (take i a)) + digit64 ?c"
    using i assms(1) by (simp add: take_Suc_conv_app_nth)
  moreover have "unat ?e = (2 ^ 6 * unat e + digit64 ?c) mod 2 ^ 64"
    unfolding digit64_def using digit64_less [OF c]
    by (intro shift_in_unat) (simp add: digit64_def)
  ultimately have e: "unat ?e = from_digits 64 (map digit64 (take (Suc i) a)) mod 2 ^ 64"
    using Suc.prems(5) by (simp add: mod_mul_add)
  have W: "from_digits 64 (map digit64 (take (Suc i) a)) = ?N div 64 ^ (31 - i)"
    using from_digits_take [of "map digit64 a" 64 "Suc i"] valid assms(1) i
    by (simp add: take_map digit64_less)
  have rest: "a2h_loop m (drop (Suc i) a) ?e n' j' (a2h_bytes ?N j') = Inr (a2h_bytes ?N 24)"
    if "6 * Suc i = 8 * j' + n'" "n' < 8" for n' j'
    using Suc.IH [OF refl _ that] Suc.prems(2) e by simp
  show ?case
  proof (cases "8 \<le> n + 6")
    case True
    have j: "j < 24" using Suc.prems True i by simp
    have "unat (ucast (drop_bit (n - 2) ?e) :: byte) = ?N div 256 ^ (23 - j) mod 256"
      using window_8 [OF e, of "n - 2"] byte_window [of i j "n + 6" ?N] Suc.prems True i j W by simp
    then have "ucast (drop_bit (n - 2) ?e) = (of_nat (?N div 256 ^ (23 - j)) :: byte)"
      by (intro unsigned_word_eqI [where 'a = nat]) simp
    then show ?thesis
      using rest [of "Suc j" "n - 2"] Suc.prems(3,4) True c a2h_store [OF j, of ?N]
      by (simp add: s Let_def)
  next
    case False
    then show ?thesis using rest [of j "n + 6"] Suc.prems(3,4) c by (simp add: s Let_def)
  qed
qed

lemma a2h_bytes_pad: "a2h_bytes N 24 = map of_nat (pad_digits 256 24 N) @ replicate 8 0"
proof -
  have "(of_nat (k mod 256) :: byte) = of_nat k" for k
    by (intro unsigned_word_eqI [where 'a = nat]) simp
  then show ?thesis by (simp add: a2h_bytes_def pad_digits_def comp_def)
qed

lemma Address2hash_valid:
  assumes "length a = 32" and "valid64 a"
  shows "Address2hash a =
    Inr (map of_nat (pad_digits 256 24 (from_digits 64 (map digit64 a))) @ replicate 8 0)"
proof -
  have "a2h_bytes N 0 = replicate HashLength 0" for N
    by (simp add: a2h_bytes_def HashLength_def)
  then show ?thesis
    using a2h_loop_spec [OF assms, of a 0 32 0 0 0] assms(1)
    by (simp add: Address2hash_def AddressLength_def a2h_bytes_pad)
qed

lemma Address2hash_invalid:
  assumes "length a = 32" and "\<not> valid64 a"
  shows "Address2hash a = Inl AddressStringError"
proof -
  obtain c where "c \<in> set a" "c \<notin> set bits2mime"
    using assms(2) by (auto simp: valid64_def list_all_iff)
  then have "length (filter (\<lambda>c. c \<in> set bits2mime) a) < length a"
    by (rule length_filter_less)
  with assms(1) show ?thesis
    by (simp add: Address2hash_def AddressLength_def a2h_loop_error)
qed

subsection \<open>The two conversions are inverse\<close>

lemma Hash2address_Ret:
  "Hash2address h = Ret s \<Longrightarrow>
   24 \<le> length h \<and> s = map (\<lambda>d. bits2mime ! d) (pad_digits 64 32 (big_set_bytes (take 24 h)))"
  by (simp add: Hash2address_spec split: if_splits)

lemma bits2mime_valid: "\<forall>d \<in> set ds. d < 64 \<Longrightarrow> valid64 (map (\<lambda>d. bits2mime ! d) ds)"
  by (induction ds) (simp_all add: valid64_def)

lemma map_digit64: "\<forall>d \<in> set ds. d < 64 \<Longrightarrow> map digit64 (map (\<lambda>d. bits2mime ! d) ds) = ds"
  by (induction ds) simp_all

lemma map_bits2mime: "valid64 s \<Longrightarrow> map (\<lambda>d. bits2mime ! d) (map digit64 s) = s"
  by (induction s) (simp_all add: valid64_def nth_digit64)

lemma address_of_hash:
  assumes "Hash2address h = Ret s"
  shows "length s = 32 \<and> valid64 s \<and> Address2hash s = Inr (take 24 h @ replicate 8 0)"
proof -
  let ?N = "big_set_bytes (take 24 h)"
  let ?ds = "pad_digits 64 32 ?N"
  have len: "length (take 24 h) = 24" and s: "s = map (\<lambda>d. bits2mime ! d) ?ds"
    using Hash2address_Ret [OF assms] by simp_all
  have less: "\<forall>d \<in> set ?ds. d < 64" by (auto dest: pad_digits_less [rotated])
  have valid: "valid64 s" unfolding s by (rule bits2mime_valid [OF less])
  have "?N < 256 ^ length (map unat (take 24 h))"
    unfolding big_set_bytes_def by (rule from_digits_bound) simp
  then have "?N < 64 ^ 32" by (simp add: len del: length_take)
  then have N: "from_digits 64 (map digit64 s) = ?N"
    unfolding s map_digit64 [OF less] from_pad_digits by simp
  have "map of_nat (pad_digits 256 24 ?N) = (map of_nat (map unat (take 24 h)) :: byte list)"
    using pad_from_digits [of "map unat (take 24 h)" 256] len
    by (simp add: big_set_bytes_def)
  also have "\<dots> = take 24 h" by (simp add: comp_def)
  finally show ?thesis
    using Address2hash_valid [of s] valid N by (simp add: s)
qed

lemma hash_of_address:
  assumes "Address2hash a = Inr h"
  shows "length h = 32 \<and> drop 24 h = replicate 8 0 \<and> Hash2address h = Ret a"
proof -
  have len: "length a = 32" using assms by (auto simp: Address2hash_def split: if_splits)
  have valid: "valid64 a"
    using assms Address2hash_invalid [OF len] by (cases "valid64 a") auto
  let ?N = "from_digits 64 (map digit64 a)"
  have less: "\<forall>d \<in> set (map digit64 a). d < 64"
    using valid by (auto simp: valid64_def list_all_iff digit64_less)
  have h: "h = map of_nat (pad_digits 256 24 ?N) @ replicate 8 0"
    using assms Address2hash_valid [OF len valid] by simp
  have "?N < 64 ^ length (map digit64 a)" by (rule from_digits_bound [OF less])
  then have bound: "?N < 256 ^ 24" by (simp add: len)
  have "map unat (take 24 h) = pad_digits 256 24 ?N"
    unfolding h by (simp add: map_unat_of_nat pad_digits_less del: map_map)
  then have "big_set_bytes (take 24 h) = ?N"
    using bound by (simp add: big_set_bytes_def from_pad_digits)
  then show ?thesis
    using h pad_from_digits [OF less] map_bits2mime [OF valid] by (simp add: Hash2address_spec len)
qed

definition hash24 :: "byte list \<Rightarrow> bool" where
  "hash24 h \<longleftrightarrow> length h = 24"

text \<open>On 24-byte hashes the two functions form a bijection with the valid addresses.\<close>

interpretation xaddr: strict_codec
    "\<lambda>h. case Hash2address h of Ret s \<Rightarrow> s | _ \<Rightarrow> []"
    "\<lambda>a. case Address2hash a of Inl _ \<Rightarrow> None | Inr h \<Rightarrow> Some (take 24 h)" hash24
proof unfold_locales
  fix h
  assume "hash24 h"
  then obtain s where s: "Hash2address h = Ret s" by (auto simp: hash24_def Hash2address_spec)
  with address_of_hash [OF s] \<open>hash24 h\<close>
  show "(case Address2hash (case Hash2address h of Ret s \<Rightarrow> s | _ \<Rightarrow> []) of
      Inl _ \<Rightarrow> None | Inr h \<Rightarrow> Some (take 24 h)) = Some h"
    by (simp add: hash24_def)
next
  fix a h
  assume "(case Address2hash a of Inl _ \<Rightarrow> None | Inr h \<Rightarrow> Some (take 24 h)) = Some h"
  then obtain k where k: "Address2hash a = Inr k" "h = take 24 k" by (auto split: sum.splits)
  with hash_of_address [OF k(1)] show "hash24 h \<and> (case Hash2address h of Ret s \<Rightarrow> s | _ \<Rightarrow> []) = a"
    by (simp add: hash24_def Hash2address_spec split: if_splits)
qed

subsection \<open>Blocks\<close>

definition Zero8bytes :: "byte list" where "Zero8bytes = replicate 8 0"

record RawBlock =
  Hash :: "byte list"
  Address :: string
  Timestamp :: u64
  RawBytes :: "byte list"

text \<open>
  \<open>NewRawBlock\<close> writes to the caller's slice and restores it; the result is the block and the
  slice as the caller finds it afterwards.
\<close>

definition NewRawBlock :: "byte list \<Rightarrow> (RawBlock \<times> byte list) go" where
  "NewRawBlock b =
     go_bind (slice b 0 8) (\<lambda>b8.
       let header = go_copy (replicate 8 0) b8;
           b = copy_at 0 8 b Zero8bytes;
           hash = sha256 b;
           b = copy_at 0 8 b header;
           hash2 = sha256 hash
       in go_bind (slice b 16 24) (\<lambda>ts.
          go_bind (le_uint64 ts) (\<lambda>t.
          go_bind (Hash2address hash2) (\<lambda>addr.
            Ret (\<lparr>Hash = hash2, Address = addr, Timestamp = t, RawBytes = b\<rparr>, b)))))"

definition XDAG_FIELD_HEAD :: u64 where "XDAG_FIELD_HEAD = 1"
definition XDAG_FIELD_SIGN_OUT :: u64 where "XDAG_FIELD_SIGN_OUT = 5"
definition XDAG_FIELD_HEAD_TEST :: u64 where "XDAG_FIELD_HEAD_TEST = 8"

text \<open>\<open>testnet\<close> is \<open>config.Get().Testnet\<close> and \<open>now\<close> is \<open>GetXTimestamp()\<close>.\<close>

definition GenerateFakeBlock :: "bool \<Rightarrow> u64 \<Rightarrow> byte list" where
  "GenerateFakeBlock testnet now =
     (let block = replicate RawBlockSize 0;
          transportHeader = 1 :: u64;
          amount = 0 :: u64;
          fieldType = (if testnet
            then XDAG_FIELD_HEAD_TEST OR push_bit 4 (XDAG_FIELD_SIGN_OUT * 0x11)
            else XDAG_FIELD_HEAD OR push_bit 4 (XDAG_FIELD_SIGN_OUT * 0x11));
          block = copy_at 0 8 block (le_put 8 transportHeader);
          block = copy_at 8 16 block (le_put 8 fieldType);
          block = copy_at 16 24 block (le_put 8 now);
          block = copy_at 24 32 block (le_put 8 amount)
      in block)"

lemma NewRawBlock_spec:
  "NewRawBlock b =
     (if length b < 24 then Panic
      else
        let h = sha256 (sha256 (replicate 8 0 @ drop 8 b)) in
        Ret (\<lparr>Hash = h, Address = map (\<lambda>d. bits2mime ! d) (pad_digits 64 32 (big_set_bytes (take 24 h))),
              Timestamp = le_get (take 8 (drop 16 b)), RawBytes = b\<rparr>, b))"
proof -
  have zero: "copy_at 0 8 b Zero8bytes = replicate 8 0 @ drop 8 b" if "8 \<le> length b"
    using that by (simp add: copy_at_exact Zero8bytes_def)
  have restore: "copy_at 0 8 (replicate 8 0 @ drop 8 b) (take 8 b) = b" if "8 \<le> length b"
    using that by (simp add: copy_at_exact)
  have hdr: "go_copy (replicate 8 0) (take 8 b) = take 8 b" if "8 \<le> length b"
    using that by (simp add: go_copy_exact)
  consider "length b < 8" | "8 \<le> length b" "length b < 24" | "24 \<le> length b" by linarith
  then show ?thesis
  proof cases
    case 1
    then show ?thesis by (simp add: NewRawBlock_def slice_def)
  next
    case 2
    then show ?thesis by (simp add: NewRawBlock_def slice_def zero restore hdr Let_def)
  next
    case 3
    then show ?thesis
      by (simp add: NewRawBlock_def slice_def zero restore hdr Let_def le_uint64_def Hash2address_spec)
  qed
qed

lemma GenerateFakeBlock_layout:
  "GenerateFakeBlock testnet now =
     le_put 8 (1 :: u64) @ le_put 8 (if testnet then 0x558 else 0x551 :: u64) @ le_put 8 now
     @ replicate 488 0"
proof -
  have "le_put 8 (0 :: u64) = replicate 8 0"
    by (rule nth_equalityI) (simp_all add: le_put_def)
  then show ?thesis
    by (simp add: GenerateFakeBlock_def RawBlockSize_def Let_def copy_at_exact replicate_add [symmetric]
        XDAG_FIELD_HEAD_TEST_def XDAG_FIELD_HEAD_def XDAG_FIELD_SIGN_OUT_def flip: append_assoc)
qed

subsection \<open>Properties\<close>

text \<open>
  C22: \<open>Hash2address\<close> needs 24 bytes (a shorter hash is an index panic) and writes their 192
  bits as 32 base-64 digits, most significant first, although its accumulator overflows 64 bits;
  the remaining bytes of the hash do not matter.
\<close>

theorem hash2address_base64:
  "Hash2address h =
     (if length h < 24 then Panic
      else Ret (map (\<lambda>d. bits2mime ! d) (pad_digits 64 32 (big_set_bytes (take 24 h)))))"
  by (rule Hash2address_spec)

text \<open>
  C23: \<open>Address2hash\<close> undoes \<open>Hash2address\<close>: it returns the 24 address bytes followed by eight
  zero bytes.
\<close>

theorem address2hash_hash2address:
  assumes "length h = 32"
  shows "\<exists>s. Hash2address h = Ret s \<and> Address2hash s = Inr (take 24 h @ replicate 8 0)"
  using assms address_of_hash [of h] by (simp add: Hash2address_spec)

theorem address2hash_hash2address_witness:
  "\<exists>s. Hash2address (replicate 32 7) = Ret s
     \<and> Address2hash s = Inr (take 24 (replicate 32 7) @ replicate 8 0)"
  by (rule address2hash_hash2address) simp

text \<open>
  \<open>Address2hash\<close> accepts exactly the strings of 32 characters of the alphabet: the inner
  loop, which skips foreign characters, only ever turns them into an error.
\<close>

theorem address2hash_accepts:
  "(\<exists>h. Address2hash a = Inr h) \<longleftrightarrow> length a = 32 \<and> list_all (\<lambda>c. c \<in> set bits2mime) a"
proof (cases "length a = 32")
  case True
  then show ?thesis
    using Address2hash_valid [of a] Address2hash_invalid [of a]
    by (cases "valid64 a") (simp_all add: valid64_def)
qed (simp add: Address2hash_def)

text \<open>
  \<open>NewRawBlock\<close> panics on fewer than 24 bytes; otherwise it leaves the caller's bytes as
  they were, and its hash and address are those of the block with a zeroed transport header, so
  they do not depend on the first eight bytes.
\<close>

theorem new_raw_block_spec:
  "NewRawBlock b =
     (if length b < 24 then Panic
      else
        let h = sha256 (sha256 (replicate 8 0 @ drop 8 b)) in
        Ret (\<lparr>Hash = h, Address = map (\<lambda>d. bits2mime ! d) (pad_digits 64 32 (big_set_bytes (take 24 h))),
              Timestamp = le_get (take 8 (drop 16 b)), RawBytes = b\<rparr>, b))"
  by (rule NewRawBlock_spec)

text \<open>
  The fake block has 512 bytes, and \<open>NewRawBlock\<close> reads back the time it was generated
  with, on either network.
\<close>

theorem fake_block_roundtrip:
  "length (GenerateFakeBlock testnet now) = 512 \<and>
   (\<exists>r. NewRawBlock (GenerateFakeBlock testnet now) = Ret (r, GenerateFakeBlock testnet now)
      \<and> Timestamp r = now)"
proof -
  have "le_get (take 8 (drop 16 (GenerateFakeBlock testnet now))) = now"
    by (simp add: GenerateFakeBlock_layout le_get_put)
  then show ?thesis
    by (simp add: NewRawBlock_spec GenerateFakeBlock_layout Let_def)
qed

end
