(* ===== verification/XdagTime.thy ===== *)
theory XdagTime
  imports GoLib "HOL-Library.Signed_Division"
begin

text \<open>
  \<open>server/xdag/time.go\<close>: XDAG time counts 1/1024 of a second in a \<open>uint64\<close>. The clock reading
  \<open>time.Now().UTC().UnixNano()\<close> is the argument \<open>t\<close>; \<open>/\<close> on \<open>int64\<close> truncates towards zero
  (\<open>sdiv\<close>). The lemmas relate the shifts to seconds and to the 64-second main-chain periods for
  every non-negative \<open>int64\<close> clock.
\<close>

unbundle bit_operations_syntax

definition MainEra :: u64 where "MainEra = 0x16940000000"

definition MainTime :: "u64 \<Rightarrow> u64" where
  "MainTime t = drop_bit 16 t"

definition GetXTimestamp :: "int \<Rightarrow> u64" where
  "GetXTimestamp t =
     (let sec = t sdiv 1000000000;
          usec = (t - sec * 1000000000) sdiv 1000;
          xmsec = push_bit 10 usec sdiv 1000000
      in push_bit 10 (word_of_int sec) OR word_of_int xmsec)"

definition CurrentMainTime :: "int \<Rightarrow> u64" where
  "CurrentMainTime t = MainTime (GetXTimestamp t)"

definition StartMainTime :: u64 where
  "StartMainTime = MainTime MainEra"

text \<open>
  \<open>fmt.Sprintf("%03d", n)\<close>, and \<open>Xtime2str\<close>; \<open>time.Unix(..).Format(..)\<close> depends on the
  local time zone and is the argument \<open>fmt\<close>.
\<close>

definition sprintf_03d :: "nat \<Rightarrow> string" where
  "sprintf_03d n = (let s = dec_digits n in replicate (3 - length s) CHR ''0'' @ s)"

definition Xtime2str :: "(int \<Rightarrow> string) \<Rightarrow> u64 \<Rightarrow> string" where
  "Xtime2str fmt t =
     (let msec = drop_bit 10 ((t AND 0x3ff) * 1000);
          tm = fmt (sint (drop_bit 10 t))
      in tm @ ''.'' @ sprintf_03d (unat msec))"

subsection \<open>Lemmas\<close>

lemma sdiv_nonneg: "0 \<le> a \<Longrightarrow> 0 < b \<Longrightarrow> a sdiv b = a div (b :: int)"
  by (cases "a = 0") (simp_all add: signed_divide_int_def sgn_if)

definition xmsec_of :: "int \<Rightarrow> int" where
  "xmsec_of t = (t mod 1000000000) div 1000 * 1024 div 1000000"

lemma xmsec_range: "0 \<le> xmsec_of t \<and> xmsec_of t < 1024"
proof -
  let ?x = "t mod 1000000000" and ?m = "t mod 1000000000 div 1000"
  have "0 \<le> ?x" "?x \<le> 999999999" using pos_mod_bound [of 1000000000 t] by simp_all
  then have m: "0 \<le> ?m" "?m \<le> 999999999 div 1000"
    by (simp_all only: pos_imp_zdiv_nonneg_iff zdiv_mono1 zero_less_numeral)
  then have "0 \<le> ?m * 1024" "?m * 1024 \<le> 999999 * 1024" by simp_all
  then have "0 \<le> ?m * 1024 div 1000000" "?m * 1024 div 1000000 \<le> 999999 * 1024 div 1000000"
    by (simp_all only: pos_imp_zdiv_nonneg_iff zdiv_mono1 zero_less_numeral)
  then show ?thesis by (simp add: xmsec_of_def)
qed

lemma int_or_add: "0 \<le> y \<Longrightarrow> y < 2 ^ k \<Longrightarrow> push_bit k x OR y = 2 ^ k * x + (y :: int)"
proof -
  assume "0 \<le> y" "y < 2 ^ k"
  then have "take_bit k y = y" by (simp add: take_bit_int_eq_self_iff)
  then have "push_bit k x AND y = push_bit k x AND take_bit k y" by simp
  also have "\<dots> = 0" by (rule bit_eqI) (auto simp: bit_simps)
  finally have "push_bit k x + y = push_bit k x OR y" by (rule disjunctive_add_eq_or)
  then show ?thesis by (simp add: push_bit_eq_mult mult.commute)
qed

lemma xtimestamp_value:
  assumes "0 \<le> t" and "t < 2 ^ 63"
  shows "uint (GetXTimestamp t) = 1024 * (t div 1000000000) + xmsec_of t"
proof -
  let ?s = "t div 1000000000"
  have rest: "t - ?s * 1000000000 = t mod 1000000000"
    by (simp add: minus_div_mult_eq_mod)
  have s: "0 \<le> ?s" "?s < 2 ^ 40" using assms by (auto simp: pos_imp_zdiv_nonneg_iff)
  have "push_bit 10 (word_of_int ?s) = (word_of_int (push_bit 10 ?s) :: u64)"
    by (simp add: push_bit_eq_mult)
  then have "GetXTimestamp t = word_of_int (push_bit 10 ?s) OR word_of_int (xmsec_of t)"
    using assms(1) rest
    by (simp add: GetXTimestamp_def sdiv_nonneg xmsec_of_def push_bit_eq_mult pos_imp_zdiv_nonneg_iff)
  also have "\<dots> = word_of_int (push_bit 10 ?s OR xmsec_of t)"
    by (simp add: of_int_or_eq)
  also have "push_bit 10 ?s OR xmsec_of t = 1024 * ?s + xmsec_of t"
    using xmsec_range [of t] int_or_add [of "xmsec_of t" 10 ?s] by simp
  finally have eq: "GetXTimestamp t = word_of_int (1024 * ?s + xmsec_of t)" .
  have "0 \<le> 1024 * ?s + xmsec_of t" "1024 * ?s + xmsec_of t < 2 ^ 64"
    using s xmsec_range [of t] by simp_all
  then show ?thesis
    unfolding eq uint_word_of_int_eq by (intro take_bit_int_eq_self) simp_all
qed

lemma uint_drop_bit: "uint (drop_bit n (w :: u64)) = uint w div 2 ^ n"
proof -
  have "take_bit 64 (uint w) = uint w"
    by (intro take_bit_int_eq_self) (use uint_lt2p [of w] in simp_all)
  then have "uint (drop_bit n w) = drop_bit n (uint w)"
    using unsigned_drop_bit_eq [of n w, where 'a = int] by simp
  then show ?thesis by (simp only: drop_bit_eq_div [of n "uint w"])
qed

lemma xtimestamp_seconds:
  assumes "0 \<le> t" and "t < 2 ^ 63"
  shows "uint (drop_bit 10 (GetXTimestamp t)) = t div 1000000000"
  using xtimestamp_value [OF assms] xmsec_range [of t] by (simp add: uint_drop_bit)

lemma xtimestamp_low:
  assumes "0 \<le> t" and "t < 2 ^ 63"
  shows "uint (GetXTimestamp t AND 0x3ff) = xmsec_of t"
proof -
  have "(0x3ff :: u64) = mask 10" by (simp add: mask_eq_exp_minus_1)
  then have "uint (GetXTimestamp t AND 0x3ff) = uint (take_bit 10 (GetXTimestamp t))"
    by (simp only: take_bit_eq_mask)
  also have "\<dots> = uint (GetXTimestamp t) mod 2 ^ 10"
    by (rule trans [OF unsigned_take_bit_eq take_bit_eq_mod])
  finally show ?thesis
    using xtimestamp_value [OF assms] xmsec_range [of t] by simp
qed

lemma shown_msec:
  assumes "0 \<le> t" and "t < 2 ^ 63"
  shows "int (unat (drop_bit 10 ((GetXTimestamp t AND 0x3ff) * 1000))) = xmsec_of t * 1000 div 1024"
proof -
  let ?w = "GetXTimestamp t AND 0x3ff"
  have "uint (?w * 1000) = (uint ?w * 1000) mod 2 ^ 64"
    by (simp add: uint_word_ariths)
  also have "\<dots> = xmsec_of t * 1000"
    using xtimestamp_low [OF assms] xmsec_range [of t] by simp
  finally show ?thesis
    by (simp add: uint_drop_bit flip: uint_nat)
qed

lemma shown_msec_close:
  "xmsec_of t * 1000 div 1024 \<le> t mod 1000000000 div 1000000
   \<and> t mod 1000000000 div 1000000 \<le> xmsec_of t * 1000 div 1024 + 1"
proof -
  define us where "us = t mod 1000000000 div 1000"
  have ms: "t mod 1000000000 div 1000000 = us div 1000"
    by (simp add: us_def zdiv_zmult2_eq [symmetric])
  define x where "x = us * 1024 div 1000000"
  have x: "xmsec_of t = x" by (simp add: xmsec_of_def us_def x_def)
  show ?thesis unfolding ms x
    using x_def by linarith
qed

lemma length_sprintf_03d: "n < 1000 \<Longrightarrow> length (sprintf_03d n) = 3"
proof -
  assume "n < 1000"
  then have "length (to_digits 10 n) \<le> 3" by (intro length_to_digits) simp_all
  then show ?thesis by (simp add: sprintf_03d_def dec_digits_def Let_def)
qed

subsection \<open>Properties\<close>

text \<open>
  For every clock from the Unix epoch to the end of \<open>int64\<close> nanoseconds, the timestamp is
  the seconds in the upper 54 bits and the 1/1024ths in the lower 10, nothing overflowing, and
  \<open>CurrentMainTime\<close> counts periods of 64 seconds.
\<close>

theorem xtimestamp_layout:
  assumes "0 \<le> t" and "t < 2 ^ 63"
  shows "uint (GetXTimestamp t)
           = 1024 * (t div 1000000000) + t mod 1000000000 div 1000 * 1024 div 1000000
       \<and> uint (CurrentMainTime t) = t div 1000000000 div 64"
proof -
  have "uint (CurrentMainTime t) = (1024 * (t div 1000000000) + xmsec_of t) div 2 ^ 16"
    using xtimestamp_value [OF assms]
    by (simp only: CurrentMainTime_def MainTime_def uint_drop_bit)
  also have "\<dots> = t div 1000000000 div 64"
  proof -
    have "(1024 * s + x) div 65536 = s div 64" if "0 \<le> x \<and> x < 1024" for s x :: int
      using that by linarith
    then show ?thesis using xmsec_range [of t] by simp
  qed
  finally show ?thesis
    using xtimestamp_value [OF assms] by (simp add: xmsec_of_def)
qed

theorem xtimestamp_layout_witness:
  "uint (GetXTimestamp 1700000000500000000) = 1024 * 1700000000 + 512
   \<and> uint (CurrentMainTime 1700000000500000000) = 1700000000 div 64"
  using xtimestamp_layout [of 1700000000500000000] by simp

text \<open>
  \<open>Xtime2str\<close> of the current timestamp prints the current second and three digits of
  milliseconds that are never ahead of the clock and at most one behind.
\<close>

theorem xtime2str_current:
  assumes "0 \<le> t" and "t < 2 ^ 63"
  shows "\<exists>ms. Xtime2str fmt (GetXTimestamp t) = fmt (t div 1000000000) @ ''.'' @ sprintf_03d ms
      \<and> length (sprintf_03d ms) = 3
      \<and> int ms \<le> t mod 1000000000 div 1000000 \<and> t mod 1000000000 div 1000000 \<le> int ms + 1"
proof -
  let ?ms = "unat (drop_bit 10 ((GetXTimestamp t AND 0x3ff) * 1000))"
  have ms: "int ?ms = xmsec_of t * 1000 div 1024" by (rule shown_msec [OF assms])
  then have "?ms < 1000" using xmsec_range [of t] by linarith
  have "t < 9223372036854775808" using assms(2) by simp
  then have small: "t div 1000000000 < 4611686018427387904" by linarith
  have sec: "uint (drop_bit 10 (GetXTimestamp t)) = t div 1000000000"
    by (rule xtimestamp_seconds [OF assms])
  have "sint (drop_bit 10 (GetXTimestamp t)) = t div 1000000000"
    using sec small assms(1)
    by (simp add: sint_uint signed_take_bit_int_eq_self_iff pos_imp_zdiv_nonneg_iff)
  then show ?thesis
    using ms shown_msec_close [of t] length_sprintf_03d [OF \<open>?ms < 1000\<close>]
    by (intro exI [of _ ?ms]) (simp add: Xtime2str_def Let_def)
qed

theorem xtime2str_current_witness:
  "\<exists>ms. Xtime2str (\<lambda>_. ''s'') (GetXTimestamp 1500000000) = ''s'' @ ''.'' @ sprintf_03d ms
      \<and> length (sprintf_03d ms) = 3 \<and> int ms \<le> 500 \<and> 500 \<le> int ms + 1"
  using xtime2str_current [of 1500000000 "\<lambda>_. ''s''"] by simp

end
