(* ===== verification/Connect.thy ===== *)
theory Connect
  imports GoLib
begin

text \<open>
  \<open>server/xdag/connect.go\<close>: the connection to the pool. The first part models the methods on
  the object, each atomic because each holds the connection's own lock. The second part is the
  concurrent system of one connection: its reader and writer goroutines, the users that send and
  close, and the two ends of the socket, as an inductive step relation. A step can end in
  \<open>Panic\<close>; the invariant \<open>csys_inv\<close> shows which do, and that what is written to the
  socket is a prefix of what was accepted, in order.

  \<open>PoolDown\<close> is the package's global flag. It is only ever raised here; \<open>PoolDetect\<close> resets it.
\<close>

subsection \<open>The object\<close>

text \<open>
  \<open>c_cancel\<close> says whether \<open>Start\<close> has set the cancel function, \<open>c_done\<close> whether the context is
  cancelled; \<open>c_msgs\<close> is the content of \<open>msgBuffChan\<close> and \<open>c_msgs_closed\<close> its state.
\<close>

record connection =
  c_ConnID :: u64
  c_socket_open :: bool
  c_cancel :: bool
  c_done :: bool
  c_msgs :: "byte list list"
  c_msgs_closed :: bool
  c_isClosed :: bool
  c_EOFcount :: u64

definition msgBuffCap :: nat where "msgBuffCap = 8"

definition NewConnection :: "u64 \<Rightarrow> connection" where
  "NewConnection connID =
     \<lparr>c_ConnID = connID, c_socket_open = True, c_cancel = False, c_done = False, c_msgs = [],
      c_msgs_closed = False, c_isClosed = False, c_EOFcount = 0\<rparr>"

definition Start :: "connection \<Rightarrow> connection" where
  "Start c = c\<lparr>c_cancel := True, c_done := False\<rparr>"

text \<open>Calling the nil cancel function, or closing a closed channel, panics.\<close>

definition conn_Close :: "connection \<Rightarrow> connection go" where
  "conn_Close c =
     (if c_isClosed c then Ret c
      else
        let c = c\<lparr>c_socket_open := False\<rparr> in
        if \<not> c_cancel c then Panic
        else
          let c = c\<lparr>c_done := True\<rparr> in
          if c_msgs_closed c then Panic
          else Ret (c\<lparr>c_msgs_closed := True, c_isClosed := True\<rparr>))"

definition conn_Stop :: "connection \<Rightarrow> connection go" where
  "conn_Stop c =
     (if c_isClosed c then Ret c
      else
        let c = c\<lparr>c_socket_open := False\<rparr> in
        if \<not> c_cancel c then Panic
        else
          let c = c\<lparr>c_done := True\<rparr> in
          if c_msgs_closed c then Panic
          else Ret (c\<lparr>c_msgs_closed := True, c_isClosed := True\<rparr>))"

text \<open>
  \<open>SendBuffMsg\<close>: the error on a closed connection is \<open>False\<close>. The send blocks while the buffer
  is full; that it is not is a guard of the step relation below.
\<close>

definition SendBuffMsg :: "connection \<Rightarrow> byte list \<Rightarrow> (connection \<times> bool) go" where
  "SendBuffMsg c data =
     (if c_isClosed c then Ret (c, False)
      else if c_msgs_closed c then Panic
      else Ret (c\<lparr>c_msgs := c_msgs c @ [data]\<rparr>, True))"

definition conn_inv :: "connection \<Rightarrow> bool" where
  "conn_inv c \<longleftrightarrow> c_cancel c \<and> (c_isClosed c \<longleftrightarrow> c_msgs_closed c) \<and>
     (c_isClosed c \<longrightarrow> c_done c \<and> \<not> c_socket_open c)"

lemma conn_inv_start [simp]: "conn_inv (Start (NewConnection n))"
  by (simp add: conn_inv_def Start_def NewConnection_def)

lemma conn_Stop_Close: "conn_Stop = conn_Close"
  by (simp add: conn_Stop_def conn_Close_def fun_eq_iff)

interpretation conn: closable c_isClosed conn_Close conn_inv
  by unfold_locales (auto simp: conn_Close_def conn_inv_def)

lemma conn_Close_Ret:
  "conn_Close c = Ret d \<Longrightarrow> c_isClosed d \<and> c_msgs d = c_msgs c \<and> c_EOFcount d = c_EOFcount c
     \<and> c_ConnID d = c_ConnID c"
  by (auto simp: conn_Close_def Let_def split: if_splits)

lemma SendBuffMsg_cases:
  "conn_inv c \<Longrightarrow> SendBuffMsg c data =
     Ret (if c_isClosed c then (c, False) else (c\<lparr>c_msgs := c_msgs c @ [data]\<rparr>, True))"
  by (simp add: SendBuffMsg_def conn_inv_def)

lemma conn_inv_send [simp]: "conn_inv (c\<lparr>c_msgs := ms\<rparr>) = conn_inv c"
  by (simp add: conn_inv_def)

subsection \<open>Reader and writer\<close>

datatype read_result = ReadOk "byte list" | ReadTimeout | ReadEOF | ReadFail

datatype reader_pc = Reading | Delivering "byte list" | ReaderStopping | ReaderGone
datatype writer_pc = Writing | WriterStopping | WriterGone

text \<open>
  One connection and its environment: \<open>s_notify\<close> is the channel to the proxy (capacity 2), with
  \<open>s_notify_closed\<close>; \<open>s_written\<close> is what the writer has put on the socket and \<open>s_accepted\<close>
  records the messages \<open>SendBuffMsg\<close> accepted, in order.
\<close>

record csys =
  s_conn :: connection
  s_reader :: reader_pc
  s_writer :: writer_pc
  s_PoolDown :: nat
  s_notify :: "byte list list"
  s_notify_closed :: bool
  s_written :: "byte list list"
  s_accepted :: "byte list list"

definition notifyCap :: nat where "notifyCap = 2"

definition csys_init :: "csys \<Rightarrow> bool" where
  "csys_init s \<longleftrightarrow> (\<exists>n d. s =
     \<lparr>s_conn = Start (NewConnection n), s_reader = Reading, s_writer = Writing, s_PoolDown = d,
      s_notify = [], s_notify_closed = False, s_written = [], s_accepted = []\<rparr>)"

text \<open>
  What one turn of \<open>StartReader\<close>'s loop does with the result of \<open>io.ReadFull\<close>: a frame goes on
  to be delivered; an error ends the loop, after raising \<open>PoolDown\<close> on a timeout or counting an
  EOF.
\<close>

fun reader_turn :: "csys \<Rightarrow> read_result \<Rightarrow> csys" where
  "reader_turn s (ReadOk data) = s\<lparr>s_reader := Delivering data\<rparr>"
| "reader_turn s ReadTimeout = s\<lparr>s_PoolDown := s_PoolDown s + 1, s_reader := ReaderStopping\<rparr>"
| "reader_turn s ReadEOF =
     s\<lparr>s_conn := (s_conn s)\<lparr>c_EOFcount := c_EOFcount (s_conn s) + 1\<rparr>, s_reader := ReaderStopping\<rparr>"
| "reader_turn s ReadFail = s\<lparr>s_reader := ReaderStopping\<rparr>"

definition reader_deliver :: "csys \<Rightarrow> byte list \<Rightarrow> csys go" where
  "reader_deliver s data =
     (if \<not> c_isClosed (s_conn s) then
        if s_notify_closed s then Panic
        else Ret (s\<lparr>s_notify := s_notify s @ [data], s_reader := Reading\<rparr>)
      else Ret (s\<lparr>s_reader := Reading\<rparr>))"

definition writer_take :: "csys \<Rightarrow> bool \<Rightarrow> csys" where
  "writer_take s write_ok =
     (case c_msgs (s_conn s) of
        [] \<Rightarrow> s
      | m # ms \<Rightarrow>
          let s = s\<lparr>s_conn := (s_conn s)\<lparr>c_msgs := ms\<rparr>\<rparr> in
          if write_ok then s\<lparr>s_written := s_written s @ [m]\<rparr> else s\<lparr>s_writer := WriterStopping\<rparr>)"

text \<open>
  The steps. The loops look at \<open>PoolDown\<close> and at the context before they block; a goroutine that
  leaves its loop runs the deferred \<open>Stop\<close>. The proxy closes the notify channel at most once
  (\<open>isClosed\<close>), at any time: \<open>Close\<close>, \<open>Remove\<close> and \<open>shutdown(0)\<close> close the connection first, but
  \<open>shutdown(2)\<close> closes the channel alone, and of two connections of one proxy only the second is
  closed with it (theory Relogin).
\<close>

inductive conn_step :: "csys \<Rightarrow> csys go \<Rightarrow> bool" where
  reader_quit: "s_reader s = Reading \<Longrightarrow> 0 < s_PoolDown s \<or> c_done (s_conn s) \<Longrightarrow>
    conn_step s (Ret (s\<lparr>s_reader := ReaderStopping\<rparr>))"
| reader_deadline: "s_reader s = Reading \<Longrightarrow> \<not> c_socket_open (s_conn s) \<Longrightarrow>
    conn_step s (Ret (s\<lparr>s_reader := ReaderStopping\<rparr>))"
| reader_read: "s_reader s = Reading \<Longrightarrow> conn_step s (Ret (reader_turn s r))"
| reader_send: "s_reader s = Delivering data \<Longrightarrow>
    length (s_notify s) < notifyCap \<or> c_isClosed (s_conn s) \<or> s_notify_closed s \<Longrightarrow>
    conn_step s (reader_deliver s data)"
| reader_stop: "s_reader s = ReaderStopping \<Longrightarrow>
    conn_step s (go_bind (conn_Stop (s_conn s)) (\<lambda>c. Ret (s\<lparr>s_conn := c, s_reader := ReaderGone\<rparr>)))"
| writer_quit: "s_writer s = Writing \<Longrightarrow> 0 < s_PoolDown s \<or> c_done (s_conn s) \<Longrightarrow>
    conn_step s (Ret (s\<lparr>s_writer := WriterStopping\<rparr>))"
| writer_msg: "s_writer s = Writing \<Longrightarrow> conn_step s (Ret (writer_take s write_ok))"
| writer_stop: "s_writer s = WriterStopping \<Longrightarrow>
    conn_step s (go_bind (conn_Stop (s_conn s)) (\<lambda>c. Ret (s\<lparr>s_conn := c, s_writer := WriterGone\<rparr>)))"
| user_send: "length (c_msgs (s_conn s)) < msgBuffCap \<or> c_isClosed (s_conn s) \<Longrightarrow>
    conn_step s (go_bind (SendBuffMsg (s_conn s) data) (\<lambda>(c, ok).
      Ret (s\<lparr>s_conn := c, s_accepted := (if ok then s_accepted s @ [data] else s_accepted s)\<rparr>)))"
| user_close:
    "conn_step s (go_bind (conn_Close (s_conn s)) (\<lambda>c. Ret (s\<lparr>s_conn := c\<rparr>)))"
| notify_recv: "s_notify s = m # ms \<Longrightarrow> conn_step s (Ret (s\<lparr>s_notify := ms\<rparr>))"
| notify_close: "\<not> s_notify_closed s \<Longrightarrow> conn_step s (Ret (s\<lparr>s_notify_closed := True\<rparr>))"
| pool_down: "conn_step s (Ret (s\<lparr>s_PoolDown := s_PoolDown s + 1\<rparr>))"

subsection \<open>Invariant\<close>

text \<open>
  While the writer runs, written and queued messages make up exactly the accepted ones; a
  failed write loses the message it took, after which nothing more is written.
\<close>

definition fifo :: "csys \<Rightarrow> bool" where
  "fifo s \<longleftrightarrow>
     (if s_writer s = Writing then s_accepted s = s_written s @ c_msgs (s_conn s)
      else \<exists>rest. s_accepted s = s_written s @ rest)"

definition csys_inv :: "csys \<Rightarrow> bool" where
  "csys_inv s \<longleftrightarrow> conn_inv (s_conn s) \<and>
     length (c_msgs (s_conn s)) \<le> msgBuffCap \<and> length (s_notify s) \<le> notifyCap \<and> fifo s"

lemmas csys_defs = csys_inv_def fifo_def conn_inv_def msgBuffCap_def notifyCap_def

lemma csys_inv_init: "csys_init s \<Longrightarrow> csys_inv s"
  by (auto simp: csys_init_def csys_defs Start_def NewConnection_def)

lemma reader_turn_inv: "csys_inv s \<Longrightarrow> csys_inv (reader_turn s r)"
  by (cases r) (auto simp: csys_defs)

lemma writer_take_inv: "csys_inv s \<Longrightarrow> s_writer s = Writing \<Longrightarrow> csys_inv (writer_take s ok)"
  by (auto simp: csys_defs writer_take_def Let_def split: list.split)

lemma stop_inv:
  assumes "csys_inv s"
  shows "\<exists>c. conn_Stop (s_conn s) = Ret c \<and> csys_inv (s\<lparr>s_conn := c\<rparr>)"
proof -
  obtain c where c: "conn_Close (s_conn s) = Ret c" "conn_inv c" "c_isClosed c"
    using conn.close_total [of "s_conn s"] assms by (auto simp: csys_inv_def)
  then show ?thesis
    using assms conn_Close_Ret [OF c(1)] by (simp add: conn_Stop_Close csys_inv_def fifo_def)
qed

lemma csys_inv_pc:
  "csys_inv (s\<lparr>s_reader := p\<rparr>) = csys_inv s"
  "csys_inv s \<Longrightarrow> w \<noteq> Writing \<Longrightarrow> csys_inv (s\<lparr>s_writer := w\<rparr>)"
  by (auto simp: csys_inv_def fifo_def split: if_splits)

text \<open>The one panic: a frame is delivered on a closed channel, the connection being open.\<close>

definition panics_next :: "csys \<Rightarrow> bool" where
  "panics_next s \<longleftrightarrow> (\<exists>data. s_reader s = Delivering data) \<and> s_notify_closed s \<and> \<not> c_isClosed (s_conn s)"

lemma csys_inv_step_go:
  "conn_step s r \<Longrightarrow> csys_inv s \<Longrightarrow> r = Panic \<and> panics_next s \<or> (\<exists>t. r = Ret t \<and> csys_inv t)"
proof (induction rule: conn_step.induct)
  case (reader_send s data)
  then show ?case by (auto simp: reader_deliver_def csys_defs panics_next_def)
next
  case (reader_stop s)
  then show ?case using stop_inv [of s] by (auto simp: csys_inv_pc)
next
  case (writer_stop s)
  obtain c where c: "conn_Stop (s_conn s) = Ret c" "csys_inv (s\<lparr>s_conn := c\<rparr>)"
    using stop_inv [OF \<open>csys_inv s\<close>] by blast
  have "csys_inv (s\<lparr>s_conn := c\<rparr>\<lparr>s_writer := WriterGone\<rparr>)" by (rule csys_inv_pc(2) [OF c(2)]) simp
  with c(1) show ?case by simp
next
  case (user_send s data)
  then show ?case by (auto simp: SendBuffMsg_cases csys_defs)
next
  case (user_close s)
  then show ?case using stop_inv [of s] by (auto simp: conn_Stop_Close)
qed (auto simp: reader_turn_inv writer_take_inv csys_inv_pc, auto simp: csys_defs)

lemma panic_now: "panics_next s \<Longrightarrow> conn_step s Panic"
  using conn_step.reader_send [of s] by (auto simp: panics_next_def reader_deliver_def)

lemma panic_iff: "csys_inv s \<Longrightarrow> conn_step s Panic \<longleftrightarrow> panics_next s"
  using csys_inv_step_go [of s Panic] panic_now [of s] by blast

definition csys_step :: "csys \<Rightarrow> csys \<Rightarrow> bool" where
  "csys_step s t \<longleftrightarrow> conn_step s (Ret t)"

interpretation csys: invariant_system csys_init csys_step csys_inv
  by unfold_locales (auto simp: csys_inv_init csys_step_def dest: csys_inv_step_go)

lemma csys_init_open: "csys_init s \<Longrightarrow> \<not> s_notify_closed s"
  by (auto simp: csys_init_def)

text \<open>The runs in which the proxy closes the channel after the connection, if at all.\<close>

definition orderly_step :: "csys \<Rightarrow> csys \<Rightarrow> bool" where
  "orderly_step s t \<longleftrightarrow> csys_step s t \<and> (s_notify_closed t \<longrightarrow> c_isClosed (s_conn t))"

definition orderly_inv :: "csys \<Rightarrow> bool" where
  "orderly_inv s \<longleftrightarrow> csys_inv s \<and> (s_notify_closed s \<longrightarrow> c_isClosed (s_conn s))"

interpretation orderly: invariant_system csys_init orderly_step orderly_inv
  by unfold_locales
    (auto simp: orderly_inv_def orderly_step_def csys_inv_init csys_init_open csys_step_def dest: csys_inv_step_go)

text \<open>A run of three steps: a message is sent, a second one is, and the writer writes the first.\<close>

definition demo_init :: csys where
  "demo_init =
     \<lparr>s_conn = Start (NewConnection 1), s_reader = Reading, s_writer = Writing, s_PoolDown = 0,
      s_notify = [], s_notify_closed = False, s_written = [], s_accepted = []\<rparr>"

definition demo_sent :: csys where
  "demo_sent = demo_init\<lparr>s_conn := (s_conn demo_init)\<lparr>c_msgs := [[1], [2]]\<rparr>, s_accepted := [[1], [2]]\<rparr>"

definition demo_written :: csys where
  "demo_written = demo_sent\<lparr>s_conn := (s_conn demo_sent)\<lparr>c_msgs := [[2]]\<rparr>, s_written := [[1]]\<rparr>"

lemmas demo_defs = demo_init_def demo_sent_def demo_written_def Start_def NewConnection_def

lemma demo_init_reach: "reach csys_init csys_step demo_init"
  by (rule reach_init) (simp add: demo_defs csys_init_def)

lemma demo_sent_reach: "reach csys_init csys_step demo_sent"
proof -
  let ?one = "demo_init\<lparr>s_conn := (s_conn demo_init)\<lparr>c_msgs := [[1]]\<rparr>, s_accepted := [[1]]\<rparr>"
  have "csys_step demo_init ?one"
    using conn_step.user_send [of demo_init "[1]"]
    by (simp add: csys_step_def demo_defs SendBuffMsg_def msgBuffCap_def)
  moreover have "csys_step ?one demo_sent"
    using conn_step.user_send [of ?one "[2]"]
    by (simp add: csys_step_def demo_defs SendBuffMsg_def msgBuffCap_def)
  ultimately show ?thesis using demo_init_reach by (blast intro: reach_step)
qed

lemma demo_written_reach: "reach csys_init csys_step demo_written"
proof -
  have "csys_step demo_sent demo_written"
    using conn_step.writer_msg [of demo_sent True]
    by (simp add: csys_step_def demo_defs writer_take_def)
  then show ?thesis using demo_sent_reach by (blast intro: reach_step)
qed

text \<open>The channel is closed while a frame waits to be delivered on the open connection.\<close>

definition demo_closed_early :: csys where
  "demo_closed_early = demo_init\<lparr>s_reader := Delivering [7], s_notify_closed := True\<rparr>"

lemma demo_early: "panics_next demo_closed_early"
  by (simp add: panics_next_def demo_closed_early_def demo_defs)

lemma demo_early_reach: "reach csys_init csys_step demo_closed_early"
proof -
  have "csys_step demo_init (demo_init\<lparr>s_reader := Delivering [7]\<rparr>)"
    using conn_step.reader_read [of demo_init "ReadOk [7]"] by (simp add: csys_step_def demo_defs)
  moreover have "csys_step (demo_init\<lparr>s_reader := Delivering [7]\<rparr>) demo_closed_early"
    using conn_step.notify_close [of "demo_init\<lparr>s_reader := Delivering [7]\<rparr>"]
    by (simp add: csys_step_def demo_defs demo_closed_early_def)
  ultimately show ?thesis using demo_init_reach by (blast intro: reach_step)
qed

subsection \<open>Properties\<close>

text \<open>
  C11: However the reader, the writer, the senders and the closers of a pool connection
  interleave, a step panics exactly when the reader delivers a frame after the proxy has closed the notify
  channel with the connection still open; no other channel is closed twice or sent on when
  closed. While the proxy closes the channel only after the connection, no step panics; the
  other order does end in the panic.
\<close>

theorem connection_panics_iff:
  "(reach csys_init csys_step s \<longrightarrow>
      (conn_step s Panic \<longleftrightarrow> (\<exists>data. s_reader s = Delivering data) \<and> s_notify_closed s \<and> \<not> c_isClosed (s_conn s)))
   \<and> (reach csys_init orderly_step s \<longrightarrow> \<not> conn_step s Panic)
   \<and> (\<exists>t. reach csys_init csys_step t \<and> conn_step t Panic)"
proof (intro conjI impI)
  assume "reach csys_init csys_step s"
  then have "csys_inv s" by (rule csys.reach_inv)
  then show "conn_step s Panic \<longleftrightarrow> (\<exists>data. s_reader s = Delivering data) \<and> s_notify_closed s \<and> \<not> c_isClosed (s_conn s)"
    by (simp only: panic_iff panics_next_def)
next
  assume "reach csys_init orderly_step s"
  then have "orderly_inv s" by (rule orderly.reach_inv)
  then have "csys_inv s" "\<not> panics_next s" by (auto simp: orderly_inv_def panics_next_def)
  then show "\<not> conn_step s Panic" using panic_iff [of s] by blast
next
  show "\<exists>t. reach csys_init csys_step t \<and> conn_step t Panic" using demo_early_reach panic_now [OF demo_early] by blast
qed

theorem connection_panics_iff_witness:
  "conn_step demo_closed_early Panic \<and> \<not> conn_step demo_sent Panic"
proof
  show "conn_step demo_closed_early Panic"
    using connection_panics_iff [THEN conjunct1, THEN mp, OF demo_early_reach] demo_early
    by (simp add: panics_next_def)
  show "\<not> conn_step demo_sent Panic"
    using connection_panics_iff [THEN conjunct1, THEN mp, OF demo_sent_reach] by (simp add: demo_defs)
qed

text \<open>
  C12: Messages reach the socket in the order \<open>SendBuffMsg\<close> accepted them, none duplicated or
  overtaken, and both channels stay within their capacity.
\<close>

theorem connection_fifo:
  "reach csys_init csys_step s \<Longrightarrow>
   take (length (s_written s)) (s_accepted s) = s_written s
   \<and> length (c_msgs (s_conn s)) \<le> 8 \<and> length (s_notify s) \<le> 2"
  using csys.reach_inv [of s] by (auto simp: csys_defs split: if_splits)

theorem connection_fifo_witness:
  "take (length (s_written demo_written)) (s_accepted demo_written) = s_written demo_written
   \<and> s_written demo_written = [[1]] \<and> s_accepted demo_written = [[1], [2]]
   \<and> length (c_msgs (s_conn demo_written)) \<le> 8 \<and> length (s_notify demo_written) \<le> 2"
  using connection_fifo [OF demo_written_reach] by (simp add: demo_defs)

end
