(* ===== verification/Json.thy ===== *)
theory Json
  imports GoLib
begin

text \<open>
  \<open>encoding/json\<close> as the program uses it, from the parsed value on: unmarshalling an object into
  the fields of a struct, with the matching of names and the conversions of each kind of field,
  and into a \<open>map[string]*json.RawMessage\<close>. A raw message is the value itself. The grammar of
  JSON text is not modelled; a reader of text is an argument where one is needed.
\<close>

text \<open>Numbers keep their literal, objects keep their members in order, duplicates included.\<close>

datatype json =
    JNull | JBool bool | JNum string | JStr string | JArr "json list" | JObj "(string \<times> json) list"

text \<open>\<open>json.Unmarshal\<close> into \<open>map[string]*json.RawMessage\<close>: the last duplicate wins and \<open>null\<close>
  is the nil pointer.\<close>

definition raw_pointer :: "json \<Rightarrow> json option" where
  "raw_pointer j = (if j = JNull then None else Some j)"

definition raw_map :: "(string \<times> json) list \<Rightarrow> string \<rightharpoonup> json option" where
  "raw_map kvs = map_option raw_pointer \<circ> map_of (rev kvs)"

subsection \<open>Struct fields\<close>

text \<open>
  A member goes to the field whose name it equals, or else to the first one it equals up to case.
  Case folding identifies ASCII letters, and the two non-ASCII characters that fold into ASCII:
  U+212A (k) and U+017F (s), here as their UTF-8 bytes.
\<close>

definition lower_char :: "char \<Rightarrow> char" where
  "lower_char c =
     (let n = of_char c :: nat in if 65 \<le> n \<and> n \<le> 90 then char_of (n + 32) else c)"

fun fold_key :: "string \<Rightarrow> string" where
  "fold_key [] = []"
| "fold_key (c # s) =
     (if c = CHR 0xC5 \<and> take 1 s = [CHR 0xBF] then CHR ''s'' # fold_key (drop 1 s)
      else if c = CHR 0xE2 \<and> take 2 s = [CHR 0x84, CHR 0xAA] then CHR ''k'' # fold_key (drop 2 s)
      else lower_char c # fold_key s)"

fun find_index :: "('a \<Rightarrow> bool) \<Rightarrow> 'a list \<Rightarrow> nat option" where
  "find_index P [] = None"
| "find_index P (x # xs) = (if P x then Some 0 else map_option Suc (find_index P xs))"

definition find_field :: "string list \<Rightarrow> string \<Rightarrow> nat option" where
  "find_field names k =
     (case find_index (\<lambda>n. n = k) names of
        Some i \<Rightarrow> Some i
      | None \<Rightarrow> find_index (\<lambda>n. fold_key n = fold_key k) names)"

lemma find_index_Some: "find_index P xs = Some i \<Longrightarrow> i < length xs \<and> P (xs ! i)"
  by (induction xs arbitrary: i) (auto split: if_splits)

lemma find_index_None: "find_index P xs = None \<longleftrightarrow> (\<forall>x \<in> set xs. \<not> P x)"
  by (induction xs) auto

lemma find_field_less: "find_field names k = Some i \<Longrightarrow> i < length names"
  by (auto simp: find_field_def dest: find_index_Some split: option.splits)

lemma find_index_nth:
  "distinct xs \<Longrightarrow> i < length xs \<Longrightarrow> find_index (\<lambda>n. n = xs ! i) xs = Some i"
  by (induction xs arbitrary: i) (auto simp: nth_Cons' split: if_splits)

lemma find_field_exact: "distinct names \<Longrightarrow> i < length names \<Longrightarrow> find_field names (names ! i) = Some i"
  by (simp add: find_field_def find_index_nth)

text \<open>The kinds of field the program's structs have. \<open>null\<close> leaves a field as it is; a value of
  another kind, or a number that is no \<open>int\<close>, is an error and leaves it as it is.\<close>

datatype field_value = VBool bool | VInt int | VStr string

fun unmarshal_field :: "field_value \<Rightarrow> json \<Rightarrow> field_value option" where
  "unmarshal_field v JNull = Some v"
| "unmarshal_field (VBool _) (JBool b) = Some (VBool b)"
| "unmarshal_field (VInt _) (JNum s) = map_option VInt (atoi s)"
| "unmarshal_field (VStr _) (JStr s) = Some (VStr s)"
| "unmarshal_field _ _ = None"

fun same_kind :: "field_value \<Rightarrow> field_value \<Rightarrow> bool" where
  "same_kind (VBool _) (VBool _) = True"
| "same_kind (VInt _) (VInt _) = True"
| "same_kind (VStr _) (VStr _) = True"
| "same_kind _ _ = False"

lemma same_kind_refl [simp]: "same_kind v v"
  by (cases v) simp_all

lemma same_kind_trans: "same_kind u v \<Longrightarrow> same_kind v w \<Longrightarrow> same_kind u w"
  by (cases u; cases v; cases w) simp_all

lemma unmarshal_field_kind: "unmarshal_field v j = Some w \<Longrightarrow> same_kind v w"
  by (cases "(v, j)" rule: unmarshal_field.cases) auto

lemma unmarshal_field_kind_only:
  "same_kind u v \<Longrightarrow> j \<noteq> JNull \<Longrightarrow> unmarshal_field u j = unmarshal_field v j"
  by (cases u; cases v; cases j) simp_all

text \<open>Decoding goes on after a field that does not fit; the first error is returned at the end.\<close>

definition unmarshal_member ::
    "string list \<Rightarrow> field_value list \<times> bool \<Rightarrow> string \<times> json \<Rightarrow> field_value list \<times> bool" where
  "unmarshal_member names r m =
     (case r of (vals, ok) \<Rightarrow> case m of (k, j) \<Rightarrow>
        case find_field names k of
          None \<Rightarrow> (vals, ok)
        | Some i \<Rightarrow>
            (case unmarshal_field (vals ! i) j of
               None \<Rightarrow> (vals, False)
             | Some v \<Rightarrow> (vals[i := v], ok)))"

fun unmarshal_struct :: "string list \<Rightarrow> field_value list \<Rightarrow> json \<Rightarrow> field_value list \<times> bool" where
  "unmarshal_struct names vals JNull = (vals, True)"
| "unmarshal_struct names vals (JObj kvs) = foldl (unmarshal_member names) (vals, True) kvs"
| "unmarshal_struct names vals _ = (vals, False)"

text \<open>The value that decides field \<open>i\<close>: that of its last member that is not \<open>null\<close>.\<close>

fun member_of :: "string list \<Rightarrow> nat \<Rightarrow> (string \<times> json) list \<Rightarrow> json option" where
  "member_of names i [] = None"
| "member_of names i ((k, j) # kvs) =
     (case member_of names i kvs of
        Some v \<Rightarrow> Some v
      | None \<Rightarrow> if find_field names k = Some i \<and> j \<noteq> JNull then Some j else None)"

lemma member_of_snoc:
  "member_of names i (kvs @ [(k, j)]) =
     (if find_field names k = Some i \<and> j \<noteq> JNull then Some j else member_of names i kvs)"
  by (induction names i kvs rule: member_of.induct) (auto split: option.split)

lemma unmarshal_struct_kinds:
  "foldl (unmarshal_member names) (vals, True) kvs = (ws, ok) \<Longrightarrow> length vals = length names \<Longrightarrow>
   length ws = length vals \<and> (\<forall>i < length vals. same_kind (vals ! i) (ws ! i))"
proof (induction kvs arbitrary: ws ok rule: rev_induct)
  case (snoc m kvs)
  obtain k j where m: "m = (k, j)" by (cases m)
  obtain us ok' where us: "foldl (unmarshal_member names) (vals, True) kvs = (us, ok')" by force
  have ih: "length us = length vals" "\<And>i. i < length vals \<Longrightarrow> same_kind (vals ! i) (us ! i)"
    using snoc.IH [OF us snoc.prems(2)] by simp_all
  have step: "unmarshal_member names (us, ok') (k, j) = (ws, ok)"
    using snoc.prems(1) us m by simp
  show ?case
  proof (cases "find_field names k")
    case None
    with step ih show ?thesis by (simp add: unmarshal_member_def)
  next
    case (Some n)
    then have n: "n < length vals" using snoc.prems find_field_less by fastforce
    show ?thesis
    proof (cases "unmarshal_field (us ! n) j")
      case None
      with step ih Some show ?thesis by (simp add: unmarshal_member_def)
    next
      case (Some v)
      then have "same_kind (vals ! n) v"
        using same_kind_trans [OF ih(2) [OF n] unmarshal_field_kind] by blast
      then have "same_kind (vals ! i) (us[n := v] ! i)" if "i < length vals" for i
        using that ih n by (cases "i = n") simp_all
      with step ih Some \<open>find_field names k = Some n\<close> show ?thesis
        by (auto simp: unmarshal_member_def)
    qed
  qed
qed simp

lemma unmarshal_struct_values:
  assumes "foldl (unmarshal_member names) (vals, True) kvs = (ws, True)"
    and "length vals = length names" and "i < length vals"
  shows "(case member_of names i kvs of
            None \<Rightarrow> ws ! i = vals ! i
          | Some j \<Rightarrow> unmarshal_field (vals ! i) j = Some (ws ! i))"
  using assms(1)
proof (induction kvs arbitrary: ws rule: rev_induct)
  case Nil
  then show ?case by simp
next
  case (snoc m kvs)
  obtain k j where m: "m = (k, j)" by (cases m)
  obtain us ok where us: "foldl (unmarshal_member names) (vals, True) kvs = (us, ok)" by force
  have kinds: "length us = length vals" "same_kind (vals ! i) (us ! i)"
    using unmarshal_struct_kinds [OF us assms(2)] assms(3) by simp_all
  have step: "unmarshal_member names (us, ok) (k, j) = (ws, True)"
    using snoc.prems(1) us m by simp
  then have ok: "ok" by (auto simp: unmarshal_member_def split: option.splits)
  note ih = snoc.IH [OF us [unfolded eqTrueI [OF ok]]]
  show ?case
  proof (cases "find_field names k")
    case None
    with step have "ws = us" by (simp add: unmarshal_member_def)
    then show ?thesis unfolding m using None ih by (simp only: member_of_snoc) simp
  next
    case (Some n)
    with step obtain v where v: "unmarshal_field (us ! n) j = Some v" "ws = us[n := v]"
      by (auto simp: unmarshal_member_def split: option.splits)
    show ?thesis
    proof (cases "n = i \<and> j \<noteq> JNull")
      case True
      with v kinds m Some assms(3) show ?thesis
        using unmarshal_field_kind_only [of "vals ! i" "us ! i" j] by (simp add: member_of_snoc)
    next
      case False
      then have "ws ! i = us ! i"
        using v assms(3) kinds by (cases "n = i") auto
      moreover have "member_of names i (kvs @ [m]) = member_of names i kvs"
        using False m Some by (auto simp: member_of_snoc)
      ultimately show ?thesis using ih by (auto split: option.splits)
    qed
  qed
qed

end
