(* ===== verification/Config.thy ===== *)
theory Config
  imports Json
begin

text \<open>
  \<open>server/config/config.go\<close>: the configuration, its defaults and its validation. The file's
  code walks over the fields of the struct by reflection, reading their tags; here \<open>config_tags\<close>
  lists the tags in the order of the struct, and \<open>get_field\<close> and \<open>set_field\<close> are
  \<open>reflect\<close>'s access to a field by index. Reading the file and the environment
  (\<open>configFromEnv\<close>, package envconfig) are not modelled.
\<close>

subsection \<open>The struct and its tags\<close>

record config =
  Debug :: bool
  StratumPort :: int
  CertFile :: string
  KeyFile :: string
  Tls :: bool
  PoolAddr :: string
  StatInterval :: int
  ShareValidation :: int
  LogFile :: string
  DiscardLog :: bool
  Testnet :: bool
  Socks5 :: string
  RateLimit :: int
  TryPoolTimes :: int
  TryDelaySeconds :: int
  ExitOnPoolDown :: bool

record field_tag =
  tag_name :: string
  tag_json :: string
  tag_default :: string
  tag_required :: bool

definition plain :: "string \<Rightarrow> string \<Rightarrow> field_tag" where
  "plain n j = \<lparr>tag_name = n, tag_json = j, tag_default = [], tag_required = False\<rparr>"

definition config_tags :: "field_tag list" where
  "config_tags =
     [plain ''Debug'' ''debug'',
      (plain ''StratumPort'' ''strport'')\<lparr>tag_default := ''3232''\<rparr>,
      (plain ''CertFile'' ''tlscert'')\<lparr>tag_default := ''server.pem''\<rparr>,
      (plain ''KeyFile'' ''tlskey'')\<lparr>tag_default := ''server.key''\<rparr>,
      plain ''Tls'' ''tls'',
      (plain ''PoolAddr'' ''url'')\<lparr>tag_required := True\<rparr>,
      (plain ''StatInterval'' ''stats'')\<lparr>tag_default := ''60''\<rparr>,
      (plain ''ShareValidation'' ''validateshares'')\<lparr>tag_default := ''2''\<rparr>,
      plain ''LogFile'' ''log'',
      plain ''DiscardLog'' ''nolog'',
      plain ''Testnet'' ''testnet'',
      plain ''Socks5'' ''socks5'',
      plain ''RateLimit'' ''ratelimit'',
      plain ''TryPoolTimes'' ''try_pool_times'',
      plain ''TryDelaySeconds'' ''try_delay_seconds'',
      plain ''ExitOnPoolDown'' ''exit_on_pool_down'']"

definition config_names :: "string list" where
  "config_names = map tag_json config_tags"

text \<open>\<open>Config{}\<close>, and the fields by index.\<close>

definition zero_config :: config where
  "zero_config =
     \<lparr>Debug = False, StratumPort = 0, CertFile = [], KeyFile = [], Tls = False, PoolAddr = [],
      StatInterval = 0, ShareValidation = 0, LogFile = [], DiscardLog = False, Testnet = False,
      Socks5 = [], RateLimit = 0, TryPoolTimes = 0, TryDelaySeconds = 0, ExitOnPoolDown = False\<rparr>"

definition config_values :: "config \<Rightarrow> field_value list" where
  "config_values c =
     [VBool (Debug c), VInt (StratumPort c), VStr (CertFile c), VStr (KeyFile c), VBool (Tls c),
      VStr (PoolAddr c), VInt (StatInterval c), VInt (ShareValidation c), VStr (LogFile c),
      VBool (DiscardLog c), VBool (Testnet c), VStr (Socks5 c), VInt (RateLimit c),
      VInt (TryPoolTimes c), VInt (TryDelaySeconds c), VBool (ExitOnPoolDown c)]"

fun as_bool :: "field_value \<Rightarrow> bool" where "as_bool (VBool b) = b" | "as_bool _ = False"
fun as_int :: "field_value \<Rightarrow> int" where "as_int (VInt i) = i" | "as_int _ = 0"
fun as_str :: "field_value \<Rightarrow> string" where "as_str (VStr s) = s" | "as_str _ = []"

definition of_values :: "field_value list \<Rightarrow> config" where
  "of_values v =
     \<lparr>Debug = as_bool (v ! 0), StratumPort = as_int (v ! 1), CertFile = as_str (v ! 2),
      KeyFile = as_str (v ! 3), Tls = as_bool (v ! 4), PoolAddr = as_str (v ! 5),
      StatInterval = as_int (v ! 6), ShareValidation = as_int (v ! 7), LogFile = as_str (v ! 8),
      DiscardLog = as_bool (v ! 9), Testnet = as_bool (v ! 10), Socks5 = as_str (v ! 11),
      RateLimit = as_int (v ! 12), TryPoolTimes = as_int (v ! 13),
      TryDelaySeconds = as_int (v ! 14), ExitOnPoolDown = as_bool (v ! 15)\<rparr>"

definition get_field :: "config \<Rightarrow> nat \<Rightarrow> field_value" where
  "get_field c i = config_values c ! i"

definition set_field :: "config \<Rightarrow> nat \<Rightarrow> field_value \<Rightarrow> config" where
  "set_field c i v = of_values ((config_values c)[i := v])"

subsection \<open>Defaults, validation and loading\<close>

datatype config_error =
    DefaultNotInt string | DefaultNotBool string | MissingKey string | BadJSON

definition parse_bool :: "string \<Rightarrow> bool option" where
  "parse_bool s =
     (if s \<in> set [''1'', ''t'', ''T'', ''TRUE'', ''true'', ''True''] then Some True
      else if s \<in> set [''0'', ''f'', ''F'', ''FALSE'', ''false'', ''False''] then Some False
      else None)"

definition set_default :: "nat \<Rightarrow> config \<Rightarrow> config_error + config" where
  "set_default i c =
     (let d = tag_default (config_tags ! i) in
      if d = [] then Inr c
      else case get_field c i of
        VStr s \<Rightarrow> Inr (if s = [] then set_field c i (VStr d) else c)
      | VInt n \<Rightarrow>
          (case atoi d of
             None \<Rightarrow> Inl (DefaultNotInt d)
           | Some v \<Rightarrow> Inr (if n = 0 then set_field c i (VInt v) else c))
      | VBool _ \<Rightarrow>
          (case parse_bool d of
             None \<Rightarrow> Inl (DefaultNotBool d)
           | Some v \<Rightarrow> Inr (set_field c i (VBool v))))"

fun sum_bind :: "'e + 'a \<Rightarrow> ('a \<Rightarrow> 'e + 'b) \<Rightarrow> 'e + 'b" where
  "sum_bind (Inl e) f = Inl e"
| "sum_bind (Inr x) f = f x"

definition setDefaults :: "config \<Rightarrow> config_error + config" where
  "setDefaults c = foldl (\<lambda>r i. sum_bind r (set_default i)) (Inr c) [0..<length config_tags]"

text \<open>\<open>validate\<close>: \<open>field.String()\<close> of a field that is no string is never empty.\<close>

fun missing_key :: "config \<Rightarrow> nat list \<Rightarrow> config_error option" where
  "missing_key c [] = None"
| "missing_key c (i # is) =
     (if tag_required (config_tags ! i) \<and> get_field c i = VStr []
      then Some (MissingKey (tag_name (config_tags ! i))) else missing_key c is)"

definition validate :: "config \<Rightarrow> config_error option" where
  "validate c = missing_key c [0..<length config_tags]"

text \<open>\<open>configFromFile\<close>: \<open>parse\<close> reads the JSON text, \<open>None\<close> for a syntax error.\<close>

definition configFromFile :: "(byte list \<Rightarrow> json option) \<Rightarrow> byte list \<Rightarrow> config_error + config" where
  "configFromFile parse data =
     sum_bind (setDefaults zero_config) (\<lambda>cfg.
       case parse data of
         None \<Rightarrow> Inl BadJSON
       | Some j \<Rightarrow>
           (case unmarshal_struct config_names (config_values cfg) j of
              (vals, ok) \<Rightarrow>
                if \<not> ok then Inl BadJSON
                else case validate (of_values vals) of
                  Some e \<Rightarrow> Inl e
                | None \<Rightarrow> Inr (of_values vals)))"

subsection \<open>Lemmas\<close>

definition default_config :: config where
  "default_config = zero_config\<lparr>StratumPort := 3232, CertFile := ''server.pem'',
     KeyFile := ''server.key'', StatInterval := 60, ShareValidation := 2\<rparr>"

lemma parse_defaults: "atoi ''3232'' = Some 3232" "atoi ''60'' = Some 60" "atoi ''2'' = Some 2"
  by (simp_all add: atoi_def parse_nat_def is_dec_def from_digits_Cons in_int64_def)

lemma of_values_values [simp]: "of_values (config_values c) = c"
  by (simp add: of_values_def config_values_def)

lemma length_config [simp]: "length (config_values c) = 16" "length config_tags = 16"
  "length config_names = 16"
  by (simp_all add: config_values_def config_tags_def config_names_def)

lemma upt_16: "[0..<16] = [0, 1, 2, 3, 4, 5, 6, 7, 8, 9, 10, 11, 12, 13, 14, 15]"
  by (simp add: upt_rec)

lemma setDefaults_zero: "setDefaults zero_config = Inr default_config"
  by (simp add: setDefaults_def upt_16 set_default_def config_tags_def plain_def get_field_def
      set_field_def config_values_def of_values_def zero_config_def default_config_def parse_defaults)

lemma all_less_16: "(\<forall>i < (16 :: nat). P i) \<longleftrightarrow>
  P 0 \<and> P 1 \<and> P 2 \<and> P 3 \<and> P 4 \<and> P 5 \<and> P 6 \<and> P 7 \<and> P 8 \<and> P 9 \<and> P 10 \<and> P 11 \<and> P 12 \<and> P 13
  \<and> P 14 \<and> P 15"
  by (simp add: numeral_eq_Suc All_less_Suc2)

lemma validate_iff: "validate c = (if PoolAddr c = [] then Some (MissingKey ''PoolAddr'') else None)"
  by (simp add: validate_def upt_16 config_tags_def plain_def get_field_def config_values_def)

lemma same_kind_as: "same_kind (VBool a) w \<Longrightarrow> VBool (as_bool w) = w"
  "same_kind (VInt i) w \<Longrightarrow> VInt (as_int w) = w" "same_kind (VStr s) w \<Longrightarrow> VStr (as_str w) = w"
  by (cases w; simp)+

lemma values_of_values:
  assumes "length ws = 16" and "\<forall>i < 16. same_kind (config_values c ! i) (ws ! i)"
  shows "config_values (of_values ws) = ws"
proof (rule nth_equalityI)
  have "\<forall>i < 16. config_values (of_values ws) ! i = ws ! i"
    using assms(2) unfolding all_less_16
    by (simp add: config_values_def of_values_def) (elim conjE, intro conjI; erule same_kind_as)
  then show "\<And>i. i < length (config_values (of_values ws)) \<Longrightarrow> config_values (of_values ws) ! i = ws ! i"
    by simp
qed (simp add: assms)

lemma configFromFile_eq:
  "configFromFile parse data =
     (case parse data of
        None \<Rightarrow> Inl BadJSON
      | Some j \<Rightarrow>
          (case unmarshal_struct config_names (config_values default_config) j of
             (vals, ok) \<Rightarrow>
               if \<not> ok then Inl BadJSON
               else if PoolAddr (of_values vals) = [] then Inl (MissingKey ''PoolAddr'')
               else Inr (of_values vals)))"
  by (simp add: configFromFile_def setDefaults_zero validate_iff split: option.splits prod.splits)

lemma configFromFile_object:
  assumes "parse data = Some (JObj kvs)" and "configFromFile parse data = Inr c"
  shows "foldl (unmarshal_member config_names) (config_values default_config, True) kvs
           = (config_values c, True) \<and> PoolAddr c \<noteq> []"
proof -
  obtain ws ok where ws: "foldl (unmarshal_member config_names) (config_values default_config, True) kvs
      = (ws, ok)" by force
  have "length ws = 16" "\<forall>i < 16. same_kind (config_values default_config ! i) (ws ! i)"
    using unmarshal_struct_kinds [OF ws] by simp_all
  then have "config_values (of_values ws) = ws" by (rule values_of_values)
  with ws assms show ?thesis by (auto simp: configFromFile_eq split: if_splits)
qed

subsection \<open>Properties\<close>

text \<open>
  C37: A configuration that loads from a JSON object has in every field the last value the object
  gives for it under its name in any capitalisation, \<open>null\<close> not counting as a value, and
  otherwise the default: port 3232, the certificate files \<open>server.pem\<close> and \<open>server.key\<close>, stats
  every 60 seconds, validation level 2, and zero for the rest. The pool address is never empty.
\<close>

theorem config_file_values:
  assumes "parse data = Some (JObj kvs)" and "configFromFile parse data = Inr c" and "i < 16"
  shows "(case member_of config_names i kvs of
            None \<Rightarrow> get_field c i = get_field default_config i
          | Some j \<Rightarrow> unmarshal_field (get_field default_config i) j = Some (get_field c i))
         \<and> PoolAddr c \<noteq> []"
  using unmarshal_struct_values [of config_names "config_values default_config" kvs "config_values c" i]
    configFromFile_object [OF assms(1,2)] assms(3)
  unfolding get_field_def by simp

definition sample_json :: json where
  "sample_json = JObj [(''url'', JStr ''pool:1''), (''validateshares'', JNum ''0''), (''STATS'', JNull)]"

lemma sample_config:
  "configFromFile (\<lambda>_. Some sample_json) [] =
     Inr (default_config\<lparr>PoolAddr := ''pool:1'', ShareValidation := 0\<rparr>)"
  by (simp add: configFromFile_eq sample_json_def unmarshal_member_def find_field_def config_names_def
      config_tags_def plain_def config_values_def of_values_def default_config_def zero_config_def
      lower_char_def atoi_def parse_nat_def is_dec_def from_digits_Cons in_int64_def)

theorem config_file_values_witness:
  "get_field (default_config\<lparr>PoolAddr := ''pool:1'', ShareValidation := 0\<rparr>) 7 = VInt 0"
proof -
  have "member_of config_names 7
      [(''url'', JStr ''pool:1''), (''validateshares'', JNum ''0''), (''STATS'', JNull)] = Some (JNum ''0'')"
    by (simp add: find_field_def config_names_def config_tags_def plain_def lower_char_def)
  then show ?thesis
    using config_file_values [OF _ sample_config, of _ 7]
    by (simp add: sample_json_def get_field_def config_values_def default_config_def zero_config_def
        atoi_def parse_nat_def is_dec_def from_digits_Cons in_int64_def)
qed

end
