(* ===== verification/Logger.thy ===== *)
theory Logger
  imports Config
begin

text \<open>
  \<open>server/logger/logger.go\<close> and \<open>setupLogger\<close> of \<open>server/main.go\<close>: how the configuration decides
  where log lines go and which are kept. A writer is where its bytes end up; \<open>io.MultiWriter\<close> of
  standard output and a file is \<open>StdoutAndFile\<close>. What \<open>os\<close> says about the log file is the
  argument \<open>stat_ok\<close> (it exists) and \<open>open_ok\<close> (opening or creating it succeeds); \<open>log.Fatal\<close>
  ends the process. The singleton is created on the first \<open>Get\<close> and keeps what the configuration
  was then.
\<close>

datatype writer = Stdout | DiscardWriter | StdoutAndFile string

definition Level_Info :: int where "Level_Info = 0"
definition Level_Debug :: int where "Level_Debug = 1"
definition LstdFlags :: int where "LstdFlags = 3"

record logger_config =
  W :: "writer option"
  Flag :: int
  Level :: int
  Discard :: bool

record logger =
  l_out :: "writer option"
  l_prefix :: string
  l_flag :: int
  l_Level :: int

record log_state =
  ls_config :: logger_config
  ls_instance :: "logger option"

definition initial_log_state :: log_state where
  "initial_log_state =
     \<lparr>ls_config = \<lparr>W = Some Stdout, Flag = LstdFlags, Level = Level_Info, Discard = False\<rparr>,
      ls_instance = None\<rparr>"

definition Configure :: "logger_config \<Rightarrow> log_state \<Rightarrow> log_state" where
  "Configure c st =
     (let cfg = ls_config st;
          cfg = (if Discard c then cfg\<lparr>Discard := Discard c, W := Some DiscardWriter\<rparr> else cfg);
          cfg = (if W c \<noteq> None then cfg\<lparr>W := W c\<rparr> else cfg);
          cfg = (if Flag c \<noteq> 0 then cfg\<lparr>Flag := Flag c\<rparr> else cfg);
          cfg = cfg\<lparr>Level := Level c\<rparr>
      in st\<lparr>ls_config := cfg\<rparr>)"

definition New :: "logger_config \<Rightarrow> logger" where
  "New c = \<lparr>l_out = W c, l_prefix = ''[XDAG_PROXY] '', l_flag = Flag c, l_Level = Level c\<rparr>"

definition Get :: "log_state \<Rightarrow> logger \<times> log_state" where
  "Get st =
     (case ls_instance st of
        Some l \<Rightarrow> (l, st)
      | None \<Rightarrow> let l = New (ls_config st) in (l, st\<lparr>ls_instance := Some l\<rparr>))"

text \<open>\<open>Debug\<close>, \<open>Debugf\<close> and \<open>Debugln\<close> differ in the formatting only: the line, or nothing.\<close>

definition Debug_line :: "logger \<Rightarrow> string \<Rightarrow> string option" where
  "Debug_line l line = (if l_Level l < Level_Debug then None else Some line)"

text \<open>\<open>setupLogger\<close>; \<open>None\<close> is \<open>log.Fatal\<close>.\<close>

datatype log_file = Opened string | Created string

definition open_log :: "(string \<Rightarrow> bool) \<Rightarrow> (string \<Rightarrow> bool) \<Rightarrow> string \<Rightarrow> log_file option" where
  "open_log stat_ok open_ok f =
     (if stat_ok f then (if open_ok f then Some (Opened f) else None)
      else if open_ok f then Some (Created f) else None)"

definition setupLogger ::
    "(string \<Rightarrow> bool) \<Rightarrow> (string \<Rightarrow> bool) \<Rightarrow> config \<Rightarrow> log_state \<Rightarrow> (log_file option \<times> log_state) option" where
  "setupLogger stat_ok open_ok c st =
     (let lc = \<lparr>W = None, Flag = 0, Level = Level_Info, Discard = False\<rparr>;
          lc = (if config.Debug c then lc\<lparr>Level := Level_Debug\<rparr> else lc)
      in case (if LogFile c \<noteq> [] then map_option Some (open_log stat_ok open_ok (LogFile c)) else Some None) of
           None \<Rightarrow> None
         | Some file \<Rightarrow>
             (let lc = (if file \<noteq> None then lc\<lparr>W := Some (StdoutAndFile (LogFile c))\<rparr> else lc);
                  lc = (if DiscardLog c then lc\<lparr>Discard := True\<rparr> else lc)
              in Some (file, snd (Get (Configure lc st)))))"

subsection \<open>Properties\<close>

text \<open>
  After \<open>setupLogger\<close> on a fresh process the log goes to standard output and the configured
  file when there is one, even if \<open>nolog\<close> is set too; without a file it is discarded when
  \<open>nolog\<close> is set and goes to standard output otherwise. Debug lines are kept exactly under
  \<open>debug\<close>. The process ends exactly when a configured file cannot be opened or created.
\<close>

theorem logger_setup:
  "(if LogFile c \<noteq> [] \<and> \<not> open_ok (LogFile c)
    then setupLogger stat_ok open_ok c initial_log_state = None
    else \<exists>file st l. setupLogger stat_ok open_ok c initial_log_state = Some (file, st)
      \<and> Get st = (l, st)
      \<and> l_out l = Some (if LogFile c \<noteq> [] then StdoutAndFile (LogFile c)
                         else if DiscardLog c then DiscardWriter else Stdout)
      \<and> l_flag l = LstdFlags
      \<and> (Debug_line l line = Some line \<longleftrightarrow> config.Debug c))"
  by (auto simp: setupLogger_def open_log_def Configure_def Get_def New_def initial_log_state_def
      Debug_line_def Level_Debug_def Level_Info_def Let_def)

end
