(* ===== verification/Uniuri.thy ===== *)
theory Uniuri
  imports GoLib
begin

text \<open>
  \<open>server/proxy/uniuri.go\<close>: random strings over an alphabet, used for job ids. The random source
  is the list of what the successive calls of \<open>rand.Read\<close> return, \<open>None\<close> for an error; the
  function returns \<open>None\<close> when it needs more calls than the list holds.
\<close>

definition StdLen :: nat where "StdLen = 16"
definition UUIDLen :: nat where "UUIDLen = 20"

definition StdChars :: "byte list" where
  "StdChars = str_bytes ''ABCDEFGHIJKLMNOPQRSTUVWXYZabcdefghijklmnopqrstuvwxyz0123456789''"

definition maxrb :: "nat \<Rightarrow> nat" where
  "maxrb clen = 255 - 256 mod clen"

text \<open>The loop over one block: the buffer, the number of characters filled in, and whether the
  buffer is full.\<close>

fun fill_block :: "byte list \<Rightarrow> byte list \<Rightarrow> byte list \<Rightarrow> nat \<Rightarrow> byte list \<times> nat \<times> bool" where
  "fill_block chars [] b i = (b, i, False)"
| "fill_block chars (rb # r) b i =
     (let c = unat rb in
      if maxrb (length chars) < c then fill_block chars r b i
      else
        let b = b[i := chars ! (c mod length chars)]; i = i + 1 in
        if i = length b then (b, i, True) else fill_block chars r b i)"

fun fill_blocks :: "byte list \<Rightarrow> byte list option list \<Rightarrow> byte list \<Rightarrow> nat \<Rightarrow> byte list go option" where
  "fill_blocks chars [] b i = None"
| "fill_blocks chars (None # rs) b i = Some Panic"
| "fill_blocks chars (Some r # rs) b i =
     (case fill_block chars r b i of
        (b, i, True) \<Rightarrow> Some (Ret b)
      | (b, i, False) \<Rightarrow> fill_blocks chars rs b i)"

definition NewLenChars :: "int \<Rightarrow> byte list \<Rightarrow> byte list option list \<Rightarrow> byte list go option" where
  "NewLenChars len chars rs =
     (if len = 0 then Some (Ret [])
      else if length chars < 2 \<or> 256 < length chars then Some Panic
      else if len < 0 then Some Panic
      else fill_blocks chars rs (replicate (nat len) 0) 0)"

definition NewLen :: "int \<Rightarrow> byte list option list \<Rightarrow> byte list go option" where
  "NewLen len rs = NewLenChars len StdChars rs"

subsection \<open>Lemmas\<close>

definition accepted :: "nat \<Rightarrow> byte list \<Rightarrow> byte list" where
  "accepted clen bs = filter (\<lambda>b. unat b \<le> maxrb clen) bs"

definition pick :: "byte list \<Rightarrow> byte \<Rightarrow> byte" where
  "pick chars b = chars ! (unat b mod length chars)"

lemma accepted_append [simp]: "accepted n (xs @ ys) = accepted n xs @ accepted n ys"
  by (simp add: accepted_def)

lemma fill_block_spec:
  assumes "i < length b" and "take i b = map (pick chars) acc" and "length acc = i"
  shows "(let acc' = acc @ accepted (length chars) r in
          if length b \<le> length acc'
          then \<exists>j. fill_block chars r b i = (map (pick chars) (take (length b) acc'), j, True)
          else \<exists>b'. fill_block chars r b i = (b', length acc', False) \<and> length b' = length b
            \<and> take (length acc') b' = map (pick chars) acc')"
  using assms
proof (induction r arbitrary: b i acc)
  case Nil
  then show ?case by (simp add: accepted_def)
next
  case (Cons rb r)
  show ?case
  proof (cases "maxrb (length chars) < unat rb")
    case True
    then have "accepted (length chars) (rb # r) = accepted (length chars) r"
      "fill_block chars (rb # r) b i = fill_block chars r b i"
      by (simp_all add: accepted_def)
    with Cons.IH [OF Cons.prems] show ?thesis by (simp only:)
  next
    case False
    let ?b = "b[i := pick chars rb]"
    have t: "take (Suc i) ?b = map (pick chars) (acc @ [rb])"
      using Cons.prems by (simp add: take_Suc_conv_app_nth)
    have acc: "accepted (length chars) (rb # r) = rb # accepted (length chars) r"
      using False by (simp add: accepted_def)
    show ?thesis
    proof (cases "Suc i = length b")
      case True
      with t have b: "?b = map (pick chars) (acc @ [rb])" by simp
      have "fill_block chars (rb # r) b i = (?b, Suc i, True)"
        using False True by (simp add: Let_def pick_def)
      moreover have "length b - i = 1" using True by simp
      ultimately show ?thesis using acc Cons.prems True b by (simp add: Let_def)
    next
      case nf: False
      with False have step: "fill_block chars (rb # r) b i = fill_block chars r ?b (Suc i)"
        by (simp add: Let_def pick_def)
      have "Suc i < length ?b" "length (acc @ [rb]) = Suc i" using Cons.prems nf by simp_all
      from Cons.IH [OF this(1) t this(2)] show ?thesis
        by (simp only: step acc append_assoc append_Cons append_Nil length_list_update)
    qed
  qed
qed

lemma fill_blocks_spec:
  assumes "i < length b" and "take i b = map (pick chars) acc" and "length acc = i"
  shows "fill_blocks chars (map Some rs) b i =
    (let acc' = acc @ accepted (length chars) (concat rs) in
     if length b \<le> length acc' then Some (Ret (map (pick chars) (take (length b) acc'))) else None)"
  using assms
proof (induction rs arbitrary: b i acc)
  case Nil
  then show ?case by (simp add: accepted_def)
next
  case (Cons r rs)
  let ?acc = "acc @ accepted (length chars) r"
  show ?case
  proof (cases "length b \<le> length ?acc")
    case True
    with fill_block_spec [OF Cons.prems, of r] obtain j where
      "fill_block chars r b i = (map (pick chars) (take (length b) ?acc), j, True)" by auto
    with True show ?thesis by simp
  next
    case False
    with fill_block_spec [OF Cons.prems, of r] obtain b' where
      b': "fill_block chars r b i = (b', length ?acc, False)" "length b' = length b"
        "take (length ?acc) b' = map (pick chars) ?acc"
      by (auto simp: Let_def)
    with Cons.IH [of "length ?acc" b' ?acc] False show ?thesis by simp
  qed
qed

lemma card_bytes: "card {b :: byte. P (unat b)} = card {n. n < 256 \<and> P n}"
proof -
  have "(unat :: byte \<Rightarrow> nat) ` {b. P (unat b)} = {n. n < 256 \<and> P n}"
  proof (intro equalityI subsetI)
    fix n assume "n \<in> {n. n < 256 \<and> P n}"
    then show "n \<in> unat ` {b :: byte. P (unat b)}"
      by (intro image_eqI [of _ _ "of_nat n"]) auto
  qed auto
  moreover have "inj_on (unat :: byte \<Rightarrow> nat) {b. P (unat b)}"
    by (intro inj_onI) (rule unsigned_word_eqI)
  ultimately show ?thesis by (metis card_image)
qed

lemma card_residue: "k < c \<Longrightarrow> card {n. n < c * q \<and> n mod c = k} = q" for c k q :: nat
proof -
  assume k: "k < c"
  have "{n. n < c * q \<and> n mod c = k} = (\<lambda>i. c * i + k) ` {..<q}"
  proof (intro equalityI subsetI)
    fix n assume n: "n \<in> {n. n < c * q \<and> n mod c = k}"
    then have "n = c * (n div c) + k" by auto
    moreover have "n div c < q" using n by (simp add: less_mult_imp_div_less mult.commute)
    ultimately show "n \<in> (\<lambda>i. c * i + k) ` {..<q}" by blast
  next
    fix n assume "n \<in> (\<lambda>i. c * i + k) ` {..<q}"
    then obtain i where i: "n = c * i + k" "i < q" by auto
    then have "c * Suc i \<le> c * q" by (intro mult_le_mono) simp_all
    with i k show "n \<in> {n. n < c * q \<and> n mod c = k}" by simp
  qed
  moreover have "inj_on (\<lambda>i. c * i + k) {..<q}" using k by (intro inj_onI) simp
  ultimately show ?thesis by (simp add: card_image)
qed

lemma maxrb_bound: "2 \<le> clen \<Longrightarrow> clen \<le> 256 \<Longrightarrow>
  n < 256 \<and> n \<le> maxrb clen \<longleftrightarrow> n < clen * (256 div clen)"
proof -
  assume "2 \<le> clen" "clen \<le> 256"
  have "clen * (256 div clen) + 256 mod clen = 256" by simp
  moreover have "256 mod clen < 256"
    using \<open>2 \<le> clen\<close> \<open>clen \<le> 256\<close> by (metis mod_less_divisor order.strict_trans2 zero_less_numeral less_le_trans)
  ultimately show ?thesis unfolding maxrb_def by linarith
qed

subsection \<open>Properties\<close>

text \<open>
  A random string over 2 to 256 characters is the first \<open>len\<close> bytes of the random source that
  do not exceed \<open>maxrb\<close>, each reduced modulo the number of characters; it is complete as soon
  as the source has yielded that many, however it is cut into blocks. Any other alphabet, and a
  negative length, panic.
\<close>

theorem new_len_chars_spec:
  "NewLenChars len chars (map Some rs) =
     (if len = 0 then Some (Ret [])
      else if length chars < 2 \<or> 256 < length chars \<or> len < 0 then Some Panic
      else
        let bytes = filter (\<lambda>b. unat b \<le> maxrb (length chars)) (concat rs) in
        if nat len \<le> length bytes
        then Some (Ret (map (\<lambda>b. chars ! (unat b mod length chars)) (take (nat len) bytes)))
        else None)"
  using fill_blocks_spec [of 0 "replicate (nat len) 0" chars "[]" rs]
  by (auto simp: NewLenChars_def accepted_def pick_def [abs_def] Let_def)

text \<open>
  C39: The reduction is unbiased: every one of the \<open>clen\<close> characters is chosen by the same number
  of accepted byte values, \<open>256 div clen\<close>.
\<close>

theorem new_len_chars_unbiased:
  assumes "2 \<le> clen" and "clen \<le> 256" and "k < clen"
  shows "card {b :: byte. unat b \<le> maxrb clen \<and> unat b mod clen = k} = 256 div clen"
proof -
  have "{n. n < 256 \<and> n \<le> maxrb clen \<and> n mod clen = k} = {n. n < clen * (256 div clen) \<and> n mod clen = k}"
    using maxrb_bound [OF assms(1,2)] by blast
  then show ?thesis
    using card_bytes [of "\<lambda>n. n \<le> maxrb clen \<and> n mod clen = k"] card_residue [OF assms(3)] by simp
qed

theorem new_len_chars_unbiased_witness:
  "card {b :: byte. unat b \<le> maxrb 62 \<and> unat b mod 62 = 61} = 4"
  using new_len_chars_unbiased [of 62 61] by simp

end
