(* ===== verification/Job.thy ===== *)
theory Job
  imports Uniuri
begin

text \<open>
  \<open>server/proxy/job.go\<close>: mining jobs. A job's blob is 64 bytes: 32 of the task, 24 of the
  account, and an 8-byte nonce whose last four bytes (big-endian) start the range of nonces that a
  miner searches. \<open>job_Next\<close> moves on to the next range. The errors of package \<open>proxy\<close> are
  collected in \<open>proxy_error\<close>.
\<close>

datatype proxy_error =
    ErrBadJobID | ErrDuplicateShare | ErrMalformedShare | ErrMalformedJob | ErrUnknownTargetFormat
  | ErrMalformedShareResult | ErrDiffTooLow | ErrHex hex_error | ErrText string

definition initNonceOffset :: nat where "initNonceOffset = 56"
definition initNonceLength :: nat where "initNonceLength = 8"
definition nonceOffset :: nat where "nonceOffset = 60"
definition nonceLength :: nat where "nonceLength = 4"
definition nonceIncrement :: u32 where "nonceIncrement = 0x02000000"
definition maxNonceValue :: u32 where "maxNonceValue = 0xFFFFFFFF - nonceIncrement"
definition xdagAlgo :: string where "xdagAlgo = ''rx/xdag''"

record job =
  j_Blob :: string
  j_ID :: string
  j_Target :: string
  j_SeedHash :: string
  j_Algo :: string
  j_initialNonce :: u32
  j_currentBlob :: "byte list"
  j_currentNonce :: u32

text \<open>\<open>&Job{}\<close>\<close>

definition empty_job :: job where
  "empty_job = \<lparr>j_Blob = [], j_ID = [], j_Target = [], j_SeedHash = [], j_Algo = [],
     j_initialNonce = 0, j_currentBlob = [], j_currentNonce = 0\<rparr>"

text \<open>\<open>Next\<close> changes the receiver's nonce and returns a new job: both are results.\<close>

definition next_nonce :: "u32 \<Rightarrow> u32" where
  "next_nonce n = (let n = n + nonceIncrement in if maxNonceValue \<le> n then 1 else n)"

definition job_Next :: "job \<Rightarrow> job \<times> job" where
  "job_Next j =
     (let j = j\<lparr>j_currentNonce := next_nonce (j_currentNonce j)\<rparr>;
          nonceBytes = be_put nonceLength (j_currentNonce j);
          blob = go_copy (replicate 64 0) (j_currentBlob j);
          blob = copy_at nonceOffset (nonceOffset + nonceLength) blob nonceBytes
      in (j, \<lparr>j_Blob = hex_encode blob, j_ID = j_ID j, j_Target = j_Target j,
              j_SeedHash = j_SeedHash j, j_Algo = xdagAlgo, j_initialNonce = j_initialNonce j,
              j_currentBlob = blob, j_currentNonce = j_currentNonce j\<rparr>))"

definition getTargetUint64 :: "job \<Rightarrow> (proxy_error + u64) go" where
  "getTargetUint64 j =
     (let target = j_Target j;
          target = (if length target = 8 then ''00000000'' @ target else target)
      in if length target \<noteq> 16 then Ret (Inl ErrUnknownTargetFormat)
         else case hex_decode target of
           (_, Some e) \<Rightarrow> Ret (Inl (ErrHex e))
         | (targetBytes, None) \<Rightarrow> go_bind (le_uint64 targetBytes) (\<lambda>t. Ret (Inr t)))"

text \<open>
  \<open>createFakeJob\<close>: \<open>b\<close> is the 64-byte buffer after \<open>rand.Read\<close>, \<open>err\<close> whether that failed and
  \<open>suffix\<close> the result of \<open>NewLen(18)\<close>.
\<close>

definition fallbackBlob :: string where
  "fallbackBlob = ''070780e6b9d60586ba419a0c224e3c6c3e134cc45c4fa04d8ee2d91c2595463c'' @
     ''57eef0a4f0796c000000002fcc4d62fa6c77e76c30017c768be5c61d83ec9d3a''"

definition createFakeJob :: "byte list \<Rightarrow> bool \<Rightarrow> string \<Rightarrow> job" where
  "createFakeJob b err suffix =
     (let blob = (if err then fallbackBlob else []);
          blob = hex_encode b
      in empty_job\<lparr>j_ID := ''FFFFFFFFFF'' @ suffix, j_Target := ''b88d0600'', j_Algo := xdagAlgo,
           j_Blob := blob,
           j_SeedHash := ''e1364b8782719d7683e2ccd3d8f724bc59dfa780a9e960e7c0e0046acdb40100''\<rparr>)"

subsection \<open>Lemmas\<close>

lemmas job_consts = initNonceOffset_def initNonceLength_def nonceOffset_def nonceLength_def
  nonceIncrement_def maxNonceValue_def

text \<open>A job as miners see it: the hex of its blob, whose last four bytes are its nonce.\<close>

definition job_wf :: "job \<Rightarrow> bool" where
  "job_wf j \<longleftrightarrow> length (j_currentBlob j) = 64 \<and> j_Blob j = hex_encode (j_currentBlob j) \<and>
     drop 60 (j_currentBlob j) = be_put 4 (j_currentNonce j)"

lemma job_Next_blob:
  "j_currentBlob (snd (job_Next j)) =
     take 60 (go_copy (replicate 64 0) (j_currentBlob j)) @ be_put 4 (next_nonce (j_currentNonce j))"
proof -
  let ?b = "go_copy (replicate 64 0) (j_currentBlob j)"
  have "copy_at 60 64 ?b (be_put 4 n) = take 60 ?b @ be_put 4 n @ drop 64 ?b" for n :: u32
    by (rule copy_at_exact) simp_all
  then show ?thesis by (simp add: job_Next_def Let_def job_consts)
qed

lemma job_Next_wf: "job_wf (snd (job_Next j))"
proof -
  have "drop 60 (j_currentBlob (snd (job_Next j))) = be_put 4 (next_nonce (j_currentNonce j))"
    "length (j_currentBlob (snd (job_Next j))) = 64"
    by (simp_all add: job_Next_blob)
  then show ?thesis by (simp add: job_wf_def job_Next_def Let_def)
qed

lemma job_Next_simps [simp]:
  "j_currentNonce (snd (job_Next j)) = next_nonce (j_currentNonce j)"
  "j_ID (snd (job_Next j)) = j_ID j" "j_Target (snd (job_Next j)) = j_Target j"
  "j_SeedHash (snd (job_Next j)) = j_SeedHash j" "j_Algo (snd (job_Next j)) = xdagAlgo"
  "j_initialNonce (snd (job_Next j)) = j_initialNonce j"
  by (simp_all add: job_Next_def Let_def)

lemma next_nonce_room: "unat (next_nonce n) + 0x02000000 \<le> 0xFFFFFFFF"
proof -
  have "next_nonce n < maxNonceValue" by (auto simp: next_nonce_def Let_def job_consts not_le)
  then have "unat (next_nonce n) < unat maxNonceValue" by (simp only: word_less_nat_alt)
  then show ?thesis by (simp add: job_consts)
qed

lemma next_nonce_iterate: "unat ((next_nonce ^^ k) 1) = 1 + (k mod 127) * 0x02000000"
proof (induction k)
  case 0
  then show ?case by simp
next
  case (Suc k)
  let ?n = "(next_nonce ^^ k) 1" and ?m = "k mod 127"
  have m: "?m \<le> 126" by (simp add: less_Suc_eq_le [symmetric])
  have inc: "unat nonceIncrement = 33554432" "unat maxNonceValue = 4261412863"
    by (simp_all add: job_consts)
  have "unat ?n + unat nonceIncrement < 2 ^ 32" using Suc m inc by simp
  then have "unat (?n + nonceIncrement) = unat ?n + unat nonceIncrement"
    using unat_add_lem [of ?n nonceIncrement] by simp
  then have sum: "unat (?n + nonceIncrement) = 1 + (?m + 1) * 33554432" using Suc inc by simp
  have le: "maxNonceValue \<le> ?n + nonceIncrement \<longleftrightarrow> 4261412863 \<le> 1 + (?m + 1) * 33554432"
    by (simp only: word_le_nat_alt sum inc)
  have "next_nonce ?n = (if ?m = 126 then 1 else ?n + nonceIncrement)"
    using m le by (auto simp: next_nonce_def)
  moreover have "Suc k mod 127 = (if ?m = 126 then 0 else ?m + 1)" by (simp add: mod_Suc)
  ultimately show ?case using sum by simp
qed

lemma replicate_4_zeros: "replicate 4 (0 :: byte) = [0, 0, 0, 0]"
  by (simp add: numeral_eq_Suc)

lemma hex_byte_zero: "hex_byte 0 = ''00''"
  by (simp add: hex_byte_def hex_digit_def)

lemma from_digits_rev_zeros:
  "from_digits 256 (map unat (rev (replicate n 0 @ bs))) = from_digits 256 (map unat (rev bs)) * 256 ^ n"
  for bs :: "byte list"
  by (simp add: from_digits_append)

lemma le_get_high_word:
  assumes "length b = 4"
  shows "(le_get (replicate 4 0 @ b) :: u64) = of_nat (unat (le_get b :: u32) * 2 ^ 32)"
proof -
  have "from_digits 256 (map unat (rev b)) < 256 ^ 4"
    using from_digits_bound [of "map unat (rev b)" 256] assms by simp
  then have "unat (le_get b :: u32) = from_digits 256 (map unat (rev b))"
    by (simp add: le_get_def be_get_def unat_of_nat)
  then show ?thesis
    by (simp only: le_get_def be_get_def from_digits_rev_zeros) simp
qed

subsection \<open>Properties\<close>

text \<open>
  The next job keeps the task, the account and the identity of a job; its blob is the hex of
  64 bytes whose last four are its nonce, big-endian, and the range of 32M nonces that starts
  there does not wrap around 32 bits.
\<close>

theorem next_job_blob:
  "let n = snd (job_Next j) in
     hex_decode (j_Blob n) = (j_currentBlob n, None) \<and> length (j_currentBlob n) = 64
     \<and> take 60 (j_currentBlob n) = take 60 (go_copy (replicate 64 0) (j_currentBlob j))
     \<and> be_get (drop 60 (j_currentBlob n)) = j_currentNonce n
     \<and> j_currentNonce n = j_currentNonce (fst (job_Next j))
     \<and> unat (j_currentNonce n) + 0x02000000 \<le> 0xFFFFFFFF
     \<and> j_ID n = j_ID j \<and> j_Target n = j_Target j \<and> j_SeedHash n = j_SeedHash j"
proof -
  let ?n = "snd (job_Next j)"
  have wf: "length (j_currentBlob ?n) = 64" "j_Blob ?n = hex_encode (j_currentBlob ?n)"
      "drop 60 (j_currentBlob ?n) = be_put 4 (j_currentNonce ?n)"
    using job_Next_wf [of j] by (simp_all add: job_wf_def)
  have "take 60 (j_currentBlob ?n) = take 60 (go_copy (replicate 64 0) (j_currentBlob j))"
    by (simp add: job_Next_blob)
  moreover have "be_get (drop 60 (j_currentBlob ?n)) = j_currentNonce ?n"
    unfolding wf(3) by (rule be_get_put) simp
  moreover have "j_currentNonce ?n = j_currentNonce (fst (job_Next j))"
    by (simp add: job_Next_def Let_def)
  ultimately show ?thesis
    using wf(1,2) next_nonce_room [of "j_currentNonce j"] by (simp add: Let_def)
qed

text \<open>
  C34: From nonce 1 on, successive jobs walk through 127 disjoint ranges of 32M nonces, in order,
  before the first range comes again.
\<close>

theorem next_job_ranges:
  "unat (j_currentNonce (((snd \<circ> job_Next) ^^ k) (j\<lparr>j_currentNonce := 1\<rparr>))) = 1 + (k mod 127) * 0x02000000"
proof -
  have "j_currentNonce (((snd \<circ> job_Next) ^^ k) i) = (next_nonce ^^ k) (j_currentNonce i)" for i
    by (induction k) simp_all
  then show ?thesis by (simp add: next_nonce_iterate)
qed

text \<open>
  The 64-bit target of a job whose target is the hex of four bytes is the little-endian number
  of those bytes in the upper half; exactly the targets of another length than 8 or 16 characters
  are refused as an unknown format, and nothing panics.
\<close>

theorem target_uint64:
  "getTargetUint64 (j\<lparr>j_Target := hex_encode (le_put 4 (w :: u32))\<rparr>)
      = Ret (Inr (of_nat (unat w * 2 ^ 32)))
   \<and> (getTargetUint64 j = Ret (Inl ErrUnknownTargetFormat) \<longleftrightarrow> length (j_Target j) \<notin> {8, 16})
   \<and> returns (getTargetUint64 j)"
proof (intro conjI)
  let ?b = "le_put 4 w"
  have b: "length ?b = 4" by simp
  let ?t = "hex_encode (replicate 4 0 @ ?b)"
  have t: "''00000000'' @ hex_encode ?b = ?t"
    by (simp add: replicate_4_zeros hex_byte_zero)
  have dec: "hex_decode ?t = (replicate 4 0 @ ?b, None)" by (rule hex_decode_encode)
  have "getTargetUint64 (j\<lparr>j_Target := hex_encode ?b\<rparr>)
      = go_bind (le_uint64 (replicate 4 0 @ ?b)) (\<lambda>t. Ret (Inr t))"
  proof -
    have "j_Target (j\<lparr>j_Target := hex_encode ?b\<rparr>) = hex_encode ?b" "length (hex_encode ?b) = 8"
      "length ?t = 16" by simp_all
    then show ?thesis
      unfolding getTargetUint64_def Let_def
      by (simp only: t dec if_True if_False simp_thms prod.case option.case)
  qed
  also have "\<dots> = Ret (Inr (le_get (replicate 4 0 @ ?b)))" by (simp add: le_uint64_def)
  also have "(le_get (replicate 4 0 @ ?b) :: u64) = of_nat (unat (le_get ?b :: u32) * 2 ^ 32)"
    by (rule le_get_high_word [OF b])
  also have "(le_get ?b :: u32) = w" by (rule le_get_put) simp
  finally show "getTargetUint64 (j\<lparr>j_Target := hex_encode ?b\<rparr>) = Ret (Inr (of_nat (unat w * 2 ^ 32)))" .
next
  let ?t = "if length (j_Target j) = 8 then ''00000000'' @ j_Target j else j_Target j"
  obtain bs e where d: "hex_decode ?t = (bs, e)" by force
  have "e = None \<Longrightarrow> length ?t = 2 * length bs"
    using hex_decode_length [of ?t] unfolding d by simp
  then have len: "length ?t = 16 \<Longrightarrow> e = None \<Longrightarrow> \<not> length bs < 8" by linarith
  then show "returns (getTargetUint64 j)"
    unfolding getTargetUint64_def Let_def d by (cases e) (simp_all add: le_uint64_def)
  have "length ?t = 16 \<longleftrightarrow> length (j_Target j) \<in> {8, 16}" by auto
  with len show "getTargetUint64 j = Ret (Inl ErrUnknownTargetFormat) \<longleftrightarrow> length (j_Target j) \<notin> {8, 16}"
    unfolding getTargetUint64_def Let_def d by (cases e) (auto simp: le_uint64_def)
qed

end
