(* ===== verification/Share.thy ===== *)
theory Share
  imports Job Config
begin

text \<open>
  \<open>server/proxy/share.go\<close>: a share as a miner submits it and its validation. The parameters of a
  request are a map to Go's \<open>interface{}\<close>: what \<open>encoding/json\<close> puts there, and the context that
  the codec adds. The channels of a share, which carry the response, belong to the proxy's model.
\<close>

datatype param = PJson json | PCtx

type_synonym params = "string \<rightharpoonup> param"

text \<open>The type assertion \<open>x.(string)\<close>.\<close>

fun as_string :: "param \<Rightarrow> string go" where
  "as_string (PJson (JStr s)) = Ret s"
| "as_string _ = Panic"

lemma as_string_Ret_iff: "as_string p = Ret s \<longleftrightarrow> p = PJson (JStr s)"
  by (cases p rule: as_string.cases) auto

lemma as_string_Ret_or_Panic [simp]: "as_string p \<noteq> Deadlock" "as_string p \<noteq> Exit"
  by (cases p rule: as_string.cases; simp)+

definition ValidateNormal :: int where "ValidateNormal = 1"
definition ValidateFormat :: int where "ValidateFormat = 2"
definition ValidateDiff :: int where "ValidateDiff = 3"
definition ValidateFull :: int where "ValidateFull = 4"

definition shareValueOffset :: nat where "shareValueOffset = 24"
definition shareValueLength :: nat where "shareValueLength = 8"

record share =
  s_AuthID :: string
  s_JobID :: string
  s_Nonce :: string
  s_Result :: string

text \<open>A parameter that is there must be a string; one that is not leaves the field empty.\<close>

definition opt_string :: "params \<Rightarrow> string \<Rightarrow> string go" where
  "opt_string ps k = (case ps k of None \<Rightarrow> Ret [] | Some v \<Rightarrow> as_string v)"

definition newShare :: "params \<Rightarrow> share go" where
  "newShare ps =
     go_bind (opt_string ps ''job_id'') (\<lambda>jobID.
     go_bind (opt_string ps ''nonce'') (\<lambda>nonce.
     go_bind (opt_string ps ''result'') (\<lambda>result.
       Ret \<lparr>s_AuthID = [], s_JobID = jobID, s_Nonce = nonce, s_Result = result\<rparr>)))"

definition validateFormat :: "share \<Rightarrow> proxy_error option" where
  "validateFormat s =
     (if length (s_Nonce s) \<noteq> 8 \<or> length (s_Result s) \<noteq> 64 then Some ErrMalformedShare
      else case hex_decode (s_Nonce s) of
        (_, Some e) \<Rightarrow> Some (ErrHex e)
      | (_, None) \<Rightarrow>
          (case hex_decode (s_Result s) of
             (_, Some e) \<Rightarrow> Some (ErrHex e)
           | (_, None) \<Rightarrow> None))"

text \<open>\<open>validateDifficulty\<close> returns before its code; \<open>validateResult\<close> is a stub in the source.\<close>

definition validateDifficulty :: "share \<Rightarrow> job \<Rightarrow> proxy_error option" where
  "validateDifficulty s j = None"

definition validateResult :: "share \<Rightarrow> job \<Rightarrow> proxy_error option" where
  "validateResult s j = None"

definition share_validate :: "int \<Rightarrow> share \<Rightarrow> job \<Rightarrow> proxy_error option" where
  "share_validate validateLevel s j =
     (case (if ValidateFormat \<le> validateLevel then validateFormat s else None) of
        Some err \<Rightarrow> Some err
      | None \<Rightarrow>
          (case (if ValidateDiff \<le> validateLevel then validateDifficulty s j else None) of
             Some err \<Rightarrow> Some err
           | None \<Rightarrow> if ValidateFull \<le> validateLevel then validateResult s j else None))"

definition getResultUint64 :: "share \<Rightarrow> (proxy_error + u64) go" where
  "getResultUint64 s =
     (case hex_decode (s_Result s) of
        (_, Some e) \<Rightarrow> Ret (Inl (ErrHex e))
      | (resultBytes, None) \<Rightarrow>
          if length resultBytes < shareValueOffset + shareValueLength
          then Ret (Inl ErrMalformedShareResult)
          else
            go_bind (slice resultBytes (int shareValueOffset) (int (shareValueOffset + shareValueLength)))
              (\<lambda>valueBytes. go_bind (le_uint64 valueBytes) (\<lambda>v. Ret (Inr v))))"

subsection \<open>Lemmas\<close>

text \<open>A share whose nonce is the hex of 4 bytes and whose result is the hex of 32.\<close>

definition well_formed_share :: "share \<Rightarrow> bool" where
  "well_formed_share s \<longleftrightarrow>
     snd (hex_decode (s_Nonce s)) = None \<and> length (fst (hex_decode (s_Nonce s))) = 4 \<and>
     snd (hex_decode (s_Result s)) = None \<and> length (fst (hex_decode (s_Result s))) = 32"

lemma validateFormat_iff: "validateFormat s = None \<longleftrightarrow> well_formed_share s"
  using hex_decode_length [of "s_Nonce s"] hex_decode_length [of "s_Result s"]
  by (auto simp: validateFormat_def well_formed_share_def split: prod.split option.split)

lemma share_validate_eq:
  "share_validate lvl s j = (if 2 \<le> lvl then validateFormat s else None)"
  by (simp add: share_validate_def ValidateFormat_def validateDifficulty_def validateResult_def
      split: option.split)

lemma newShare_Ret_iff:
  "newShare ps = Ret s \<longleftrightarrow>
     opt_string ps ''job_id'' = Ret (s_JobID s) \<and> opt_string ps ''nonce'' = Ret (s_Nonce s)
     \<and> opt_string ps ''result'' = Ret (s_Result s) \<and> s_AuthID s = []"
  by (cases s) (auto simp: newShare_def go_bind_eq_Ret_iff)

lemma opt_string_returns:
  "returns (opt_string ps k) \<longleftrightarrow> (\<forall>v. ps k = Some v \<longrightarrow> (\<exists>t. v = PJson (JStr t)))"
  by (auto simp: opt_string_def returns_iff as_string_Ret_iff split: option.split)

text \<open>A parameter that is there and is no string, and the string of one that is.\<close>

fun not_string :: "param option \<Rightarrow> bool" where
  "not_string None = False"
| "not_string (Some (PJson (JStr _))) = False"
| "not_string (Some _) = True"

fun string_or_empty :: "param option \<Rightarrow> string" where
  "string_or_empty (Some (PJson (JStr s))) = s"
| "string_or_empty _ = []"

lemma opt_string_cases:
  "opt_string ps k = (if not_string (ps k) then Panic else Ret (string_or_empty (ps k)))"
  by (cases "ps k" rule: not_string.cases) (simp_all add: opt_string_def)

subsection \<open>Properties\<close>

text \<open>
  Validation accepts every share below level 2; from level 2 on it accepts exactly the shares
  with 8 hex digits of nonce and 64 of result, and the levels above 2 check nothing more. The value
  of a result of at least 32 bytes is the little-endian number in bytes 24 to 31, a shorter one is
  refused, and reading it never panics.
\<close>

theorem share_validation:
  "(share_validate lvl s j = None \<longleftrightarrow> lvl < 2 \<or> well_formed_share s)
   \<and> getResultUint64 (s\<lparr>s_Result := hex_encode r\<rparr>) =
        Ret (if 32 \<le> length r then Inr (le_get (take 8 (drop 24 r))) else Inl ErrMalformedShareResult)
   \<and> returns (getResultUint64 s)"
  by (auto simp: share_validate_eq validateFormat_iff well_formed_share_def getResultUint64_def
      shareValueOffset_def shareValueLength_def slice_def le_uint64_def
      split: prod.split option.split)

text \<open>
  Reading a share from the parameters panics exactly when the job id, the nonce or the result
  is there and is not a string; otherwise an absent one is the empty string.
\<close>

theorem new_share_spec:
  "newShare ps =
     (if not_string (ps ''job_id'') \<or> not_string (ps ''nonce'') \<or> not_string (ps ''result'') then Panic
      else Ret \<lparr>s_AuthID = [], s_JobID = string_or_empty (ps ''job_id''),
             s_Nonce = string_or_empty (ps ''nonce''), s_Result = string_or_empty (ps ''result'')\<rparr>)"
  by (simp add: newShare_def opt_string_cases)

end
