(* ===== verification/Float64.thy ===== *)
theory Float64
  imports Complex_Main Prelude
begin

text \<open>
  Go's \<open>float64\<close>: IEEE 754 binary64 with rounding to nearest, ties to even. A finite value is the
  rational it stands for (the two zeros are one), so every operation is the exact rational
  operation followed by \<open>round_f64\<close>. The laws used later: a number of at most 53 significant bits
  is exact, and the relative error of a rounding above the subnormal range is at most \<open>2^-53\<close>.
\<close>

datatype f64 = Fin rat | PInf | NInf | NaN

subsection \<open>Rounding\<close>

definition bit_length :: "nat \<Rightarrow> nat" where
  "bit_length n = length (to_digits 2 n)"

text \<open>The largest \<open>e\<close> with \<open>2^e \<le> x\<close>, for positive \<open>x\<close>.\<close>

definition ilog2 :: "rat \<Rightarrow> int" where
  "ilog2 x =
     (case quotient_of x of (n, d) \<Rightarrow>
        let e = int (bit_length (nat n)) - int (bit_length (nat d)) in
        if 2 powi e \<le> x then e else e - 1)"

definition ulp :: "rat \<Rightarrow> rat" where
  "ulp x = 2 powi (max (ilog2 x - 52) (- 1074))"

definition round_half_even :: "rat \<Rightarrow> int" where
  "round_half_even x =
     (let f = \<lfloor>x\<rfloor>; r = x - of_int f in
      if r < 1 / 2 then f else if 1 / 2 < r then f + 1 else if even f then f else f + 1)"

definition round_pos :: "rat \<Rightarrow> rat" where
  "round_pos x = of_int (round_half_even (x / ulp x)) * ulp x"

definition f64_max :: rat where
  "f64_max = 2 ^ 1024"

definition round_f64 :: "rat \<Rightarrow> f64" where
  "round_f64 x =
     (if x = 0 then Fin 0
      else if 0 < x then if round_pos x < f64_max then Fin (round_pos x) else PInf
      else if round_pos (- x) < f64_max then Fin (- round_pos (- x)) else NInf)"

subsection \<open>Operations\<close>

definition f64_of_int :: "int \<Rightarrow> f64" where
  "f64_of_int i = round_f64 (of_int i)"

fun f64_add :: "f64 \<Rightarrow> f64 \<Rightarrow> f64" where
  "f64_add (Fin a) (Fin b) = round_f64 (a + b)"
| "f64_add NaN _ = NaN"
| "f64_add _ NaN = NaN"
| "f64_add PInf NInf = NaN"
| "f64_add NInf PInf = NaN"
| "f64_add PInf _ = PInf"
| "f64_add _ PInf = PInf"
| "f64_add NInf _ = NInf"
| "f64_add _ NInf = NInf"

definition inf_sign :: "rat \<Rightarrow> f64 \<Rightarrow> f64" where
  "inf_sign s i = (if s = 0 then NaN else if 0 < s then i else if i = PInf then NInf else PInf)"

fun f64_mul :: "f64 \<Rightarrow> f64 \<Rightarrow> f64" where
  "f64_mul (Fin a) (Fin b) = round_f64 (a * b)"
| "f64_mul NaN _ = NaN"
| "f64_mul _ NaN = NaN"
| "f64_mul (Fin a) i = inf_sign a i"
| "f64_mul i (Fin b) = inf_sign b i"
| "f64_mul PInf PInf = PInf"
| "f64_mul NInf NInf = PInf"
| "f64_mul PInf NInf = NInf"
| "f64_mul NInf PInf = NInf"

text \<open>The divisor zero is \<open>+0\<close> here: the program never divides by a negative zero.\<close>

fun f64_div :: "f64 \<Rightarrow> f64 \<Rightarrow> f64" where
  "f64_div (Fin a) (Fin b) =
     (if b = 0 then if a = 0 then NaN else if 0 < a then PInf else NInf else round_f64 (a / b))"
| "f64_div NaN _ = NaN"
| "f64_div _ NaN = NaN"
| "f64_div (Fin a) _ = Fin 0"
| "f64_div PInf (Fin b) = (if b < 0 then NInf else PInf)"
| "f64_div NInf (Fin b) = (if b < 0 then PInf else NInf)"
| "f64_div _ _ = NaN"

text \<open>
  \<open>uint64(x)\<close>: truncation when the result fits; otherwise, and for infinities and NaN, the value
  is up to the implementation, the argument \<open>conv\<close>.
\<close>

definition f64_to_u64 :: "(f64 \<Rightarrow> u64) \<Rightarrow> f64 \<Rightarrow> u64" where
  "f64_to_u64 conv x =
     (case x of
        Fin a \<Rightarrow> if -1 < a \<and> a < 2 ^ 64 then (if a < 0 then 0 else word_of_int \<lfloor>a\<rfloor>) else conv x
      | _ \<Rightarrow> conv x)"

subsection \<open>Laws\<close>

lemma bit_length_bounds: "0 < n \<Longrightarrow> 2 ^ (bit_length n - 1) \<le> n \<and> n < 2 ^ bit_length n"
proof -
  assume n: "0 < n"
  let ?ds = "to_digits 2 n"
  have "from_digits 2 ?ds = n" by simp
  moreover have "from_digits 2 ?ds < 2 ^ length ?ds"
    by (rule from_digits_bound) (use to_digits_less [of _ 2 n] in blast)
  moreover have "2 ^ (length ?ds - 1) \<le> from_digits 2 ?ds"
  proof -
    obtain d ds where ds: "?ds = d # ds"
      using n to_digits_Nil_iff [of 2 n] by (cases ?ds) auto
    moreover have "d \<noteq> 0" using to_digits_hd [of 2 n] ds by simp
    ultimately show ?thesis by (simp add: from_digits_Cons trans_le_add1)
  qed
  ultimately show ?thesis by (simp add: bit_length_def)
qed

lemma ilog2_bounds:
  assumes "0 < x"
  shows "2 powi ilog2 x \<le> x \<and> x < 2 powi (ilog2 x + 1)"
proof -
  obtain n d where q: "quotient_of x = (n, d)" by force
  have d: "0 < d" and x: "x = of_int n / of_int d"
    using quotient_of_denom_pos [OF q] quotient_of_div [OF q] by simp_all
  with assms have n: "0 < n" by (simp add: zero_less_divide_iff)
  let ?a = "bit_length (nat n)" and ?b = "bit_length (nat d)"
  let ?e = "int ?a - int ?b"
  have bounds: "2 ^ (?a - 1) \<le> nat n" "nat n < 2 ^ ?a" "2 ^ (?b - 1) \<le> nat d" "nat d < 2 ^ ?b"
    using bit_length_bounds [of "nat n"] bit_length_bounds [of "nat d"] n d by simp_all
  have pos: "0 < ?a" "0 < ?b"
    using bounds n d by (auto intro!: Nat.gr0I)
  have rat: "2 powi (int ?a - 1) \<le> (of_int n :: rat)" "(of_int n :: rat) < 2 powi int ?a"
    "2 powi (int ?b - 1) \<le> (of_int d :: rat)" "(of_int d :: rat) < 2 powi int ?b"
  proof -
    have of_nat: "(of_int n :: rat) = of_nat (nat n)" "(of_int d :: rat) = of_nat (nat d)"
      using n d by simp_all
    have p: "(2 :: rat) powi (int k - 1) = of_nat (2 ^ (k - 1))" if "0 < k" for k
      using that by (simp add: power_int_def nat_diff_distrib)
    show "2 powi (int ?a - 1) \<le> (of_int n :: rat)" "2 powi (int ?b - 1) \<le> (of_int d :: rat)"
      unfolding of_nat using bounds pos by (simp_all only: p of_nat_le_iff)
    have "(2 :: rat) powi int k = of_nat (2 ^ k)" for k by simp
    then show "(of_int n :: rat) < 2 powi int ?a" "(of_int d :: rat) < 2 powi int ?b"
      unfolding of_nat using bounds by (simp_all only: of_nat_less_iff)
  qed
  have d': "(0 :: rat) < of_int d" using d by simp
  have low: "2 powi (?e - 1) \<le> x"
  proof -
    have "2 powi (?e - 1) * (of_int d :: rat) \<le> 2 powi (?e - 1) * 2 powi int ?b"
      using rat(4) by (intro mult_left_mono) simp_all
    also have "\<dots> = 2 powi (?e - 1 + int ?b)" by (rule power_int_add [symmetric]) simp
    also have "\<dots> = 2 powi (int ?a - 1)" by simp
    finally have "2 powi (?e - 1) * of_int d \<le> (of_int n :: rat)" using rat(1) by linarith
    then show ?thesis unfolding x using d' by (simp add: pos_le_divide_eq)
  qed
  have high: "x < 2 powi (?e + 1)"
  proof -
    have "(of_int n :: rat) < 2 powi int ?a" by (rule rat(2))
    also have "\<dots> = 2 powi (?e + 1 + (int ?b - 1))" by simp
    also have "\<dots> = 2 powi (?e + 1) * 2 powi (int ?b - 1)" by (rule power_int_add) simp
    also have "\<dots> \<le> 2 powi (?e + 1) * of_int d" using rat(3) by (intro mult_left_mono) simp_all
    finally show ?thesis unfolding x using d' by (simp add: pos_divide_less_eq)
  qed
  show ?thesis using low high by (auto simp: ilog2_def q Let_def)
qed

lemma round_half_even_error: "\<bar>of_int (round_half_even x) - x\<bar> \<le> 1 / 2"
proof -
  have "of_int \<lfloor>x\<rfloor> \<le> x" "x < of_int \<lfloor>x\<rfloor> + 1" by linarith+
  then show ?thesis by (auto simp: round_half_even_def Let_def abs_le_iff)
qed

lemma round_half_even_int [simp]: "round_half_even (of_int i) = i"
  by (simp add: round_half_even_def)

lemma ulp_pos [simp]: "0 < ulp x"
  by (simp add: ulp_def)

lemma round_pos_error: "\<bar>round_pos x - x\<bar> \<le> ulp x / 2"
proof -
  have "round_pos x - x = (of_int (round_half_even (x / ulp x)) - x / ulp x) * ulp x"
    using ulp_pos [of x] by (simp add: round_pos_def left_diff_distrib del: ulp_pos)
  then have "\<bar>round_pos x - x\<bar> = \<bar>of_int (round_half_even (x / ulp x)) - x / ulp x\<bar> * ulp x"
    using ulp_pos [of x] by (simp add: abs_mult del: ulp_pos)
  also have "\<dots> \<le> 1 / 2 * ulp x"
    using round_half_even_error [of "x / ulp x"] by (intro mult_right_mono) (simp_all add: less_imp_le)
  finally show ?thesis by simp
qed

lemma round_pos_rel:
  assumes "2 powi (-1022) \<le> x"
  shows "\<bar>round_pos x - x\<bar> \<le> x / 2 ^ 53"
proof -
  have pos: "0 < x" using assms by (rule less_le_trans [rotated]) simp
  have "- 1022 < ilog2 x + 1"
  proof (rule ccontr)
    assume "\<not> - 1022 < ilog2 x + 1"
    then have "(2 :: rat) powi (ilog2 x + 1) \<le> 2 powi (-1022)" by (intro power_int_increasing) simp_all
    with ilog2_bounds [OF pos] assms show False by linarith
  qed
  then have "max (ilog2 x - 52) (- 1074) = ilog2 x - 52" by (intro max_absorb1) linarith
  then have "ulp x = 2 powi (ilog2 x - 52)" by (simp only: ulp_def)
  also have "\<dots> = 2 powi ilog2 x / 2 ^ 52" by (simp add: power_int_diff)
  also have "\<dots> \<le> x / 2 ^ 52" using ilog2_bounds [OF pos] by (intro divide_right_mono) simp_all
  finally have "ulp x / 2 \<le> x / 2 ^ 53" by simp
  with round_pos_error [of x] show ?thesis by linarith
qed

text \<open>A multiple \<open>m * 2^k\<close> with \<open>m < 2^53\<close> is exact.\<close>

lemma round_f64_exact:
  assumes "m < 2 ^ 53" and "k < 900"
  shows "round_f64 (of_nat (m * 2 ^ k)) = Fin (of_nat (m * 2 ^ k))"
proof (cases "m = 0")
  case True
  then show ?thesis by (simp add: round_f64_def)
next
  case False
  let ?x = "of_nat (m * 2 ^ k) :: rat"
  have pos: "0 < ?x" using False by simp
  have xr: "?x = of_nat m * 2 powi int k" by simp
  have "?x < 2 powi (int k + 53)"
  proof -
    have "(of_nat m :: rat) < 2 ^ 53" using assms(1) by (metis of_nat_less_iff of_nat_numeral of_nat_power)
    then have "?x < 2 ^ 53 * 2 powi int k" unfolding xr by (intro mult_strict_right_mono) simp_all
    also have "\<dots> = 2 powi (int k + 53)" by (simp add: power_int_add)
    finally show ?thesis .
  qed
  then have less: "(2 :: rat) powi ilog2 ?x < 2 powi (int k + 53)" using ilog2_bounds [OF pos] by linarith
  have il: "ilog2 ?x - 52 \<le> int k"
  proof (rule ccontr)
    assume "\<not> ilog2 ?x - 52 \<le> int k"
    then have "(2 :: rat) powi (int k + 53) \<le> 2 powi ilog2 ?x" by (intro power_int_increasing) simp_all
    with less show False by linarith
  qed
  let ?u = "max (ilog2 ?x - 52) (- 1074)"
  have u: "?u \<le> int k" using il by simp
  have "?x / ulp ?x = of_nat m * (2 powi int k / 2 powi ?u)" by (simp only: xr ulp_def times_divide_eq_right)
  also have "(2 :: rat) powi int k / 2 powi ?u = 2 powi (int k - ?u)" by (simp add: power_int_diff)
  also have "\<dots> = of_int (2 ^ nat (int k - ?u))" using u by (simp add: power_int_def)
  also have "of_nat m * of_int (2 ^ nat (int k - ?u)) = (of_int (int m * 2 ^ nat (int k - ?u)) :: rat)"
    by simp
  finally have "round_half_even (?x / ulp ?x) = int m * 2 ^ nat (int k - ?u)
      \<and> ?x / ulp ?x = of_int (int m * 2 ^ nat (int k - ?u))"
    by (simp only: round_half_even_int simp_thms)
  then have rp: "round_pos ?x = ?x"
    unfolding round_pos_def by (metis nonzero_eq_divide_eq order_less_irrefl ulp_pos)
  have "?x < f64_max"
  proof -
    have "?x < 2 powi (int k + 53)" by fact
    also have "\<dots> \<le> 2 powi 1024" using assms(2) by (intro power_int_increasing) simp_all
    finally show ?thesis by (simp add: f64_max_def)
  qed
  with rp pos show ?thesis by (simp only: round_f64_def if_True) simp
qed

lemma round_f64_near:
  assumes "2 powi (-1022) \<le> x" and "x < 2 ^ 1000"
  shows "\<exists>y. round_f64 x = Fin y \<and> \<bar>y - x\<bar> \<le> x / 2 ^ 53"
proof -
  have pos: "0 < x" using assms(1) by (rule less_le_trans [rotated]) simp
  note rel = round_pos_rel [OF assms(1)]
  have "x / 2 ^ 53 \<le> x" using pos by (simp add: field_simps)
  with rel have "round_pos x \<le> 2 * x" by linarith
  also have "\<dots> < 2 * 2 ^ 1000" using assms(2) by simp
  also have "\<dots> \<le> f64_max" unfolding f64_max_def
    using power_increasing [of 1001 1024 "2 :: rat"] by simp
  finally show ?thesis using rel pos by (simp add: round_f64_def)
qed

end
