(* ===== verification/Target.thy ===== *)
theory Target
  imports Job Float64 "HOL-Library.Signed_Division"
begin

text \<open>
  The difficulty of a proxy (\<open>getTarget\<close> and the computation of \<open>setTarget\<close> in
  \<open>server/proxy/proxy.go\<close>): the target is the hex of four bytes, the upper half of a little-endian
  64-bit number, and it is rescaled in floating point so that a share is found every five
  seconds. Here are the arithmetic and its accuracy; the state of the proxy is in theory Proxy.
\<close>

definition initDiffCount :: nat where "initDiffCount = 16"
definition submitInterval :: nat where "submitInterval = 5"

definition target_or_default :: "string \<Rightarrow> string" where
  "target_or_default target = (if target = [] then ''b88d0600'' else target)"

text \<open>\<open>Duration.Seconds\<close> of a number of nanoseconds.\<close>

definition duration_seconds :: "int \<Rightarrow> f64" where
  "duration_seconds d =
     (let sec = d sdiv 1000000000; nsec = d smod 1000000000
      in f64_add (f64_of_int sec) (f64_div (f64_of_int nsec) (f64_of_int 1000000000)))"

definition scale_target :: "(f64 \<Rightarrow> u64) \<Rightarrow> u64 \<Rightarrow> int \<Rightarrow> f64 \<Rightarrow> u64" where
  "scale_target conv target duration diffCount =
     f64_to_u64 conv
       (f64_div (f64_mul (f64_of_int (uint target)) (duration_seconds duration))
                (f64_mul diffCount (f64_of_int (int submitInterval))))"

text \<open>The new target, or \<open>None\<close> when the old one is no hex and the function returns early.\<close>

definition retarget :: "(f64 \<Rightarrow> u64) \<Rightarrow> string \<Rightarrow> u64 \<Rightarrow> u64 \<Rightarrow> u64 \<Rightarrow> int \<Rightarrow> string option go" where
  "retarget conv oldTarget shareIndex shares targetShare duration =
     (let diffCount =
            (if shareIndex = of_nat (initDiffCount + 1) then f64_of_int (int initDiffCount)
             else f64_of_int (uint (shares - targetShare)))
      in case hex_decode (''00000000'' @ target_or_default oldTarget) of
           (_, Some e) \<Rightarrow> Ret None
         | (targetBytes, None) \<Rightarrow>
             go_bind (le_uint64 targetBytes) (\<lambda>target.
             go_bind (slice (le_put 8 (scale_target conv target duration diffCount)) 4 8) (\<lambda>b.
               Ret (Some (hex_encode b)))))"

subsection \<open>The bytes\<close>

definition target_str :: "u32 \<Rightarrow> string" where
  "target_str w = hex_encode (le_put 4 w)"

lemma drop_le_put: "drop 4 (le_put 8 (w :: u64)) = le_put 4 (of_nat (unat w div 2 ^ 32) :: u32)"
proof -
  have w: "unat w div 2 ^ 32 < 2 ^ 32"
    using unsigned_less [of w, where 'a = nat] by (simp add: less_mult_imp_div_less)
  then have u: "unat (of_nat (unat w div 2 ^ 32) :: u32) = unat w div 2 ^ 32"
    by (simp add: unat_of_nat)
  show ?thesis
  proof (rule nth_equalityI)
    fix i assume i: "i < length (drop 4 (le_put 8 w))"
    then have "drop 4 (le_put 8 w) ! i = of_nat (unat w div 256 ^ (4 + i))"
      by (simp add: le_put_def)
    also have "unat w div 256 ^ (4 + i) = unat w div 2 ^ 32 div 256 ^ i"
      by (simp add: power_add div_mult2_eq)
    finally show "drop 4 (le_put 8 w) ! i = le_put 4 (of_nat (unat w div 2 ^ 32) :: u32) ! i"
      using i u by (simp add: le_put_def)
  qed simp
qed

lemma hex_zeros: "''00000000'' @ hex_encode b = hex_encode (replicate 4 0 @ b)"
  by (simp add: replicate_4_zeros hex_byte_zero)

lemma default_target: "''b88d0600'' = target_str 0x68db8"
proof -
  have "le_put 4 (0x68db8 :: u32) = [0xb8, 0x8d, 0x06, 0x00]" by (simp add: le_put_def upt_rec)
  moreover have "hex_byte 0xb8 = ''b8''" "hex_byte 0x8d = ''8d''" "hex_byte 0x06 = ''06''"
    by (simp_all add: hex_byte_def hex_digit_def)
  ultimately show ?thesis by (simp add: target_str_def hex_byte_zero)
qed

lemma target_str_nonempty [simp]: "target_str w \<noteq> []"
  by (simp add: target_str_def flip: length_0_conv)

lemma target_or_default_str: "t = [] \<or> t = target_str w \<Longrightarrow> \<exists>v. target_or_default t = target_str v"
  by (auto simp: target_or_default_def default_target)

lemma retarget_str:
  "target_or_default t = target_str w \<Longrightarrow>
   retarget conv t idx shares ts d =
     Ret (Some (target_str (of_nat (unat (scale_target conv (of_nat (unat w * 2 ^ 32)) d
       (if idx = 17 then f64_of_int 16 else f64_of_int (uint (shares - ts)))) div 2 ^ 32))))"
proof -
  assume t: "target_or_default t = target_str w"
  let ?b = "replicate 4 0 @ le_put 4 w :: byte list"
  have dec: "hex_decode (''00000000'' @ target_or_default t) = (?b, None)"
    unfolding t target_str_def hex_zeros by (rule hex_decode_encode)
  have "le_uint64 ?b = Ret (le_get ?b)" by (simp add: le_uint64_def)
  also have "(le_get ?b :: u64) = of_nat (unat (le_get (le_put 4 w) :: u32) * 2 ^ 32)"
    by (rule le_get_high_word) simp
  also have "le_get (le_put 4 w) = w" by (rule le_get_put) simp
  finally have le: "le_uint64 ?b = Ret (of_nat (unat w * 2 ^ 32))" .
  have slice: "slice (le_put 8 (v :: u64)) 4 8 = Ret (le_put 4 (of_nat (unat v div 2 ^ 32) :: u32))" for v
    using drop_le_put [of v] by (simp add: slice_def)
  have "of_nat (initDiffCount + 1) = (17 :: u64)" "int initDiffCount = 16"
    by (simp_all add: initDiffCount_def)
  then show ?thesis
    unfolding retarget_def Let_def dec
    by (simp only: prod.case option.case le go_bind.simps slice target_str_def)
qed

subsection \<open>Accuracy\<close>

definition close :: "nat \<Rightarrow> rat \<Rightarrow> rat \<Rightarrow> bool" where
  "close k x y \<longleftrightarrow> \<bar>y - x\<bar> \<le> of_nat k / 2 ^ 52 * x"

lemma close_refl [simp]: "close 0 x x"
  by (simp add: close_def)

lemma close_mult: "close k x y \<Longrightarrow> 0 < c \<Longrightarrow> close k (c * x) (c * y)"
proof -
  assume "close k x y" "0 < c"
  then have "c * \<bar>y - x\<bar> \<le> c * (of_nat k / 2 ^ 52 * x)" by (simp add: close_def)
  moreover have "\<bar>c * y - c * x\<bar> = c * \<bar>y - x\<bar>"
    using \<open>0 < c\<close> by (simp add: abs_mult flip: right_diff_distrib)
  ultimately show ?thesis by (simp add: close_def mult.left_commute)
qed

lemma close_add: "close k x y \<Longrightarrow> 0 \<le> a \<Longrightarrow> close k (a + x) (a + y)"
proof -
  assume "close k x y" "0 \<le> a"
  then have "\<bar>y - x\<bar> \<le> of_nat k / 2 ^ 52 * x" "0 \<le> of_nat k / 2 ^ 52 * a"
    by (simp_all add: close_def)
  moreover have "of_nat k / 2 ^ 52 * (a + x) = of_nat k / 2 ^ 52 * a + of_nat k / 2 ^ 52 * x"
    by (rule distrib_left)
  ultimately have "\<bar>(a + y) - (a + x)\<bar> \<le> of_nat k / 2 ^ 52 * (a + x)"
    by (simp only: add_diff_cancel_left)
  then show ?thesis by (simp only: close_def)
qed

lemma tiny: "2 powi (-1022) \<le> (1 / 10 ^ 30 / 2 :: rat)"
  by simp

lemma round_close:
  assumes "close k x y" and "k < 8" and "1 / 10 ^ 30 \<le> x" and "x < 2 ^ 900"
  shows "\<exists>z. round_f64 y = Fin z \<and> close (Suc k) x z"
proof -
  have x: "0 < x" using assms(3) by (rule less_le_trans [rotated]) simp
  have k: "of_nat k / 2 ^ 52 \<le> (1 / 2 :: rat)" using assms(2) by simp
  have "of_nat k / 2 ^ 52 * x \<le> 1 / 2 * x" using k x by (intro mult_right_mono) simp_all
  with assms(1) have y: "x / 2 \<le> y" "y \<le> 2 * x" unfolding close_def by linarith+
  have "1 / 10 ^ 30 / 2 \<le> x / 2" using assms(3) by simp
  then have "2 powi (-1022) \<le> y" using tiny y(1) by linarith
  moreover have "y < 2 ^ 1000"
  proof -
    have "(2 :: rat) * 2 ^ 900 \<le> 2 ^ 1000" using power_increasing [of 901 1000 "2 :: rat"] by simp
    with assms(4) y(2) show ?thesis by linarith
  qed
  ultimately obtain z where z: "round_f64 y = Fin z" "\<bar>z - y\<bar> \<le> y / 2 ^ 53"
    using round_f64_near by blast
  have "y / 2 ^ 53 \<le> 2 * x / 2 ^ 53" using y(2) by (intro divide_right_mono) simp_all
  also have "\<dots> = 1 / 2 ^ 52 * x" by simp
  finally have "\<bar>z - y\<bar> \<le> 1 / 2 ^ 52 * x" using z(2) by linarith
  moreover have "of_nat (Suc k) / 2 ^ 52 * x = of_nat k / 2 ^ 52 * x + 1 / 2 ^ 52 * x"
    by (simp add: add_divide_distrib distrib_right)
  ultimately have "close (Suc k) x z" using assms(1) unfolding close_def by linarith
  with z(1) show ?thesis by blast
qed

lemma round_f64_factor_2:
  assumes "1 \<le> x" and "x < 2 ^ 100"
  shows "\<exists>y. round_f64 x = Fin y \<and> x / 2 \<le> y \<and> y \<le> 2 * x"
proof -
  have "1 / 10 ^ 30 \<le> x" using assms(1) by (rule order.trans [rotated]) simp
  moreover have "x < 2 ^ 900"
    using assms(2) power_increasing [of 100 900 "2 :: rat"] by simp
  ultimately obtain y where y: "round_f64 x = Fin y" "close 1 x y"
    using round_close [of 0 x x] by auto
  have "of_nat 1 / 2 ^ 52 * x \<le> 1 / 2 * x" using assms(1) by (intro mult_right_mono) simp_all
  with y(2) have "x / 2 \<le> y" "y \<le> 2 * x" unfolding close_def by linarith+
  with y(1) show ?thesis by blast
qed

lemma f64_of_nat_exact: "m < 2 ^ 53 \<Longrightarrow> f64_of_int (int m) = Fin (of_nat m)"
  using round_f64_exact [of m 0] by (simp add: f64_of_int_def)

lemma seconds_close:
  assumes "0 < d" and "d < 2 ^ 63"
  shows "\<exists>z. duration_seconds d = Fin z \<and> close 2 (of_int d / 10 ^ 9) z"
proof -
  define s n where sn: "s = nat (d div 1000000000)" "n = nat (d mod 1000000000)"
  have sm: "d sdiv 1000000000 = int s" "d smod 1000000000 = int n"
    using assms(1) by (simp_all add: sn signed_divide_int_def signed_modulo_int_def pos_imp_zdiv_nonneg_iff
      minus_div_mult_eq_mod)
  have "d div 1000000000 < 2 ^ 34" using assms(2) by simp
  then have s: "s < 2 ^ 53" by (simp add: sn pos_imp_zdiv_nonneg_iff)
  have n: "n < 1000000000" by (simp add: sn nat_less_iff)
  have "int s * 1000000000 + int n = d" using assms(1) by (simp add: sn pos_imp_zdiv_nonneg_iff)
  then have "(of_int d :: rat) = of_int (int s * 1000000000 + int n)" by simp
  then have split: "(of_int d :: rat) / 10 ^ 9 = of_nat s + of_nat n / 10 ^ 9"
    by (simp add: add_divide_distrib)
  have fs: "f64_of_int (int s) = Fin (of_nat s)" using s by (rule f64_of_nat_exact)
  have fn: "f64_of_int (int n) = Fin (of_nat n)" using n by (intro f64_of_nat_exact) simp
  have fb: "f64_of_int 1000000000 = Fin (10 ^ 9)" using f64_of_nat_exact [of 1000000000] by simp
  have small: "\<exists>z. round_f64 (of_nat n / 10 ^ 9) = Fin z \<and> close 1 (of_nat n / 10 ^ 9) z"
  proof (cases "n = 0")
    case True
    then show ?thesis by (simp add: round_f64_def close_def)
  next
    case False
    then have "(1 :: rat) \<le> of_nat n" by (simp add: Suc_le_eq)
    moreover have "(of_nat n :: rat) < 1000000000" using n
      by (metis of_nat_less_iff of_nat_numeral)
    ultimately show ?thesis
      using round_close [of 0 "of_nat n / 10 ^ 9" "of_nat n / 10 ^ 9"] by simp
  qed
  then obtain z where z: "round_f64 (of_nat n / 10 ^ 9) = Fin z" "close 1 (of_nat n / 10 ^ 9) z"
    by blast
  have c: "close 1 (of_int d / 10 ^ 9) (of_nat s + z)"
    unfolding split by (rule close_add [OF z(2)]) simp
  have "(1 :: rat) \<le> of_int d" "(of_int d :: rat) < 2 ^ 63"
    using assms by (simp_all flip: of_int_less_iff)
  then obtain v where v: "round_f64 (of_nat s + z) = Fin v" "close 2 (of_int d / 10 ^ 9) v"
    using round_close [OF c] by (auto simp: numeral_2_eq_2)
  have "duration_seconds d = f64_add (Fin (of_nat s)) (f64_div (Fin (of_nat n)) (Fin (10 ^ 9)))"
    by (simp only: duration_seconds_def Let_def sm fs fn fb)
  also have "\<dots> = round_f64 (of_nat s + z)" using z(1) by simp
  finally show ?thesis using v by auto
qed

lemma scaled_range:
  assumes "0 < w" "w < 2 ^ 32"
  shows "1 \<le> (of_nat (w * 2 ^ 32) :: rat)" "(of_nat (w * 2 ^ 32) :: rat) < 2 ^ 64"
proof -
  have "1 \<le> w * 2 ^ 32" "w * 2 ^ 32 < 2 ^ 64" using assms by simp_all
  then show "1 \<le> (of_nat (w * 2 ^ 32) :: rat)" "(of_nat (w * 2 ^ 32) :: rat) < 2 ^ 64"
    by (metis of_nat_1 of_nat_le_iff, metis of_nat_less_iff of_nat_numeral of_nat_power)
qed

lemma product_range:
  assumes t: "1 \<le> t" "t < (2 ^ 64 :: rat)" and d: "0 < d" "d < (2 ^ 63 :: int)"
  shows "1 / 10 ^ 9 \<le> t * (of_int d / 10 ^ 9)" "t * (of_int d / 10 ^ 9) < 2 ^ 127"
proof -
  have "(1 :: rat) \<le> of_int d" "(of_int d :: rat) < 2 ^ 63"
    using d by (simp_all flip: of_int_less_iff)
  then have dr: "1 / 10 ^ 9 \<le> of_int d / (10 ^ 9 :: rat)" "of_int d / (10 ^ 9 :: rat) < 2 ^ 63"
    by simp_all
  have "1 * (1 / 10 ^ 9) \<le> t * (of_int d / 10 ^ 9)" using t dr by (intro mult_mono) simp_all
  then show "1 / 10 ^ 9 \<le> t * (of_int d / 10 ^ 9)" by simp
  have "t * (of_int d / 10 ^ 9) \<le> 2 ^ 64 * (of_int d / 10 ^ 9)" using t dr d by (intro mult_right_mono) simp_all
  also have "\<dots> < 2 ^ 64 * 2 ^ 63" using dr by (intro mult_strict_left_mono) simp_all
  finally show "t * (of_int d / 10 ^ 9) < 2 ^ 127" by simp
qed

lemma divisor_range:
  assumes "0 < n" "n < 2 ^ 50"
  shows "(5 :: rat) \<le> of_nat n * 5" "1 / 2 ^ 53 \<le> 1 / (of_nat n * (5 :: rat))" "1 / (of_nat n * (5 :: rat)) \<le> 1"
proof -
  have "1 \<le> n" "n * 5 < 2 ^ 53" using assms by simp_all
  then have c: "(5 :: rat) \<le> of_nat n * 5" "of_nat n * (5 :: rat) < 2 ^ 53"
    by (simp, metis of_nat_less_iff of_nat_mult of_nat_numeral of_nat_power)
  show "(5 :: rat) \<le> of_nat n * 5" by (rule c(1))
  show "1 / 2 ^ 53 \<le> 1 / (of_nat n * (5 :: rat))" "1 / (of_nat n * (5 :: rat)) \<le> 1"
    using c by (simp_all add: frac_le divide_le_eq)
qed

lemma scale_close:
  assumes w: "0 < w" "w < 2 ^ 32" and d: "0 < d" "d < 2 ^ 63" and n: "0 < n" "n < 2 ^ 50"
  shows "\<exists>z. f64_div (f64_mul (f64_of_int (int (w * 2 ^ 32))) (duration_seconds d))
                   (f64_mul (f64_of_int (int n)) (f64_of_int (int submitInterval))) = Fin z
    \<and> close 4 (1 / (of_nat n * 5) * (of_nat (w * 2 ^ 32) * (of_int d / 10 ^ 9))) z"
proof -
  obtain s where s: "duration_seconds d = Fin s" "close 2 (of_int d / 10 ^ 9) s"
    using seconds_close [OF d] by blast
  define t :: rat where "t = of_nat (w * 2 ^ 32)"
  have ft: "f64_of_int (int (w * 2 ^ 32)) = Fin t"
    using round_f64_exact [of w 32] w by (simp add: f64_of_int_def t_def)
  note t = scaled_range [OF w, folded t_def]
  let ?p = "t * (of_int d / 10 ^ 9)"
  note p = product_range [OF t d]
  have "close 2 ?p (t * s)" using s(2) t(1) by (intro close_mult) simp_all
  then obtain m where m: "round_f64 (t * s) = Fin m" "close 3 ?p m"
    using round_close [of 2 ?p "t * s"] p by (auto simp: numeral_3_eq_3 numeral_2_eq_2)
  have fn: "f64_of_int (int n) = Fin (of_nat n)" "f64_of_int (int submitInterval) = Fin 5"
    using n f64_of_nat_exact [of n] f64_of_nat_exact [of 5] by (simp_all add: submitInterval_def)
  have "int (n * 5) = int n * 5" by simp
  then have fc: "round_f64 (of_nat n * 5) = Fin (of_nat n * 5)"
    using f64_of_nat_exact [of "n * 5"] n by (simp add: f64_of_int_def)
  note c = divisor_range(1) [OF n] and inv = divisor_range(2,3) [OF n]
  let ?q = "1 / (of_nat n * 5) * ?p"
  have "1 / 2 ^ 53 * (1 / 10 ^ 9) \<le> ?q" using inv p c by (intro mult_mono) simp_all
  then have q1: "1 / 10 ^ 30 \<le> ?q" by (rule order.trans [rotated]) simp
  have "?q \<le> 1 * ?p" using inv p by (intro mult_right_mono) simp_all
  with p(2) have q2: "?q < 2 ^ 900"
    using power_increasing [of 127 900 "2 :: rat"] by simp
  have "close 3 ?q (1 / (of_nat n * 5) * m)" using m(2) c(1) by (intro close_mult) simp_all
  then have "\<exists>z. round_f64 (1 / (of_nat n * 5) * m) = Fin z \<and> close (Suc 3) ?q z"
    by (rule round_close [OF _ _ q1 q2]) simp
  moreover have "Suc 3 = 4" by simp
  ultimately obtain z where z: "round_f64 (1 / (of_nat n * 5) * m) = Fin z" "close 4 ?q z"
    by (simp only:) blast
  have "f64_div (f64_mul (f64_of_int (int (w * 2 ^ 32))) (duration_seconds d))
      (f64_mul (f64_of_int (int n)) (f64_of_int (int submitInterval))) = Fin z"
    using z(1) m(1) fc n(1) by (simp only: ft s(1) fn f64_mul.simps) simp
  then show ?thesis using z(2) by (auto simp: t_def)
qed

lemma close_bounds:
  "close 4 x z \<Longrightarrow> x * (1 - 1 / 2 ^ 50) \<le> z \<and> z \<le> x * (1 + 1 / 2 ^ 50)"
proof -
  assume "close 4 x z"
  moreover define e where "e = 1 / 2 ^ 50 * x"
  ultimately have "\<bar>z - x\<bar> \<le> e" by (simp add: close_def)
  moreover have "x * (1 - 1 / 2 ^ 50) = x - e" "x * (1 + 1 / 2 ^ 50) = x + e"
    by (simp_all add: e_def right_diff_distrib distrib_left)
  ultimately show ?thesis by (simp only:) linarith
qed

lemma uint_pos: "x \<noteq> 0 \<Longrightarrow> 0 < uint (x :: u64)"
  using uint_ge_0 [of x] unsigned_eq_0_iff [of x, where 'a = int] by linarith

lemma uint_of_nat_small: "k < 2 ^ 64 \<Longrightarrow> uint (of_nat k :: u64) = int k"
proof -
  assume k: "k < 2 ^ 64"
  have "uint (of_nat k :: u64) = int (unat (of_nat k :: u64))" by simp
  also have "unat (of_nat k :: u64) = k" using k by (simp add: unat_of_nat)
  finally show ?thesis .
qed

lemma div_bounds: "m * c + r = v \<Longrightarrow> r < c \<Longrightarrow> m * c \<le> v \<and> v + 1 \<le> (m + 1) * c"
  for m :: nat
  by (auto simp: distrib_right)

lemma unscale:
  fixes p :: rat
  shows "0 < p \<Longrightarrow> q * p * a \<le> z \<Longrightarrow> z < (v + 1) * p \<Longrightarrow> q * a - 1 < v"
    and "0 < p \<Longrightarrow> v * p \<le> z \<Longrightarrow> z \<le> q * p * b \<Longrightarrow> v \<le> q * b"
proof -
  assume p: "0 < p"
  {
    assume "q * p * a \<le> z" "z < (v + 1) * p"
    then have "(q * a) * p < (v + 1) * p" by (simp add: ac_simps)
    with p show "q * a - 1 < v" by (simp add: mult_less_cancel_right_pos)
  next
    assume "v * p \<le> z" "z \<le> q * p * b"
    then have "v * p \<le> (q * b) * p" by (simp add: ac_simps)
    with p show "v \<le> q * b" by (simp add: mult_le_cancel_right_pos)
  }
qed

lemma to_u64_floor:
  assumes "0 \<le> z" and "z < 2 ^ 64"
  shows "int (unat (f64_to_u64 conv (Fin z))) = \<lfloor>z\<rfloor>"
proof -
  have "0 \<le> \<lfloor>z\<rfloor>" "\<lfloor>z\<rfloor> < 2 ^ 64" using assms by (simp, simp add: floor_less_iff)
  then have "uint (word_of_int \<lfloor>z\<rfloor> :: u64) = \<lfloor>z\<rfloor>"
    unfolding uint_word_of_int_eq by (intro take_bit_int_eq_self) simp_all
  then show ?thesis using assms by (simp add: f64_to_u64_def)
qed

subsection \<open>Properties\<close>

text \<open>
  Whatever the clock and the share counters say, and whatever an out-of-range conversion
  yields, \<open>setTarget\<close> turns the default or any target of eight hex digits into another one: it
  neither fails to decode it nor panics.
\<close>

theorem retarget_format:
  "\<exists>w. retarget conv (case old of None \<Rightarrow> [] | Some v \<Rightarrow> hex_encode (le_put 4 (v :: u32))) idx shares ts d
       = Ret (Some (hex_encode (le_put 4 (w :: u32))))"
proof -
  obtain v where "target_or_default (case old of None \<Rightarrow> [] | Some v \<Rightarrow> target_str v) = target_str v"
    using target_or_default_str [of "case old of None \<Rightarrow> [] | Some v \<Rightarrow> target_str v"]
    by (cases old) auto
  from retarget_str [OF this] show ?thesis unfolding target_str_def by blast
qed

lemma scaled_quotient:
  assumes q: "0 \<le> q" "q < (2 ^ 31 :: rat)"
    and z: "q * 2 ^ 32 * (1 - 1 / 2 ^ 50) \<le> z" "z \<le> q * 2 ^ 32 * (1 + 1 / 2 ^ 50)"
  shows "0 \<le> z" "z < 2 ^ 64"
proof -
  have "0 \<le> q * 2 ^ 32 * (1 - 1 / 2 ^ 50)"
    by (rule mult_nonneg_nonneg [OF mult_nonneg_nonneg [OF q(1)]]) simp_all
  from order.trans [OF this z(1)] show "0 \<le> z" .
  have "q * 2 ^ 32 * (1 + 1 / 2 ^ 50) \<le> q * 2 ^ 32 * 2"
    by (rule mult_left_mono [OF _ mult_nonneg_nonneg [OF q(1)]]) simp_all
  also have "\<dots> < 2 ^ 31 * 2 ^ 32 * 2" by (intro mult_strict_right_mono q(2)) simp_all
  finally have "q * 2 ^ 32 * (1 + 1 / 2 ^ 50) < 2 ^ 31 * 2 ^ 32 * 2" .
  from order.strict_trans1 [OF z(2) this] show "z < 2 ^ 64" by simp
qed

lemma truncated:
  assumes "int v = \<lfloor>z :: rat\<rfloor>"
  shows "of_nat (v div 2 ^ 32) * 2 ^ 32 \<le> z" "z < (of_nat (v div 2 ^ 32) + 1) * 2 ^ 32"
proof -
  have "v div 2 ^ 32 * 2 ^ 32 \<le> v" "v + 1 \<le> (v div 2 ^ 32 + 1) * 2 ^ 32"
    using div_bounds [OF div_mult_mod_eq, of v "2 ^ 32"] by simp_all
  then have "(of_nat (v div 2 ^ 32 * 2 ^ 32) :: rat) \<le> of_nat v"
    "(of_nat (v + 1) :: rat) \<le> of_nat ((v div 2 ^ 32 + 1) * 2 ^ 32)"
    by (simp_all only: of_nat_le_iff)
  moreover have "of_nat v \<le> z" "z < of_nat v + 1"
    using assms by (metis of_int_floor_le of_int_of_nat_eq, metis floor_correct of_int_of_nat_eq of_int_add of_int_1)
  ultimately show "of_nat (v div 2 ^ 32) * 2 ^ 32 \<le> z" "z < (of_nat (v div 2 ^ 32) + 1) * 2 ^ 32"
    by simp_all
qed

text \<open>
  C33: The new target is the old one times the elapsed time over five seconds per share: for \<open>n\<close>
  shares in \<open>d\<close> nanoseconds the 32-bit target \<open>w\<close> becomes \<open>q = w * d / (5 * n)\<close> seconds, up
  to a relative error of \<open>2^-50\<close> and the truncation to an integer, as long as \<open>q\<close> is below
  \<open>2^31\<close>. The shares counted are 16 at the first refresh and those since the last one later.
\<close>

theorem retarget_accuracy:
  assumes "w \<noteq> 0" and "0 < d" and "d < 2 ^ 63"
    and n: "n = (if idx = 17 then 16 else unat (shares - ts))" "0 < n" "n < 2 ^ 50"
    and "of_nat (unat w) * (of_int d / 10 ^ 9) / (5 * of_nat n) < (2 ^ 31 :: rat)"
  shows "\<exists>v. retarget conv (hex_encode (le_put 4 (w :: u32))) idx shares ts d
             = Ret (Some (hex_encode (le_put 4 (v :: u32))))
    \<and> of_nat (unat w) * (of_int d / 10 ^ 9) / (5 * of_nat n) * (1 - 1 / 2 ^ 50) - 1
        < (of_nat (unat v) :: rat)
    \<and> of_nat (unat v) \<le> of_nat (unat w) * (of_int d / 10 ^ 9) / (5 * of_nat n) * (1 + 1 / 2 ^ 50 :: rat)"
proof -
  let ?q = "of_nat (unat w) * (of_int d / 10 ^ 9) / (5 * of_nat n) :: rat"
  have w: "0 < unat w" "unat w < 2 ^ 32"
    using assms(1) unsigned_less [of w, where 'a = nat] by (simp_all add: unat_gt_0)
  obtain z where z: "f64_div (f64_mul (f64_of_int (int (unat w * 2 ^ 32))) (duration_seconds d))
      (f64_mul (f64_of_int (int n)) (f64_of_int (int submitInterval))) = Fin z"
    "close 4 (1 / (of_nat n * 5) * (of_nat (unat w * 2 ^ 32) * (of_int d / 10 ^ 9))) z"
    using scale_close [OF w assms(2,3) n(2,3)] by blast
  have "1 / (of_nat n * 5) * (of_nat (unat w * 2 ^ 32) * (of_int d / 10 ^ 9)) = ?q * 2 ^ 32"
    by simp
  with z(2) have bounds: "?q * 2 ^ 32 * (1 - 1 / 2 ^ 50) \<le> z" "z \<le> ?q * 2 ^ 32 * (1 + 1 / 2 ^ 50)"
    using close_bounds by (simp_all only:)
  have q: "0 \<le> ?q" 
    by (intro divide_nonneg_nonneg mult_nonneg_nonneg of_nat_0_le_iff) (simp_all add: assms(2) less_imp_le)
  have "?q < 2 ^ 31" by (rule assms(7))
  note z01 = scaled_quotient [OF q this bounds]
  define v64 where "v64 = unat (f64_to_u64 conv (Fin z))"
  have v64: "int v64 = \<lfloor>z\<rfloor>" unfolding v64_def by (rule to_u64_floor [OF z01])
  have "v64 < 2 ^ 64" unfolding v64_def using unsigned_less [of "f64_to_u64 conv (Fin z)", where 'a = nat] by simp
  then have "v64 div 2 ^ 32 < 2 ^ 32" by (simp add: less_mult_imp_div_less)
  then have v: "unat (of_nat (v64 div 2 ^ 32) :: u32) = v64 div 2 ^ 32" by (simp add: unat_of_nat)
  have uw: "uint (of_nat (unat w * 2 ^ 32) :: u64) = int (unat w * 2 ^ 32)"
    using w(2) by (intro uint_of_nat_small) simp
  have diff: "(if idx = 17 then f64_of_int 16 else f64_of_int (uint (shares - ts))) = f64_of_int (int n)"
    using n(1) by simp
  have t: "target_or_default (target_str w) = target_str w" by (simp add: target_or_default_def)
  have "retarget conv (target_str w) idx shares ts d = Ret (Some (target_str (of_nat (v64 div 2 ^ 32))))"
    unfolding retarget_str [OF t] diff scale_target_def uw z(1) v64_def ..
  moreover note truncated [OF v64]
  moreover note unscale(1) [OF _ bounds(1) truncated(2) [OF v64]] unscale(2) [OF _ truncated(1) [OF v64] bounds(2)]
  ultimately show ?thesis using v unfolding target_str_def
    by (intro exI [of _ "of_nat (v64 div 2 ^ 32)"]) (simp only: zero_less_power zero_less_numeral simp_thms)
qed

theorem retarget_accuracy_witness:
  "\<exists>v. retarget (\<lambda>_. 0) (hex_encode (le_put 4 (0x68db8 :: u32))) 17 17 0 80000000000
       = Ret (Some (hex_encode (le_put 4 (v :: u32)))) \<and> 429494 < (of_nat (unat v) :: rat)
    \<and> of_nat (unat v) \<le> (429497 :: rat)"
proof -
  obtain v where "retarget (\<lambda>_. 0) (hex_encode (le_put 4 (0x68db8 :: u32))) 17 17 0 80000000000
      = Ret (Some (hex_encode (le_put 4 (v :: u32))))"
    "429496 * (1 - 1 / 2 ^ 50) - 1 < (of_nat (unat v) :: rat)"
    "of_nat (unat v) \<le> 429496 * (1 + 1 / 2 ^ 50 :: rat)"
    using retarget_accuracy [of "0x68db8" 80000000000 16 17 17 0 "\<lambda>_. 0"] by auto
  then show ?thesis by (intro exI [of _ v]) simp
qed

text \<open>
  A target of zero stays zero, whatever the hash rate: once the shares come so fast that the
  scaled target rounds down to zero, no later refresh raises it.
\<close>

theorem retarget_zero:
  assumes "idx = 17 \<or> shares \<noteq> ts" and "0 < d" and "d < 2 ^ 63"
  shows "retarget conv ''00000000'' idx shares ts d = Ret (Some ''00000000'')"
proof -
  have t: "target_or_default ''00000000'' = target_str 0"
    by (simp add: target_or_default_def target_str_def le_put_def upt_rec hex_byte_zero)
  obtain s where s: "duration_seconds d = Fin s" using seconds_close [OF assms(2,3)] by blast
  define c where "c = (if idx = 17 then f64_of_int 16 else f64_of_int (uint (shares - ts)))"
  have "\<exists>k. c = f64_of_int k \<and> 1 \<le> k \<and> k < 2 ^ 64"
  proof (cases "idx = 17")
    case False
    then have "shares - ts \<noteq> 0" using assms(1) by simp
    then have "0 < uint (shares - ts)" by (rule uint_pos)
    then show ?thesis using uint_lt2p [of "shares - ts"] False
      by (intro exI [of _ "uint (shares - ts)"]) (simp add: c_def)
  qed (auto simp: c_def intro!: exI [of _ 16])
  then obtain k where k: "c = f64_of_int k" "1 \<le> k" "k < 2 ^ 64" by blast
  then have "(1 :: rat) \<le> of_int k" "(of_int k :: rat) < 2 ^ 64" by (simp_all flip: of_int_less_iff)
  then obtain y where y: "c = Fin y" "of_int k / 2 \<le> y" "y \<le> 2 * of_int k"
    using round_f64_factor_2 [of "of_int k"] k(1) by (auto simp: f64_of_int_def)
  have five: "f64_of_int (int submitInterval) = Fin 5"
    using f64_of_nat_exact [of 5] by (simp add: submitInterval_def)
  have "1 \<le> y * 5" "y * 5 < 2 ^ 100"
    using y \<open>(1 :: rat) \<le> of_int k\<close> \<open>(of_int k :: rat) < 2 ^ 64\<close> by simp_all
  then obtain b where b: "round_f64 (y * 5) = Fin b" "y * 5 / 2 \<le> b"
    using round_f64_factor_2 by blast
  then have "b \<noteq> 0" using \<open>1 \<le> y * 5\<close> by auto
  have z: "f64_of_int (uint (0 :: u64)) = Fin 0" by (simp add: f64_of_int_def round_f64_def)
  have "scale_target conv 0 d c = f64_to_u64 conv (f64_div (f64_mul (Fin 0) (Fin s)) (f64_mul (Fin y) (Fin 5)))"
    by (simp only: scale_target_def z s y(1) five)
  also have "\<dots> = 0" using b(1) \<open>b \<noteq> 0\<close> by (simp add: round_f64_def [of 0] f64_to_u64_def)
  finally have "scale_target conv 0 d c = 0" .
  then show ?thesis
    unfolding retarget_str [OF t] by (simp add: c_def target_str_def le_put_def upt_rec hex_byte_zero)
qed

theorem retarget_zero_witness:
  "retarget (\<lambda>_. 0) ''00000000'' 0 500 100 600000000000 = Ret (Some ''00000000'')"
  by (rule retarget_zero) simp_all

end
