(* ===== verification/ProxyState.thy ===== *)
theory ProxyState
  imports Share Target Connect SafeMap
begin

text \<open>
  The state that \<open>server/proxy\<close> and \<open>server/tcp\<close> share, and the ways a session ends:
  \<open>director.go\<close> (ids, the map of live proxies, the statistics), \<open>shutdown\<close>, \<open>Close\<close> and
  \<open>Remove\<close> of \<open>proxy.go\<close>, and \<open>Close\<close>, \<open>Disconnect\<close> and \<open>RemoveProxy\<close> of the worker in
  \<open>tcp/worker.go\<close>.

  Go pointers to proxies and workers are keys of two stores in the world; a worker has the key of
  the proxy that was made with it. Every operation of a proxy takes the mutex \<open>connMu\<close> first; a
  caller that already holds it deadlocks, which \<open>locked\<close> makes visible. Nothing here waits for
  another goroutine, so an operation is one step from world to world; \<open>jobMu\<close>, which no
  operation takes twice, is left out.
\<close>

subsection \<open>State\<close>

record director =
  currentProxyID :: u64
  proxies :: "u64 safemap"
  lastTotalShares :: u64
  deleteShares :: u64

text \<open>
  A worker: \<open>wk_p\<close> is its proxy pointer, \<open>wk_write_ok\<close> whether writing to the miner succeeds
  (the environment decides), \<open>wk_jobs\<close> the jobs sent to the miner, oldest first.
\<close>

record worker =
  wk_id :: u64
  wk_conn_open :: bool
  wk_p :: "u64 option"
  wk_write_ok :: bool
  wk_jobs :: "job list"

text \<open>
  A proxy. \<open>p_SS\<close> and \<open>p_director\<close> say that the pointer is not nil; the \<open>_closed\<close> flags are
  the states of the three channels; times are nanoseconds.
\<close>

record proxy =
  p_ID :: u64
  p_Conn :: "connection option"
  p_SS :: bool
  p_director :: bool
  p_shares :: u64
  p_worker :: "u64 option"
  p_submissions_closed :: bool
  p_notify_closed :: bool
  p_done_closed :: bool
  p_currentJob :: job
  p_PrevJobID :: string
  p_BeforePrevJobID :: string
  p_BeforeBeforePrevJobID :: string
  p_connMu :: bool
  p_isClosed :: bool
  p_addressHash :: "byte list"
  p_address :: string
  p_fieldOut :: u64
  p_fieldIn :: u64
  p_recvCount :: nat
  p_recvByte :: "byte list"
  p_target :: string
  p_targetSince :: int
  p_lastSend :: int
  p_miniResult :: u64
  p_miniNonce :: u32
  p_targetShare :: u64
  p_minerName :: string

record world =
  w_poolIsDown :: u64
  w_eofCount :: u64
  w_PoolDown :: u64
  w_director :: director
  w_proxies :: "u64 \<Rightarrow> proxy"
  w_workers :: "u64 \<Rightarrow> worker"

definition eofLimit :: u64 where "eofLimit = 3"
definition detectProxy :: string where "detectProxy = ''XDAG_POOL_RESTART_DETECT_PROXY''"
definition detectAddr :: string where "detectAddr = ''NO_ADDRESS_PROXY_0''"
definition MaxUint64 :: u64 where "MaxUint64 = 0xFFFFFFFFFFFFFFFF"

definition upd_proxy :: "u64 \<Rightarrow> (proxy \<Rightarrow> proxy) \<Rightarrow> world \<Rightarrow> world" where
  "upd_proxy i f w = w\<lparr>w_proxies := (w_proxies w)(i := f (w_proxies w i))\<rparr>"

definition upd_worker :: "u64 \<Rightarrow> (worker \<Rightarrow> worker) \<Rightarrow> world \<Rightarrow> world" where
  "upd_worker k f w = w\<lparr>w_workers := (w_workers w)(k := f (w_workers w k))\<rparr>"

text \<open>\<open>p.connMu.Lock(); defer p.connMu.Unlock()\<close> around an operation.\<close>

definition locked :: "u64 \<Rightarrow> (world \<Rightarrow> world go) \<Rightarrow> world \<Rightarrow> world go" where
  "locked i f w =
     (if p_connMu (w_proxies w i) then Deadlock
      else go_bind (f (upd_proxy i (\<lambda>p. p\<lparr>p_connMu := True\<rparr>) w))
             (\<lambda>w. Ret (upd_proxy i (\<lambda>p. p\<lparr>p_connMu := False\<rparr>) w)))"

subsection \<open>Director\<close>

definition newDirector :: director where
  "newDirector = \<lparr>currentProxyID = 0, proxies = NewSafeMap, lastTotalShares = 0, deleteShares = 0\<rparr>"

definition nextProxyID :: "director \<Rightarrow> u64 \<times> director" where
  "nextProxyID d = (currentProxyID d + 1, d\<lparr>currentProxyID := currentProxyID d + 1\<rparr>)"

text \<open>\<open>NewProxy\<close>: \<open>now\<close> is the clock, \<open>prev\<close> the result of \<open>NewLen(28)\<close>.\<close>

definition NewProxy :: "u64 \<Rightarrow> int \<Rightarrow> string \<Rightarrow> proxy" where
  "NewProxy pid now prev =
     \<lparr>p_ID = pid, p_Conn = None, p_SS = True, p_director = False, p_shares = 0, p_worker = None,
      p_submissions_closed = False, p_notify_closed = False, p_done_closed = False,
      p_currentJob = empty_job, p_PrevJobID = prev, p_BeforePrevJobID = [],
      p_BeforeBeforePrevJobID = [], p_connMu = False, p_isClosed = False,
      p_addressHash = replicate 24 0, p_address = [], p_fieldOut = 0, p_fieldIn = 0,
      p_recvCount = 0, p_recvByte = replicate 64 0, p_target = [], p_targetSince = 0,
      p_lastSend = now, p_miniResult = MaxUint64, p_miniNonce = 0, p_targetShare = 0,
      p_minerName = []\<rparr>"

definition addProxy :: "int \<Rightarrow> string \<Rightarrow> world \<Rightarrow> u64 \<times> world" where
  "addProxy now prev w =
     (case nextProxyID (w_director w) of (pid, d) \<Rightarrow>
        let p = (NewProxy pid now prev)\<lparr>p_director := True\<rparr>;
            d = d\<lparr>proxies := sm_set (proxies d) pid pid\<rparr>
        in (pid, w\<lparr>w_director := d, w_proxies := (w_proxies w)(pid := p)\<rparr>))"

definition NextProxy :: "int \<Rightarrow> string \<Rightarrow> world \<Rightarrow> u64 \<times> world" where
  "NextProxy now prev w = addProxy now prev w"

definition removeProxy :: "u64 \<Rightarrow> world \<Rightarrow> world" where
  "removeProxy pid w =
     (let d = w_director w;
          d = (case sm_get (proxies d) pid of
                 Some p \<Rightarrow> d\<lparr>deleteShares := deleteShares d + p_shares (w_proxies w p)\<rparr>
               | None \<Rightarrow> d)
      in w\<lparr>w_director := d\<lparr>proxies := sm_del (proxies d) pid\<rparr>\<rparr>)"

record stats =
  st_Proxies :: nat
  st_Workers :: nat
  st_Shares :: u64
  st_NewShares :: u64

text \<open>
  \<open>GetStats\<close>: the callback of \<open>Range\<close> threads the two counts and the sum. It has no mutex in common with
  \<open>removeProxy\<close>; both are in one go here, and theory Stats takes them apart.
\<close>

definition GetStats :: "world \<Rightarrow> stats \<times> world" where
  "GetStats w =
     (let d = w_director w;
          (np, nw, total) = sm_range (\<lambda>k p (np, nw, t). ((np + 1, nw + 1, t + p_shares (w_proxies w p)), True))
                                     (proxies d) (0, 0, 0);
          total = total + deleteShares d;
          recent = total - lastTotalShares d
      in (\<lparr>st_Proxies = np, st_Workers = nw, st_Shares = total, st_NewShares = recent\<rparr>,
          w\<lparr>w_director := d\<lparr>lastTotalShares := total\<rparr>\<rparr>))"

text \<open>\<open>printStats\<close>: the statistics that are printed, or none while the pool is down.\<close>

definition printStats :: "world \<Rightarrow> stats option \<times> world" where
  "printStats w =
     (if 0 < w_poolIsDown w then (None, w) else case GetStats w of (s, w) \<Rightarrow> (Some s, w))"

text \<open>
  \<open>newDirector\<close> starts \<open>run\<close>, whose \<open>time.NewTicker\<close> panics on an interval that is not
  positive.
\<close>

definition director_run_start :: "config \<Rightarrow> unit go" where
  "director_run_start cfg = (if StatInterval cfg \<le> 0 then Panic else Ret ())"

subsection \<open>Ending a session\<close>

text \<open>\<open>Worker.Close\<close>\<close>

definition worker_Close :: "u64 \<Rightarrow> world \<Rightarrow> world" where
  "worker_Close k w = upd_worker k (\<lambda>x. x\<lparr>wk_p := None, wk_conn_open := False\<rparr>) w"

definition close_worker_of :: "u64 \<Rightarrow> world \<Rightarrow> world" where
  "close_worker_of i w =
     (case p_worker (w_proxies w i) of Some k \<Rightarrow> worker_Close k w | None \<Rightarrow> w)"

text \<open>\<open>if p.Conn != nil { p.Conn.Close() }\<close>\<close>

definition close_conn_of :: "u64 \<Rightarrow> world \<Rightarrow> world go" where
  "close_conn_of i w =
     (case p_Conn (w_proxies w i) of
        None \<Rightarrow> Ret w
      | Some c \<Rightarrow> go_bind (conn_Close c) (\<lambda>c. Ret (upd_proxy i (\<lambda>p. p\<lparr>p_Conn := Some c\<rparr>) w)))"

text \<open>Closing the channels, leaving the director and clearing the pointers, in the order of the
  source; \<open>done\<close> is closed before the director is left and the other two after.\<close>

definition leave_director :: "u64 \<Rightarrow> world \<Rightarrow> world go" where
  "leave_director i w =
     (if p_director (w_proxies w i) then Ret (removeProxy (p_ID (w_proxies w i)) w) else Panic)"

definition clear_pointers :: "u64 \<Rightarrow> world \<Rightarrow> world" where
  "clear_pointers i w = upd_proxy i (\<lambda>p. p\<lparr>p_worker := None, p_SS := False, p_director := False\<rparr>) w"

definition close_done :: "u64 \<Rightarrow> world \<Rightarrow> world go" where
  "close_done i w =
     (if p_done_closed (w_proxies w i) then Panic
      else Ret (upd_proxy i (\<lambda>p. p\<lparr>p_done_closed := True\<rparr>) w))"

definition close_notify :: "u64 \<Rightarrow> world \<Rightarrow> world go" where
  "close_notify i w =
     (if p_notify_closed (w_proxies w i) then Panic
      else Ret (upd_proxy i (\<lambda>p. p\<lparr>p_notify_closed := True\<rparr>) w))"

definition close_submissions :: "u64 \<Rightarrow> world \<Rightarrow> world go" where
  "close_submissions i w =
     (if p_submissions_closed (w_proxies w i) then Panic
      else Ret (upd_proxy i (\<lambda>p. p\<lparr>p_submissions_closed := True\<rparr>) w))"

text \<open>The common tail of \<open>shutdown\<close> and \<open>Close\<close>.\<close>

definition dismantle :: "u64 \<Rightarrow> world \<Rightarrow> world go" where
  "dismantle i w =
     go_bind
       (if 0 < p_ID (w_proxies w i) then
          go_bind (close_done i w) (\<lambda>w.
          go_bind (leave_director i w) (\<lambda>w.
          go_bind (close_notify i (clear_pointers i w)) (close_submissions i)))
        else Ret w)
       (\<lambda>w. Ret (upd_proxy i (\<lambda>p. p\<lparr>p_Conn := None, p_isClosed := True\<rparr>) w))"

definition pool_down :: "config \<Rightarrow> world \<Rightarrow> world go" where
  "pool_down cfg w = (if ExitOnPoolDown cfg then Exit else Ret w)"

definition shutdown :: "config \<Rightarrow> int \<Rightarrow> u64 \<Rightarrow> world \<Rightarrow> world go" where
  "shutdown cfg cl i = locked i (\<lambda>w.
     if p_isClosed (w_proxies w i) then Ret w
     else
       go_bind
         (if cl = 0 then close_conn_of i w
          else if cl = 1 then
            (let w = close_worker_of i w; p = w_proxies w i in
             if p_fieldIn p = 0 \<and> p_fieldOut p < 18 then
               (case p_Conn p of
                  None \<Rightarrow> Panic
                | Some c \<Rightarrow>
                    if 0 < c_EOFcount c then
                      let w = w\<lparr>w_eofCount := w_eofCount w + 1\<rparr> in
                      if eofLimit < w_eofCount w
                      then pool_down cfg (w\<lparr>w_poolIsDown := w_poolIsDown w + 1\<rparr>)
                      else Ret w
                    else Ret w)
             else Ret w)
          else if cl = 2 then
            pool_down cfg (close_worker_of i (w\<lparr>w_poolIsDown := w_poolIsDown w + 1\<rparr>))
          else if cl = -1 then
            go_bind (close_conn_of i w) (\<lambda>w. Ret (close_worker_of i w))
          else Ret w)
         (dismantle i))"

definition proxy_Close :: "u64 \<Rightarrow> world \<Rightarrow> world go" where
  "proxy_Close i = locked i (\<lambda>w.
     if p_isClosed (w_proxies w i) then Ret w
     else go_bind (close_conn_of i w) (dismantle i))"

definition proxy_Remove :: "u64 \<Rightarrow> world \<Rightarrow> world go" where
  "proxy_Remove i = locked i (\<lambda>w.
     if p_isClosed (w_proxies w i) then Ret w
     else
       go_bind (close_conn_of i w) (\<lambda>w.
       go_bind (leave_director i w) (\<lambda>w.
       let w = upd_proxy i (\<lambda>p. p\<lparr>p_Conn := None\<rparr>) (clear_pointers i w) in
       go_bind (close_done i w) (\<lambda>w.
       go_bind (close_notify i w) (\<lambda>w.
       go_bind (close_submissions i w) (\<lambda>w.
         Ret (upd_proxy i (\<lambda>p. p\<lparr>p_isClosed := True\<rparr>) w)))))))"

text \<open>\<open>Worker.Disconnect\<close> and \<open>Worker.RemoveProxy\<close>\<close>

definition worker_Disconnect :: "u64 \<Rightarrow> world \<Rightarrow> world go" where
  "worker_Disconnect k w =
     (let w = upd_worker k (\<lambda>x. x\<lparr>wk_conn_open := False\<rparr>) w in
      case wk_p (w_workers w k) of
        None \<Rightarrow> Ret w
      | Some i \<Rightarrow> go_bind (proxy_Remove i w) (\<lambda>w. Ret (upd_worker k (\<lambda>x. x\<lparr>wk_p := None\<rparr>) w)))"

definition worker_RemoveProxy :: "u64 \<Rightarrow> world \<Rightarrow> world go" where
  "worker_RemoveProxy k w =
     (case wk_p (w_workers w k) of
        None \<Rightarrow> Ret w
      | Some i \<Rightarrow> go_bind (proxy_Close i w) (\<lambda>w. Ret (upd_worker k (\<lambda>x. x\<lparr>wk_p := None\<rparr>) w)))"

subsection \<open>Lemmas\<close>

lemma upd_proxy_simps [simp]:
  "w_proxies (upd_proxy i f w) = (w_proxies w)(i := f (w_proxies w i))"
  "w_director (upd_proxy i f w) = w_director w"
  "w_workers (upd_proxy i f w) = w_workers w"
  "w_poolIsDown (upd_proxy i f w) = w_poolIsDown w"
  "w_eofCount (upd_proxy i f w) = w_eofCount w"
  "w_PoolDown (upd_proxy i f w) = w_PoolDown w"
  by (simp_all add: upd_proxy_def)

lemma upd_worker_simps [simp]:
  "w_workers (upd_worker k g w) = (w_workers w)(k := g (w_workers w k))"
  "w_director (upd_worker k g w) = w_director w"
  "w_proxies (upd_worker k g w) = w_proxies w"
  "w_poolIsDown (upd_worker k g w) = w_poolIsDown w"
  by (simp_all add: upd_worker_def)

lemma upd_proxy_upd [simp]: "upd_proxy i f (upd_proxy i g w) = upd_proxy i (\<lambda>p. f (g p)) w"
  by (simp add: upd_proxy_def)

lemma upd_proxy_same: "f (w_proxies w i) = w_proxies w i \<Longrightarrow> upd_proxy i f w = w"
  by (simp add: upd_proxy_def fun_upd_idem)

lemma upd_proxy_cong: "f (w_proxies w i) = g (w_proxies w i) \<Longrightarrow> upd_proxy i f w = upd_proxy i g w"
  by (simp add: upd_proxy_def)

lemma removeProxy_upd_proxy:
  "(\<And>p. p_shares (f p) = p_shares p) \<Longrightarrow> removeProxy j (upd_proxy i f w) = upd_proxy i f (removeProxy j w)"
  by (simp add: removeProxy_def upd_proxy_def Let_def split: option.split)

lemma removeProxy_simps [simp]:
  "w_proxies (removeProxy j w) = w_proxies w" "w_workers (removeProxy j w) = w_workers w"
  "w_poolIsDown (removeProxy j w) = w_poolIsDown w"
  "currentProxyID (w_director (removeProxy j w)) = currentProxyID (w_director w)"
  "lastTotalShares (w_director (removeProxy j w)) = lastTotalShares (w_director w)"
  "proxies (w_director (removeProxy j w)) = sm_del (proxies (w_director w)) j"
  by (simp_all add: removeProxy_def Let_def split: option.split)

lemma unlock_lock: "\<not> p_connMu (w_proxies w i) \<Longrightarrow> upd_proxy i (\<lambda>p. p\<lparr>p_connMu := False\<rparr>) w = w"
  by (rule upd_proxy_same) simp

text \<open>What becomes of a proxy that ends, and of the world.\<close>

definition ended :: "proxy \<Rightarrow> proxy" where
  "ended p = p\<lparr>p_Conn := None, p_SS := False, p_director := False, p_worker := None,
     p_submissions_closed := True, p_notify_closed := True, p_done_closed := True,
     p_isClosed := True\<rparr>"

definition session_end :: "u64 \<Rightarrow> world \<Rightarrow> world" where
  "session_end i w = upd_proxy i ended (removeProxy i w)"

text \<open>
  The invariant: a session that has not ended is known to the director under its id, its channels
  are open and its connection is in order; one that has ended is not. No mutex is held between
  operations.
\<close>

definition session_ok :: "world \<Rightarrow> u64 \<Rightarrow> bool" where
  "session_ok w i \<longleftrightarrow>
     (let p = w_proxies w i in
      p_ID p = i \<and> \<not> p_connMu p \<and>
      (if p_isClosed p then sm_get (proxies (w_director w)) i = None
       else p_director p \<and> \<not> p_submissions_closed p \<and> \<not> p_notify_closed p \<and> \<not> p_done_closed p
         \<and> (\<forall>c. p_Conn p = Some c \<longrightarrow> conn_inv c)
         \<and> sm_get (proxies (w_director w)) i = Some i))"

definition live_id :: "world \<Rightarrow> u64 \<Rightarrow> bool" where
  "live_id w i \<longleftrightarrow> 0 < i \<and> i \<le> currentProxyID (w_director w)"

definition world_inv :: "world \<Rightarrow> bool" where
  "world_inv w \<longleftrightarrow> sm_inv (proxies (w_director w)) \<and>
     (\<forall>i. live_id w i \<longrightarrow> session_ok w i) \<and>
     (\<forall>i. sm_get (proxies (w_director w)) i \<noteq> None \<longrightarrow> live_id w i)"

lemma world_invD:
  "world_inv w \<Longrightarrow> live_id w i \<Longrightarrow> session_ok w i"
  "world_inv w \<Longrightarrow> sm_inv (proxies (w_director w))"
  by (simp_all add: world_inv_def)

lemmas ending_defs = proxy_Close_def proxy_Remove_def shutdown_def locked_def dismantle_def
  close_done_def close_notify_def close_submissions_def leave_director_def clear_pointers_def
  close_conn_of_def

lemma conn_close_cases:
  "session_ok w i \<Longrightarrow> \<not> p_isClosed (w_proxies w i) \<Longrightarrow>
   p_Conn (w_proxies w i) = None \<or> (\<exists>c d. p_Conn (w_proxies w i) = Some c \<and> conn_Close c = Ret d)"
  using conn.close_total by (cases "p_Conn (w_proxies w i)") (fastforce simp: session_ok_def Let_def)+

lemma proxy_Close_open:
  assumes "session_ok w i" and "0 < i" and "\<not> p_isClosed (w_proxies w i)"
  shows "proxy_Close i w = Ret (session_end i w)"
  using assms conn_close_cases [OF assms(1,3)]
  by (auto simp: ending_defs session_ok_def Let_def session_end_def ended_def removeProxy_upd_proxy
      intro!: upd_proxy_cong)

lemma proxy_Remove_open:
  assumes "session_ok w i" and "0 < i" and "\<not> p_isClosed (w_proxies w i)"
  shows "proxy_Remove i w = Ret (session_end i w)"
  using assms conn_close_cases [OF assms(1,3)]
  by (auto simp: ending_defs session_ok_def Let_def session_end_def ended_def removeProxy_upd_proxy
      intro!: upd_proxy_cong)

lemma closed_noop:
  assumes "session_ok w i" and "p_isClosed (w_proxies w i)"
  shows "proxy_Close i w = Ret w" "proxy_Remove i w = Ret w" "shutdown cfg cl i w = Ret w"
  using assms by (simp_all add: ending_defs session_ok_def Let_def unlock_lock)

lemma close_worker_of_simps [simp]:
  "w_proxies (close_worker_of i w) = w_proxies w" "w_director (close_worker_of i w) = w_director w"
  "w_poolIsDown (close_worker_of i w) = w_poolIsDown w"
  by (simp_all add: close_worker_of_def worker_Close_def split: option.split)

lemma dismantle_open:
  assumes "0 < p_ID (w_proxies w i)" and "p_director (w_proxies w i)"
    and "\<not> p_submissions_closed (w_proxies w i)" "\<not> p_notify_closed (w_proxies w i)"
    "\<not> p_done_closed (w_proxies w i)"
  shows "dismantle i w = Ret (upd_proxy i ended (removeProxy (p_ID (w_proxies w i)) w))"
  using assms
  by (auto simp: dismantle_def close_done_def leave_director_def close_notify_def clear_pointers_def
      close_submissions_def removeProxy_upd_proxy ended_def intro!: upd_proxy_cong)

lemma close_worker_upd:
  "(\<And>p. p_worker (f p) = p_worker p) \<Longrightarrow>
   close_worker_of i (upd_proxy i f w) = upd_proxy i f (close_worker_of i w)"
  by (simp add: close_worker_of_def worker_Close_def upd_worker_def upd_proxy_def split: option.split)

lemma close_conn_open:
  assumes "\<forall>c. p_Conn (w_proxies w i) = Some c \<longrightarrow> conn_inv c"
  shows "\<exists>c. close_conn_of i w = Ret (upd_proxy i (\<lambda>p. p\<lparr>p_Conn := c\<rparr>) w)"
proof (cases "p_Conn (w_proxies w i)")
  case None
  then have "upd_proxy i (\<lambda>p. p\<lparr>p_Conn := None\<rparr>) w = w" by (intro upd_proxy_same) simp
  with None show ?thesis by (intro exI [of _ None]) (simp add: close_conn_of_def)
next
  case (Some c)
  then obtain d where "conn_Close c = Ret d" using assms conn.close_total by blast
  with Some show ?thesis by (auto simp: close_conn_of_def)
qed

lemma locked_open:
  "\<not> p_connMu (w_proxies w i) \<Longrightarrow>
   f (upd_proxy i (\<lambda>p. p\<lparr>p_connMu := True\<rparr>) w) = Ret (upd_proxy i g v) \<Longrightarrow>
   locked i f w = Ret (upd_proxy i (\<lambda>p. (g p)\<lparr>p_connMu := False\<rparr>) v)"
  by (simp add: locked_def)

lemma shutdown_0: "shutdown cfg 0 i = proxy_Close i"
  by (simp add: shutdown_def proxy_Close_def fun_eq_iff locked_def)

lemma shutdown_open:
  assumes "session_ok w i" and "0 < i" and "\<not> p_isClosed (w_proxies w i)"
  shows "shutdown cfg (-1) i w = Ret (session_end i (close_worker_of i w))"
    and "shutdown cfg 2 i w =
      (if ExitOnPoolDown cfg then Exit
       else Ret (session_end i (close_worker_of i (w\<lparr>w_poolIsDown := w_poolIsDown w + 1\<rparr>))))"
proof -
  let ?lock = "upd_proxy i (\<lambda>p. p\<lparr>p_connMu := True\<rparr>)"
  obtain c where c: "close_conn_of i (?lock w) = Ret (upd_proxy i (\<lambda>p. p\<lparr>p_Conn := c\<rparr>) (?lock w))"
    using close_conn_open [of "?lock w" i] assms by (auto simp: session_ok_def Let_def)
  let ?f = "\<lambda>p. p\<lparr>p_connMu := True, p_Conn := c\<rparr>"
  have "shutdown cfg (-1) i w
      = go_bind (dismantle i (close_worker_of i (upd_proxy i ?f w)))
          (\<lambda>w. Ret (upd_proxy i (\<lambda>p. p\<lparr>p_connMu := False\<rparr>) w))"
    using assms c by (simp add: shutdown_def locked_def session_ok_def Let_def)
  also have "\<dots> = Ret (session_end i (close_worker_of i w))"
    using assms
    by (subst dismantle_open)
      (auto simp: session_ok_def Let_def close_worker_upd removeProxy_upd_proxy session_end_def
        ended_def intro!: upd_proxy_cong)
  finally show "shutdown cfg (-1) i w = Ret (session_end i (close_worker_of i w))" .
  let ?w = "w\<lparr>w_poolIsDown := w_poolIsDown w + 1\<rparr>"
  have lock: "(?lock w)\<lparr>w_poolIsDown := w_poolIsDown w + 1\<rparr> = ?lock ?w" by (simp add: upd_proxy_def)
  have "shutdown cfg 2 i w =
      (if ExitOnPoolDown cfg then Exit
       else go_bind (dismantle i (close_worker_of i (?lock ?w)))
          (\<lambda>w. Ret (upd_proxy i (\<lambda>p. p\<lparr>p_connMu := False\<rparr>) w)))"
    using assms by (simp add: shutdown_def locked_def session_ok_def Let_def pool_down_def lock)
  also have "go_bind (dismantle i (close_worker_of i (?lock ?w)))
          (\<lambda>w. Ret (upd_proxy i (\<lambda>p. p\<lparr>p_connMu := False\<rparr>) w))
      = Ret (session_end i (close_worker_of i ?w))"
    using assms
    by (subst dismantle_open)
      (auto simp: session_ok_def Let_def close_worker_upd removeProxy_upd_proxy session_end_def
        ended_def intro!: upd_proxy_cong)
  finally show "shutdown cfg 2 i w =
      (if ExitOnPoolDown cfg then Exit else Ret (session_end i (close_worker_of i ?w)))" .
qed

lemma session_ok_cong:
  "w_proxies v i = w_proxies w i \<Longrightarrow>
   sm_get (proxies (w_director v)) i = sm_get (proxies (w_director w)) i \<Longrightarrow>
   session_ok v i = session_ok w i"
  by (simp add: session_ok_def)

lemma world_inv_cong:
  "w_proxies v = w_proxies w \<Longrightarrow> proxies (w_director v) = proxies (w_director w) \<Longrightarrow>
   currentProxyID (w_director v) = currentProxyID (w_director w) \<Longrightarrow> world_inv v = world_inv w"
  unfolding world_inv_def session_ok_def live_id_def by (simp only:)

lemma session_end_simps [simp]:
  "w_proxies (session_end i w) = (w_proxies w)(i := ended (w_proxies w i))"
  "w_workers (session_end i w) = w_workers w"
  "w_poolIsDown (session_end i w) = w_poolIsDown w"
  "proxies (w_director (session_end i w)) = sm_del (proxies (w_director w)) i"
  "currentProxyID (w_director (session_end i w)) = currentProxyID (w_director w)"
  by (simp_all add: session_end_def)

lemma session_end_inv:
  assumes "world_inv w" and "live_id w i"
  shows "world_inv (session_end i w)"
proof -
  have sm: "sm_inv (proxies (w_director w))" by (rule world_invD(2) [OF assms(1)])
  note get = sm.get_del [OF sm, of i]
  have "session_ok (session_end i w) j" if "live_id w j" for j
  proof (cases "j = i")
    case True
    with world_invD(1) [OF assms] show ?thesis
      by (simp add: session_ok_def Let_def get ended_def)
  next
    case False
    with world_invD(1) [OF assms(1) that] show ?thesis
      using session_ok_cong [of "session_end i w" j w] by (simp add: get)
  qed
  moreover have "live_id (session_end i w) j = live_id w j" for j by (simp add: live_id_def)
  ultimately show ?thesis
    using assms(1) sm.inv_del [OF sm] get by (simp add: world_inv_def)
qed

subsection \<open>Statistics\<close>

definition total_shares :: "world \<Rightarrow> u64" where
  "total_shares w =
     sum_list (map (\<lambda>(k, p). p_shares (w_proxies w p)) (sm_entries (proxies (w_director w))))
     + deleteShares (w_director w)"

lemma range_stats:
  "range_list (\<lambda>k p (np, nw, t). ((Suc np, Suc nw, t + f p), True)) es (a, b, c)
   = ((a + length es, b + length es, c + sum_list (map (\<lambda>(k, p). f p) es)), True)"
  by (induction es arbitrary: a b c) (auto simp: algebra_simps)

lemma GetStats_eq:
  "GetStats w =
     (\<lparr>st_Proxies = sm_size (proxies (w_director w)), st_Workers = sm_size (proxies (w_director w)),
       st_Shares = total_shares w, st_NewShares = total_shares w - lastTotalShares (w_director w)\<rparr>,
      w\<lparr>w_director := (w_director w)\<lparr>lastTotalShares := total_shares w\<rparr>\<rparr>)"
  by (simp add: GetStats_def sm_range_entries range_stats total_shares_def Let_def sm_size_entries)

lemma entries_keys:
  assumes "world_inv w" and "(k, p) \<in> set (sm_entries (proxies (w_director w)))"
  shows "p = k \<and> live_id w k \<and> \<not> p_isClosed (w_proxies w k)"
proof -
  have sm: "sm_inv (proxies (w_director w))" by (rule world_invD(2) [OF assms(1)])
  have get: "sm_get (proxies (w_director w)) k = Some p"
    using assms(2) sm.entries_get [OF sm] sm.entries_distinct [OF sm]
    by (metis map_of_is_SomeI)
  then have "live_id w k" using assms(1) by (auto simp: world_inv_def)
  with get world_invD(1) [OF assms(1) this] show ?thesis
    by (auto simp: session_ok_def Let_def split: if_splits)
qed

lemma session_end_total:
  assumes "world_inv w" and "live_id w i" and "\<not> p_isClosed (w_proxies w i)"
  shows "total_shares (session_end i w) = total_shares w"
proof -
  let ?m = "proxies (w_director w)" and ?f = "\<lambda>k p. p_shares (w_proxies w p)"
  have sm: "sm_inv ?m" by (rule world_invD(2) [OF assms(1)])
  have get: "sm_get ?m i = Some i"
    using world_invD(1) [OF assms(1,2)] assms(3) by (simp add: session_ok_def Let_def)
  have "p_shares (w_proxies (session_end i w) p) = p_shares (w_proxies w p)" for p
    by (simp add: ended_def)
  moreover have "deleteShares (w_director (session_end i w))
      = deleteShares (w_director w) + p_shares (w_proxies w i)"
    by (simp add: session_end_def removeProxy_def get Let_def)
  ultimately show ?thesis
    using sm.sum_del [OF sm get, of ?f] by (simp only: total_shares_def session_end_simps) simp
qed

lemma addProxy_fields:
  "fst (addProxy now prev w) = currentProxyID (w_director w) + 1"
  "w_proxies (snd (addProxy now prev w)) = (w_proxies w)(currentProxyID (w_director w) + 1 :=
     (NewProxy (currentProxyID (w_director w) + 1) now prev)\<lparr>p_director := True\<rparr>)"
  "w_director (snd (addProxy now prev w)) = (w_director w)\<lparr>
     currentProxyID := currentProxyID (w_director w) + 1,
     proxies := sm_set (proxies (w_director w)) (currentProxyID (w_director w) + 1)
                       (currentProxyID (w_director w) + 1)\<rparr>"
  by (simp_all add: addProxy_def nextProxyID_def Let_def)

definition id_room :: "world \<Rightarrow> bool" where
  "id_room w \<longleftrightarrow> currentProxyID (w_director w) \<noteq> MaxUint64"

lemma next_id:
  assumes "id_room w"
  shows "0 < currentProxyID (w_director w) + 1"
    and "i \<le> currentProxyID (w_director w) + 1 \<longleftrightarrow>
      i = currentProxyID (w_director w) + 1 \<or> i \<le> currentProxyID (w_director w)"
    and "\<not> currentProxyID (w_director w) + 1 \<le> currentProxyID (w_director w)"
proof -
  have "MaxUint64 = - 1" by (simp add: MaxUint64_def)
  then have "currentProxyID (w_director w) \<noteq> - 1" using assms by (simp only: id_room_def not_False_eq_True)
  note next_word [OF this]
  then show "0 < currentProxyID (w_director w) + 1"
    and "i \<le> currentProxyID (w_director w) + 1 \<longleftrightarrow>
      i = currentProxyID (w_director w) + 1 \<or> i \<le> currentProxyID (w_director w)"
    and "\<not> currentProxyID (w_director w) + 1 \<le> currentProxyID (w_director w)" by blast+
qed

lemma fresh_id:
  assumes "world_inv w" and "id_room w"
  shows "sm_get (proxies (w_director w)) (currentProxyID (w_director w) + 1) = None"
proof -
  have "\<not> live_id w (currentProxyID (w_director w) + 1)"
    using next_id(3) [OF assms(2)] by (simp add: live_id_def)
  then show ?thesis using assms(1) by (auto simp: world_inv_def)
qed

lemma addProxy_inv:
  assumes "world_inv w" and "id_room w"
  shows "world_inv (snd (addProxy now prev w))"
proof -
  let ?c = "currentProxyID (w_director w)" and ?v = "snd (addProxy now prev w)"
  have sm: "sm_inv (proxies (w_director w))" by (rule world_invD(2) [OF assms(1)])
  have get: "sm_get (proxies (w_director ?v)) = (sm_get (proxies (w_director w)))(?c + 1 \<mapsto> ?c + 1)"
    using sm.get_put [OF sm] by (simp add: addProxy_fields)
  have live: "live_id ?v j \<longleftrightarrow> j = ?c + 1 \<or> live_id w j" for j
    using next_id(1) [OF assms(2)] next_id(2) [OF assms(2), of j] by (auto simp: live_id_def addProxy_fields)
  have "session_ok ?v j" if "live_id ?v j" for j
  proof (cases "j = ?c + 1")
    case True
    then show ?thesis
      unfolding session_ok_def Let_def get by (simp add: addProxy_fields NewProxy_def)
  next
    case False
    with that live have "live_id w j" by simp
    with False show ?thesis
      using world_invD(1) [OF assms(1)] session_ok_cong [of ?v j w] get
      by (simp add: addProxy_fields)
  qed
  moreover have "live_id ?v j" if "sm_get (proxies (w_director ?v)) j \<noteq> None" for j
    using that assms(1) live [of j] unfolding get by (auto simp: world_inv_def split: if_splits)
  moreover have "sm_inv (proxies (w_director ?v))"
    using sm.inv_put [OF sm] by (simp add: addProxy_fields)
  ultimately show ?thesis by (simp add: world_inv_def)
qed

subsection \<open>More on the invariant\<close>

lemma world_inv_init: "w_director w = newDirector \<Longrightarrow> world_inv w"
  by (auto simp: world_inv_def live_id_def newDirector_def sm.inv_empty sm.get_empty)

lemma upd_session_inv:
  assumes "world_inv w"
    and "\<And>p. p_ID (f p) = p_ID p" "\<And>p. p_connMu (f p) = p_connMu p" "\<And>p. p_isClosed (f p) = p_isClosed p"
      "\<And>p. p_director (f p) = p_director p" "\<And>p. p_submissions_closed (f p) = p_submissions_closed p"
      "\<And>p. p_notify_closed (f p) = p_notify_closed p" "\<And>p. p_done_closed (f p) = p_done_closed p"
    and "\<forall>c. p_Conn (f (w_proxies w i)) = Some c \<longrightarrow> p_Conn (w_proxies w i) = Some c \<or> conn_inv c"
  shows "world_inv (upd_proxy i f w)"
proof -
  have "session_ok (upd_proxy i f w) j" if "session_ok w j" for j
    using that assms(2-9) by (auto simp: session_ok_def Let_def)
  then show ?thesis using assms(1) by (auto simp: world_inv_def live_id_def)
qed

interpretation proxy_close: closable "\<lambda>w. p_isClosed (w_proxies w i)" "proxy_Close i"
    "\<lambda>w. world_inv w \<and> live_id w i" for i
proof
  fix w assume w: "world_inv w \<and> live_id w i"
  then have ok: "session_ok w i" "0 < i" by (auto simp: live_id_def dest: world_invD(1))
  show "proxy_Close i w = Ret w" if "p_isClosed (w_proxies w i)"
    using closed_noop(1) [OF ok(1) that] .
  show "\<exists>t. proxy_Close i w = Ret t \<and> p_isClosed (w_proxies t i) \<and> world_inv t \<and> live_id t i"
    if "\<not> p_isClosed (w_proxies w i)"
    using proxy_Close_open [OF ok that] session_end_inv [of w i] w
    by (auto simp: ended_def live_id_def)
qed

interpretation proxy_remove: closable "\<lambda>w. p_isClosed (w_proxies w i)" "proxy_Remove i"
    "\<lambda>w. world_inv w \<and> live_id w i" for i
proof
  fix w assume w: "world_inv w \<and> live_id w i"
  then have ok: "session_ok w i" "0 < i" by (auto simp: live_id_def dest: world_invD(1))
  show "proxy_Remove i w = Ret w" if "p_isClosed (w_proxies w i)"
    using closed_noop(2) [OF ok(1) that] .
  show "\<exists>t. proxy_Remove i w = Ret t \<and> p_isClosed (w_proxies t i) \<and> world_inv t \<and> live_id t i"
    if "\<not> p_isClosed (w_proxies w i)"
    using proxy_Remove_open [OF ok that] session_end_inv [of w i] w
    by (auto simp: ended_def live_id_def)
qed

subsection \<open>Properties\<close>

text \<open>A fresh world, and one with one session.\<close>

definition demo_base :: world where
  "demo_base = \<lparr>w_poolIsDown = 0, w_eofCount = 0, w_PoolDown = 0, w_director = newDirector,
     w_proxies = (\<lambda>_. NewProxy 0 0 []),
     w_workers = (\<lambda>_. \<lparr>wk_id = 0, wk_conn_open = True, wk_p = None, wk_write_ok = True, wk_jobs = []\<rparr>)\<rparr>"

definition demo_world :: world where
  "demo_world = snd (addProxy 0 [] demo_base)"

lemma demo_world_ok:
  "world_inv demo_world" "live_id demo_world 1" "\<not> p_isClosed (w_proxies demo_world 1)"
  "currentProxyID (w_director demo_world) = 1" "p_ID (w_proxies demo_world 1) = 1"
  "p_worker (w_proxies demo_world 1) = None" "w_poolIsDown demo_world = 0"
proof -
  show "world_inv demo_world"
    unfolding demo_world_def demo_base_def
    by (rule addProxy_inv) (simp_all add: world_inv_init id_room_def newDirector_def MaxUint64_def)
qed (simp_all add: demo_world_def demo_base_def addProxy_def nextProxyID_def newDirector_def live_id_def NewProxy_def)

text \<open>
  C9: Whether a session is ended by \<open>Close\<close> (a failed login), \<open>Remove\<close> (the miner is gone) or
  \<open>shutdown(0)\<close>, the outcome is the same: nothing panics or blocks, the proxy is closed with its
  three channels, the director forgets it and keeps its shares in the total, all other proxies and
  all workers stay as they are, and ending it again changes nothing.
\<close>

theorem session_ends_once:
  assumes "world_inv w" and "live_id w i" and "\<not> p_isClosed (w_proxies w i)"
  shows "\<exists>v. proxy_Close i w = Ret v \<and> proxy_Remove i w = Ret v \<and> shutdown cfg 0 i w = Ret v
    \<and> world_inv v \<and> p_isClosed (w_proxies v i) \<and> p_Conn (w_proxies v i) = None
    \<and> p_done_closed (w_proxies v i) \<and> p_notify_closed (w_proxies v i) \<and> p_submissions_closed (w_proxies v i)
    \<and> sm_get (proxies (w_director v)) i = None
    \<and> st_Shares (fst (GetStats v)) = st_Shares (fst (GetStats w))
    \<and> (\<forall>j. j \<noteq> i \<longrightarrow> w_proxies v j = w_proxies w j) \<and> w_workers v = w_workers w
    \<and> proxy_Close i v = Ret v \<and> proxy_Remove i v = Ret v \<and> shutdown cfg cl i v = Ret v"
proof -
  have ok: "session_ok w i" "0 < i" using assms by (auto simp: live_id_def dest: world_invD(1))
  let ?v = "session_end i w"
  have inv: "world_inv ?v" by (rule session_end_inv [OF assms(1,2)])
  moreover have live: "live_id ?v i" using assms(2) by (simp add: live_id_def)
  moreover have closed: "p_isClosed (w_proxies ?v i)" by (simp add: ended_def)
  moreover note noop = closed_noop [OF world_invD(1) [OF inv live] closed]
  moreover have "sm_get (proxies (w_director ?v)) i = None"
    using sm.get_del [OF world_invD(2) [OF assms(1)], of i] by simp
  ultimately show ?thesis
    using proxy_Close_open [OF ok assms(3)] proxy_Remove_open [OF ok assms(3)]
      session_end_total [OF assms]
    by (intro exI [of _ ?v]) (simp add: shutdown_0 GetStats_eq ended_def)
qed

theorem session_ends_once_witness:
  "\<exists>v. proxy_Close 1 demo_world = Ret v \<and> proxy_Remove 1 demo_world = Ret v
    \<and> p_isClosed (w_proxies v 1) \<and> sm_get (proxies (w_director v)) 1 = None"
  using session_ends_once [OF demo_world_ok(1-3)] by blast

end
