(* ===== verification/Stats.thy ===== *)
theory Stats
  imports ProxyState
begin

text \<open>
  The director's statistics while sessions come and go (\<open>server/proxy/director.go\<close>). \<open>GetStats\<close> and
  \<open>removeProxy\<close> share no mutex: the one visits the registered proxies under the lock of the map and then
  loads \<open>deleteShares\<close>, the other adds a session's shares to \<open>deleteShares\<close> and then takes it off the map. Here
  each of these is a step of its own, and so is the visit of each proxy; what the statistics can be off
  by is stated exactly. The removals of different proxies overlap as they like.
\<close>

subsection \<open>The steps of removeProxy and GetStats\<close>

definition remove_add :: "u64 \<Rightarrow> world \<Rightarrow> world" where
  "remove_add p w = w\<lparr>w_director := (w_director w)\<lparr>deleteShares := deleteShares (w_director w)
     + p_shares (w_proxies w p)\<rparr>\<rparr>"

definition remove_del :: "u64 \<Rightarrow> world \<Rightarrow> world" where
  "remove_del pid w = w\<lparr>w_director := (w_director w)\<lparr>proxies := sm_del (proxies (w_director w)) pid\<rparr>\<rparr>"

lemma removeProxy_steps:
  "removeProxy pid w = remove_del pid
     (case sm_get (proxies (w_director w)) pid of Some p \<Rightarrow> remove_add p w | None \<Rightarrow> w)"
  by (simp add: removeProxy_def remove_del_def remove_add_def Let_def split: option.split)

text \<open>The callback of \<open>Range\<close>, and what follows it.\<close>

type_synonym tally = "nat \<times> nat \<times> u64"

definition stats_visit :: "world \<Rightarrow> u64 \<Rightarrow> tally \<Rightarrow> tally" where
  "stats_visit w p acc = (case acc of (np, nw, t) \<Rightarrow> (np + 1, nw + 1, t + p_shares (w_proxies w p)))"

definition stats_load :: "tally \<Rightarrow> world \<Rightarrow> stats \<times> world" where
  "stats_load acc w =
     (case acc of (np, nw, t) \<Rightarrow>
        let d = w_director w; total = t + deleteShares d; recent = total - lastTotalShares d
        in (\<lparr>st_Proxies = np, st_Workers = nw, st_Shares = total, st_NewShares = recent\<rparr>,
            w\<lparr>w_director := d\<lparr>lastTotalShares := total\<rparr>\<rparr>))"

lemma GetStats_steps:
  "GetStats w = stats_load (sm_range (\<lambda>k p acc. (stats_visit w p acc, True)) (proxies (w_director w)) (0, 0, 0)) w"
proof -
  have "(\<lambda>k p acc. (stats_visit w p acc, True))
      = (\<lambda>(k :: u64) p (np, nw, t). ((np + 1, nw + 1, t + p_shares (w_proxies w p)), True))"
    by (auto simp: fun_eq_iff stats_visit_def)
  then show ?thesis by (simp add: GetStats_def stats_load_def Let_def split: prod.split)
qed

subsection \<open>All of them at once\<close>

text \<open>
  Where the removal of a proxy stands: \<open>Adding\<close> holds the pointer that \<open>Get\<close> found. Where \<open>GetStats\<close>
  stands: the entries it has still to visit, or what it has before the load.
\<close>

datatype leaving = Staying | Adding u64 | Deleting
datatype getting = GsIdle | GsRange "(u64 \<times> u64) list" tally | GsLoad tally

text \<open>
  \<open>bk_log\<close>, \<open>bk_gone\<close>, \<open>bk_from\<close> and \<open>bk_listed\<close> are there for the statement only: the proxies of the shares counted
  so far, oldest first; the sessions whose shares have been added to \<open>deleteShares\<close>; and the number of shares
  counted and the sessions registered when \<open>GetStats\<close> began.
\<close>

record books =
  bk_world :: world
  bk_leaving :: "u64 \<Rightarrow> leaving"
  bk_stats :: getting
  bk_log :: "u64 list"
  bk_gone :: "u64 set"
  bk_from :: nat
  bk_listed :: "u64 set"

definition ranging :: "books \<Rightarrow> bool" where
  "ranging s \<longleftrightarrow> (case bk_stats s of GsRange _ _ \<Rightarrow> True | _ \<Rightarrow> False)"

text \<open>
  A session that stays counts shares, under \<open>connMu\<close>, which its removal holds from beginning to end. \<open>Set\<close> and \<open>Del\<close> wait for \<open>Range\<close>
  to give back the lock of the map. The order of \<open>Range\<close> is open.
\<close>

inductive books_step :: "books \<Rightarrow> books \<Rightarrow> bool" where
  books_new: "\<not> ranging s \<Longrightarrow> id_room (bk_world s) \<Longrightarrow>
     books_step s (s\<lparr>bk_world := snd (NextProxy now prev (bk_world s))\<rparr>)"
| books_share: "live_id (bk_world s) i \<Longrightarrow> \<not> p_isClosed (w_proxies (bk_world s) i) \<Longrightarrow> bk_leaving s i = Staying \<Longrightarrow>
     books_step s (s\<lparr>bk_world := upd_proxy i (\<lambda>p. p\<lparr>p_shares := p_shares p + 1\<rparr>) (bk_world s), bk_log := bk_log s @ [i]\<rparr>)"
| books_get: "live_id (bk_world s) i \<Longrightarrow> \<not> p_isClosed (w_proxies (bk_world s) i) \<Longrightarrow> bk_leaving s i = Staying \<Longrightarrow>
     books_step s (s\<lparr>bk_leaving := (bk_leaving s)(i :=
       case sm_get (proxies (w_director (bk_world s))) i of Some p \<Rightarrow> Adding p | None \<Rightarrow> Deleting)\<rparr>)"
| books_add: "bk_leaving s i = Adding p \<Longrightarrow>
     books_step s (s\<lparr>bk_world := remove_add p (bk_world s), bk_leaving := (bk_leaving s)(i := Deleting),
       bk_gone := insert p (bk_gone s)\<rparr>)"
| books_del: "bk_leaving s i = Deleting \<Longrightarrow> \<not> ranging s \<Longrightarrow>
     books_step s (s\<lparr>bk_world := upd_proxy i ended (remove_del i (bk_world s)), bk_leaving := (bk_leaving s)(i := Staying)\<rparr>)"
| books_begin: "bk_stats s = GsIdle \<Longrightarrow> distinct es \<Longrightarrow> set es = set (sm_entries (proxies (w_director (bk_world s)))) \<Longrightarrow>
     books_step s (s\<lparr>bk_stats := GsRange es (0, 0, 0), bk_from := length (bk_log s), bk_listed := fst ` set es\<rparr>)"
| books_visit: "bk_stats s = GsRange ((k, p) # es) acc \<Longrightarrow>
     books_step s (s\<lparr>bk_stats := GsRange es (stats_visit (bk_world s) p acc)\<rparr>)"
| books_end: "bk_stats s = GsRange [] acc \<Longrightarrow> books_step s (s\<lparr>bk_stats := GsLoad acc\<rparr>)"
| books_load: "bk_stats s = GsLoad acc \<Longrightarrow>
     books_step s (s\<lparr>bk_world := snd (stats_load acc (bk_world s)), bk_stats := GsIdle\<rparr>)"

definition books_init :: "books \<Rightarrow> bool" where
  "books_init s \<longleftrightarrow> w_director (bk_world s) = newDirector \<and> bk_leaving s = (\<lambda>_. Staying) \<and> bk_stats s = GsIdle
     \<and> bk_log s = [] \<and> bk_gone s = {}"

subsection \<open>Counting shares in the log\<close>

text \<open>How many of the shares in a log are of the sessions of a set.\<close>

definition shares_of :: "u64 set \<Rightarrow> u64 list \<Rightarrow> nat" where
  "shares_of A xs = length (filter (\<lambda>i. i \<in> A) xs)"

lemma shares_of_simps [simp]:
  "shares_of A [] = 0" "shares_of {} xs = 0" "shares_of A (xs @ ys) = shares_of A xs + shares_of A ys"
  "shares_of A (x # xs) = (if x \<in> A then Suc (shares_of A xs) else shares_of A xs)"
  by (simp_all add: shares_of_def)

lemma shares_of_insert: "k \<notin> A \<Longrightarrow> shares_of (insert k A) xs = shares_of A xs + count_list xs k"
  by (induction xs) auto

lemma shares_of_mono: "A \<subseteq> B \<Longrightarrow> shares_of A xs \<le> shares_of B xs"
  by (induction xs) auto

lemma shares_of_take: "shares_of A (take n xs) \<le> shares_of A xs"
  by (metis append_take_drop_id le_add1 shares_of_simps(3))

lemma shares_of_cover: "set xs \<subseteq> A \<union> B \<Longrightarrow> length xs + shares_of (A \<inter> B) xs = shares_of A xs + shares_of B xs"
  by (induction xs) auto

lemma shares_of_le: "shares_of A xs + shares_of B xs \<le> length xs + shares_of (A \<inter> B) xs"
  by (induction xs) auto

subsection \<open>Invariant\<close>

text \<open>The books proper, and what \<open>GetStats\<close> has read of the sessions \<open>vis\<close>.\<close>

definition books_ok :: "books \<Rightarrow> bool" where
  "books_ok s \<longleftrightarrow>
     (let w = bk_world s in
      world_inv w \<and> (\<forall>i. live_id w i \<longrightarrow> p_shares (w_proxies w i) = of_nat (count_list (bk_log s) i))
      \<and> (\<forall>i \<in> set (bk_log s). live_id w i)
      \<and> (\<forall>i. bk_leaving s i \<noteq> Staying \<longrightarrow> live_id w i \<and> \<not> p_isClosed (w_proxies w i))
      \<and> (\<forall>i p. bk_leaving s i = Adding p \<longrightarrow> p = i)
      \<and> bk_gone s = {i. live_id w i \<and> (p_isClosed (w_proxies w i) \<or> bk_leaving s i = Deleting)}
      \<and> deleteShares (w_director w) = of_nat (shares_of (bk_gone s) (bk_log s)))"

definition has_read :: "u64 set \<Rightarrow> tally \<Rightarrow> books \<Rightarrow> bool" where
  "has_read vis acc s \<longleftrightarrow>
     (case acc of (np, nw, t) \<Rightarrow>
        np = card vis \<and> nw = card vis \<and> finite vis
        \<and> (\<exists>R. t = of_nat R \<and> shares_of vis (take (bk_from s) (bk_log s)) \<le> R \<and> R \<le> shares_of vis (bk_log s)))
     \<and> bk_from s \<le> length (bk_log s)
     \<and> set (take (bk_from s) (bk_log s)) \<subseteq> bk_listed s \<union> bk_gone s"

definition registered :: "world \<Rightarrow> u64 set" where
  "registered w = {i. live_id w i \<and> \<not> p_isClosed (w_proxies w i)}"

fun reading_ok :: "getting \<Rightarrow> books \<Rightarrow> bool" where
  "reading_ok GsIdle s = True"
| "reading_ok (GsRange es acc) s \<longleftrightarrow>
     distinct (map fst es) \<and> (\<forall>(k, p) \<in> set es. p = k) \<and> fst ` set es \<subseteq> bk_listed s \<and> bk_listed s = registered (bk_world s)
     \<and> has_read (bk_listed s - fst ` set es) acc s"
| "reading_ok (GsLoad acc) s \<longleftrightarrow> has_read (bk_listed s) acc s"

definition books_inv :: "books \<Rightarrow> bool" where
  "books_inv s \<longleftrightarrow> books_ok s \<and> reading_ok (bk_stats s) s"

lemma has_read_later:
  assumes "has_read vis acc s" and "bk_from t = bk_from s" "bk_listed t = bk_listed s"
    and "bk_log t = bk_log s @ new" "bk_gone s \<subseteq> bk_gone t"
  shows "has_read vis acc t"
proof -
  have "take (bk_from t) (bk_log t) = take (bk_from s) (bk_log s)"
    using assms by (auto simp: has_read_def split: prod.splits)
  then show ?thesis using assms by (fastforce simp: has_read_def split: prod.splits)
qed

lemma reading_later:
  assumes "reading_ok g s" and "bk_from t = bk_from s" "bk_listed t = bk_listed s"
    and "bk_log t = bk_log s @ new" "bk_gone s \<subseteq> bk_gone t"
    and "ranging s \<longrightarrow> registered (bk_world t) = registered (bk_world s)" "bk_stats s = g"
  shows "reading_ok g t"
  using assms has_read_later [OF _ assms(2-5)] by (cases g) (auto simp: ranging_def)

lemma registered_dom:
  assumes "world_inv w"
  shows "registered w = dom (sm_get (proxies (w_director w)))"
proof (rule set_eqI)
  fix i
  have "live_id w i \<Longrightarrow> sm_get (proxies (w_director w)) i \<noteq> None \<longleftrightarrow> \<not> p_isClosed (w_proxies w i)"
    using world_invD(1) [OF assms, of i] by (auto simp: session_ok_def Let_def split: if_splits)
  moreover have "sm_get (proxies (w_director w)) i \<noteq> None \<Longrightarrow> live_id w i"
    using assms unfolding world_inv_def by blast
  ultimately show "i \<in> registered w \<longleftrightarrow> i \<in> dom (sm_get (proxies (w_director w)))"
    by (auto simp: registered_def)
qed

lemma registered_get:
  assumes "world_inv w" and "live_id w i" "\<not> p_isClosed (w_proxies w i)"
  shows "sm_get (proxies (w_director w)) i = Some i"
  using world_invD(1) [OF assms(1,2)] assms(3) by (simp add: session_ok_def Let_def)

lemma entries_registered:
  assumes "world_inv w"
  shows "fst ` set (sm_entries (proxies (w_director w))) = registered w"
    and "(k, p) \<in> set (sm_entries (proxies (w_director w))) \<Longrightarrow> p = k"
    and "distinct (map fst (sm_entries (proxies (w_director w))))"
proof -
  note sm = world_invD(2) [OF assms]
  show "fst ` set (sm_entries (proxies (w_director w))) = registered w"
    using registered_dom [OF assms] sm.entries_get [OF sm] by (metis dom_map_of_conv_image_fst)
  show "(k, p) \<in> set (sm_entries (proxies (w_director w))) \<Longrightarrow> p = k" using entries_keys [OF assms] by blast
  show "distinct (map fst (sm_entries (proxies (w_director w))))" by (rule sm.entries_distinct [OF sm])
qed

text \<open>The worlds after each step.\<close>

lemma remove_add_simps [simp]:
  "w_proxies (remove_add p w) = w_proxies w" "live_id (remove_add p w) = live_id w"
  "world_inv (remove_add p w) = world_inv w" "registered (remove_add p w) = registered w"
  "deleteShares (w_director (remove_add p w)) = deleteShares (w_director w) + p_shares (w_proxies w p)"
  by (simp_all add: remove_add_def live_id_def fun_eq_iff registered_def)
    (rule world_inv_cong; simp)

lemma stats_load_simps [simp]:
  "w_proxies (snd (stats_load acc w)) = w_proxies w" "live_id (snd (stats_load acc w)) = live_id w"
  "world_inv (snd (stats_load acc w)) = world_inv w" "deleteShares (w_director (snd (stats_load acc w))) = deleteShares (w_director w)"
  by (simp_all add: stats_load_def live_id_def fun_eq_iff Let_def split: prod.split)
    (intro allI impI world_inv_cong; simp)+

definition drop_session :: "u64 \<Rightarrow> world \<Rightarrow> world" where
  "drop_session i w = upd_proxy i ended (remove_del i w)"

lemma drop_session_simps [simp]:
  "w_proxies (drop_session i w) = (w_proxies w)(i := ended (w_proxies w i))"
  "live_id (drop_session i w) = live_id w" "deleteShares (w_director (drop_session i w)) = deleteShares (w_director w)"
  by (simp_all add: drop_session_def remove_del_def live_id_def fun_eq_iff)

lemma drop_session_inv:
  assumes "world_inv w" and "live_id w i"
  shows "world_inv (drop_session i w)"
proof -
  have "world_inv (drop_session i w) = world_inv (session_end i w)"
    by (rule world_inv_cong) (simp_all, simp_all add: drop_session_def remove_del_def)
  with session_end_inv [OF assms] show ?thesis by simp
qed

lemma new_session:
  fixes now :: int and prev :: string
  assumes "world_inv w" "id_room w"
  defines "v \<equiv> snd (NextProxy now prev w)" and "c \<equiv> currentProxyID (w_director w) + 1"
  shows "world_inv v" "live_id v j \<longleftrightarrow> j = c \<or> live_id w j" "\<not> live_id w c"
    "w_proxies v = (w_proxies w)(c := (NewProxy c now prev)\<lparr>p_director := True\<rparr>)"
    "deleteShares (w_director v) = deleteShares (w_director w)"
proof -
  have "v = snd (addProxy now prev w)" by (simp add: v_def NextProxy_def)
  then show "world_inv v" "live_id v j \<longleftrightarrow> j = c \<or> live_id w j"
    "w_proxies v = (w_proxies w)(c := (NewProxy c now prev)\<lparr>p_director := True\<rparr>)"
    "deleteShares (w_director v) = deleteShares (w_director w)"
    using addProxy_inv [OF assms(1,2)] next_id(1) [OF assms(2)] next_id(2) [OF assms(2), of j]
    by (auto simp: live_id_def addProxy_fields c_def)
  show "\<not> live_id w c" using next_id(3) [OF assms(2)] by (simp add: live_id_def c_def)
qed

lemma books_okD:
  assumes "books_ok s"
  shows "world_inv (bk_world s)"
    and "live_id (bk_world s) i \<Longrightarrow> p_shares (w_proxies (bk_world s) i) = of_nat (count_list (bk_log s) i)"
    and "i \<in> set (bk_log s) \<Longrightarrow> live_id (bk_world s) i"
    and "bk_leaving s i \<noteq> Staying \<Longrightarrow> live_id (bk_world s) i \<and> \<not> p_isClosed (w_proxies (bk_world s) i)"
    and "bk_leaving s i = Adding p \<Longrightarrow> p = i"
    and "i \<in> bk_gone s \<longleftrightarrow> live_id (bk_world s) i \<and> (p_isClosed (w_proxies (bk_world s) i) \<or> bk_leaving s i = Deleting)"
    and "deleteShares (w_director (bk_world s)) = of_nat (shares_of (bk_gone s) (bk_log s))"
  using assms unfolding books_ok_def Let_def by blast+

lemma books_ok_step: "books_step s t \<Longrightarrow> books_ok s \<Longrightarrow> books_ok t"
proof (induction rule: books_step.induct)
  case (books_new s now prev)
  note ok = books_okD [OF books_new.prems]
  note new = new_session [OF ok(1) books_new.hyps(2)]
  let ?c = "currentProxyID (w_director (bk_world s)) + 1"
  have c: "bk_leaving s ?c = Staying" "?c \<notin> set (bk_log s)" using ok(3,4) new(3) by blast+
  have "count_list (bk_log s) ?c = 0" using c(2) by (simp add: count_list_0_iff)
  moreover have "i \<noteq> ?c" if "live_id (bk_world s) i" for i using that new(3) by blast
  ultimately show ?case
    using ok(2-6) c(1) new(3) by (auto simp: books_ok_def Let_def new(1,2,4,5) ok(7) NewProxy_def)
next
  case (books_share s i)
  note ok = books_okD [OF books_share.prems]
  let ?v = "upd_proxy i (\<lambda>p. p\<lparr>p_shares := p_shares p + 1\<rparr>) (bk_world s)"
  have "world_inv ?v" by (rule upd_session_inv [OF ok(1)]) simp_all
  moreover have "i \<notin> bk_gone s" using books_share.hyps ok(6) by simp
  moreover have "live_id ?v = live_id (bk_world s)" by (simp add: live_id_def fun_eq_iff)
  ultimately show ?case using ok(2-7) books_share.hyps(1) by (auto simp: books_ok_def Let_def)
next
  case (books_get s i)
  note ok = books_okD [OF books_get.prems]
  have "sm_get (proxies (w_director (bk_world s))) i = Some i"
    by (rule registered_get [OF ok(1) books_get.hyps(1,2)])
  then show ?case using ok books_get.hyps by (auto simp: books_ok_def Let_def)
next
  case (books_add s i p)
  note ok = books_okD [OF books_add.prems]
  have p: "i = p" using ok(5) [OF books_add.hyps] by simp
  have leaving: "bk_leaving s p = Adding p" using books_add.hyps by (simp only: p)
  then have live: "live_id (bk_world s) p" "\<not> p_isClosed (w_proxies (bk_world s) p)" using ok(4) [of p] by auto
  then have "p \<notin> bk_gone s" using ok(6) leaving by simp
  then show ?case
    unfolding p using ok live leaving by (auto simp: books_ok_def Let_def shares_of_insert)
next
  case (books_del s i)
  note ok = books_okD [OF books_del.prems]
  have i: "live_id (bk_world s) i" "\<not> p_isClosed (w_proxies (bk_world s) i)" using ok(4) books_del.hyps by auto
  then have "i \<in> bk_gone s" using ok(6) books_del.hyps by simp
  then show ?case
    using ok i books_del.hyps drop_session_inv [OF ok(1) i(1)]
    by (auto simp: books_ok_def Let_def ended_def simp flip: drop_session_def)
next
  case (books_load s acc)
  then show ?case by (auto simp: books_ok_def Let_def)
qed (simp_all add: books_ok_def)

lemma visit_reads:
  assumes "has_read vis acc s" and "k \<notin> vis"
    and "p_shares (w_proxies (bk_world s) k) = of_nat (count_list (bk_log s) k)"
  shows "has_read (insert k vis) (stats_visit (bk_world s) k acc) s"
proof -
  obtain np nw t R where acc: "acc = (np, nw, t)" "np = card vis" "nw = card vis" "finite vis" "t = of_nat R"
      "shares_of vis (take (bk_from s) (bk_log s)) \<le> R" "R \<le> shares_of vis (bk_log s)"
    using assms(1) by (auto simp: has_read_def)
  have "count_list (take (bk_from s) (bk_log s)) k \<le> count_list (bk_log s) k"
    by (metis append_take_drop_id count_list_append le_add1)
  then show ?thesis
    using assms acc
    by (auto simp: has_read_def stats_visit_def shares_of_insert intro!: exI [of _ "R + count_list (bk_log s) k"])
qed

lemma begin_reads:
  assumes "books_ok s" and "set es = set (sm_entries (proxies (w_director (bk_world s))))" "distinct es"
  shows "reading_ok (GsRange es (0, 0, 0))
    (s\<lparr>bk_stats := GsRange es (0, 0, 0), bk_from := length (bk_log s), bk_listed := fst ` set es\<rparr>)"
proof -
  note ok = books_okD [OF assms(1)]
  note entries = entries_registered [OF ok(1)]
  have "snd e = fst e" if "e \<in> set es" for e using entries(2) [of "fst e" "snd e"] assms(2) that by simp
  then have "inj_on fst (set es)" by (intro inj_onI prod_eqI) metis+
  then have "distinct (map fst es)" using assms(3) by (simp add: distinct_map)
  moreover have "set (bk_log s) \<subseteq> registered (bk_world s) \<union> bk_gone s"
    using ok(3,6) by (auto simp: registered_def)
  ultimately show ?thesis using entries assms(2) by (auto simp: has_read_def intro!: exI [of _ 0])
qed

lemma reading_step: "books_step s t \<Longrightarrow> books_inv s \<Longrightarrow> reading_ok (bk_stats t) t"
proof (induction rule: books_step.induct)
  case (books_new s now prev)
  then have "reading_ok (bk_stats s) s" by (simp add: books_inv_def)
  then have "reading_ok (bk_stats s) (s\<lparr>bk_world := snd (NextProxy now prev (bk_world s))\<rparr>)"
    by (rule reading_later [where new = "[]"]) (use books_new.hyps in simp_all)
  then show ?case by simp
next
  case (books_share s i)
  let ?v = "upd_proxy i (\<lambda>p. p\<lparr>p_shares := p_shares p + 1\<rparr>) (bk_world s)"
  have "registered ?v = registered (bk_world s)" by (auto simp: registered_def live_id_def)
  moreover have "reading_ok (bk_stats s) s" using books_share.prems by (simp add: books_inv_def)
  then have "reading_ok (bk_stats s) (s\<lparr>bk_world := ?v, bk_log := bk_log s @ [i]\<rparr>)"
    by (rule reading_later [where new = "[i]"]) (simp_all add: calculation)
  then show ?case by simp
next
  case (books_get s i)
  let ?l = "(bk_leaving s)(i := case sm_get (proxies (w_director (bk_world s))) i of Some p \<Rightarrow> Adding p | None \<Rightarrow> Deleting)"
  from books_get.prems have "reading_ok (bk_stats s) s" by (simp add: books_inv_def)
  then have "reading_ok (bk_stats s) (s\<lparr>bk_leaving := ?l\<rparr>)"
    by (rule reading_later [where new = "[]"]) simp_all
  then show ?case by simp
next
  case (books_add s i p)
  then have "reading_ok (bk_stats s) s" by (simp add: books_inv_def)
  then have "reading_ok (bk_stats s) (s\<lparr>bk_world := remove_add p (bk_world s), bk_leaving := (bk_leaving s)(i := Deleting),
       bk_gone := insert p (bk_gone s)\<rparr>)"
    by (rule reading_later [where new = "[]"]) auto
  then show ?case by simp
next
  case (books_del s i)
  then have "reading_ok (bk_stats s) s" by (simp add: books_inv_def)
  then have "reading_ok (bk_stats s) (s\<lparr>bk_world := upd_proxy i ended (remove_del i (bk_world s)),
      bk_leaving := (bk_leaving s)(i := Staying)\<rparr>)"
    by (rule reading_later [where new = "[]"]) (use books_del.hyps in simp_all)
  then show ?case by simp
next
  case (books_begin s es)
  then have "books_ok s" by (simp add: books_inv_def)
  from begin_reads [OF this books_begin.hyps(3,2)] show ?case by (simp del: reading_ok.simps)
next
  case (books_visit s k p es acc)
  then have ok: "books_ok s" and r: "reading_ok (GsRange ((k, p) # es) acc) s" by (auto simp: books_inv_def)
  have k: "p = k" "k \<in> bk_listed s" "k \<notin> fst ` set es" "live_id (bk_world s) k"
    using r by (auto simp: registered_def)
  then have eq: "insert k (bk_listed s - insert k (fst ` set es)) = bk_listed s - fst ` set es" by blast
  have "has_read (bk_listed s - insert k (fst ` set es)) acc s"
    using r unfolding reading_ok.simps list.set image_insert fst_conv by blast
  then have "has_read (insert k (bk_listed s - insert k (fst ` set es))) (stats_visit (bk_world s) k acc) s"
    by (rule visit_reads) (simp_all add: books_okD(2) [OF ok k(4)])
  then have "has_read (bk_listed s - fst ` set es) (stats_visit (bk_world s) p acc) s" by (simp only: eq k(1))
  with r show ?case by (auto simp: has_read_def)
next
  case (books_end s acc)
  then show ?case by (auto simp: books_inv_def has_read_def)
next
  case (books_load s acc)
  then show ?case by simp
qed

lemma books_inv_init: "books_init s \<Longrightarrow> books_inv s"
proof -
  assume s: "books_init s"
  then have "world_inv (bk_world s)" by (simp add: books_init_def world_inv_init)
  moreover have "\<not> live_id (bk_world s) i" for i using s by (auto simp: books_init_def live_id_def newDirector_def)
  ultimately show ?thesis using s by (simp add: books_inv_def books_ok_def books_init_def newDirector_def)
qed

interpretation books: invariant_system books_init books_step books_inv
proof
  show "books_inv s \<Longrightarrow> books_step s t \<Longrightarrow> books_inv t" for s t
    using books_ok_step [of s t] reading_step [of s t] by (simp add: books_inv_def)
qed (rule books_inv_init)

subsection \<open>A run\<close>

text \<open>
  One session counts one share; \<open>GetStats\<close> visits it, its removal adds the share to \<open>deleteShares\<close>, and only
  then does \<open>GetStats\<close> load that. When it is called again the session is gone.
\<close>

definition demo_counted :: world where
  "demo_counted = upd_proxy 1 (\<lambda>p. p\<lparr>p_shares := p_shares p + 1\<rparr>) demo_world"

definition demo_books :: "world \<Rightarrow> leaving \<Rightarrow> getting \<Rightarrow> u64 list \<Rightarrow> u64 set \<Rightarrow> nat \<Rightarrow> u64 set \<Rightarrow> books" where
  "demo_books w l g xs gone from listed =
     \<lparr>bk_world = w, bk_leaving = (\<lambda>_. Staying)(1 := l), bk_stats = g, bk_log = xs, bk_gone = gone,
      bk_from = from, bk_listed = listed\<rparr>"

abbreviation books_reach :: "books \<Rightarrow> bool" where
  "books_reach \<equiv> reach books_init books_step"

lemma demo_entries: "sm_entries (proxies (w_director demo_world)) = [(1, 1)]"
  by (simp add: demo_world_def demo_base_def addProxy_def nextProxyID_def newDirector_def NewSafeMap_def
      sm_set_def sm_entries_def Let_def)

lemma demo_counted_simps [simp]:
  "w_director demo_counted = w_director demo_world" "live_id demo_counted 1" "\<not> p_isClosed (w_proxies demo_counted 1)"
  "p_shares (w_proxies demo_counted 1) = 1" "deleteShares (w_director demo_world) = 0"
  using demo_world_ok(2,3)
  by (simp_all add: demo_counted_def live_id_def)
    (simp_all add: demo_world_def demo_base_def addProxy_def nextProxyID_def NewProxy_def Let_def newDirector_def)

lemma demo_books_share: "books_reach (demo_books demo_counted Staying GsIdle [1] {} 0 {})"
proof -
  let ?zero = "demo_books demo_base Staying GsIdle [] {} 0 {}"
  have "books_reach ?zero" by (rule reach_init) (simp add: books_init_def demo_books_def demo_base_def fun_eq_iff)
  moreover have "books_step ?zero (demo_books demo_world Staying GsIdle [] {} 0 {})"
    using books_new [of ?zero 0 "[]"]
    by (simp add: demo_books_def ranging_def demo_world_def NextProxy_def id_room_def demo_base_def newDirector_def MaxUint64_def)
  ultimately have "books_reach (demo_books demo_world Staying GsIdle [] {} 0 {})" by (rule reach_step)
  moreover have "books_step (demo_books demo_world Staying GsIdle [] {} 0 {})
      (demo_books demo_counted Staying GsIdle [1] {} 0 {})"
    using books_share [of "demo_books demo_world Staying GsIdle [] {} 0 {}" 1] demo_world_ok(2,3)
    by (simp add: demo_books_def demo_counted_def)
  ultimately show ?thesis by (rule reach_step)
qed

lemma demo_books_visited: "books_reach (demo_books demo_counted Staying (GsLoad (1, 1, 1)) [1] {} 1 {1})"
proof -
  let ?a = "demo_books demo_counted Staying GsIdle [1] {} 0 {}"
    and ?b = "demo_books demo_counted Staying (GsRange [(1, 1)] (0, 0, 0)) [1] {} 1 {1}"
    and ?c = "demo_books demo_counted Staying (GsRange [] (1, 1, 1)) [1] {} 1 {1}"
  have "books_step ?a ?b"
    using books_begin [of ?a "[(1, 1)]"] by (simp add: demo_books_def demo_entries)
  with demo_books_share have "books_reach ?b" by (rule reach_step)
  moreover have "books_step ?b ?c"
    using books_visit [of ?b 1 1 "[]" "(0, 0, 0)"] by (simp add: demo_books_def stats_visit_def)
  ultimately have "books_reach ?c" by (rule reach_step)
  moreover have "books_step ?c (demo_books demo_counted Staying (GsLoad (1, 1, 1)) [1] {} 1 {1})"
    using books_end [of ?c "(1, 1, 1)"] by (simp add: demo_books_def)
  ultimately show ?thesis by (rule reach_step)
qed

definition demo_twice :: books where
  "demo_twice = demo_books (remove_add 1 demo_counted) Deleting (GsLoad (1, 1, 1)) [1] {1} 1 {1}"

lemma demo_twice_reach: "books_reach demo_twice"
proof -
  let ?a = "demo_books demo_counted Staying (GsLoad (1, 1, 1)) [1] {} 1 {1}"
    and ?b = "demo_books demo_counted (Adding 1) (GsLoad (1, 1, 1)) [1] {} 1 {1}"
  have "sm_get (proxies (w_director demo_world)) 1 = Some 1"
    using registered_get [OF demo_world_ok(1-3)] .
  then have "books_step ?a ?b" using books_get [of ?a 1] by (simp add: demo_books_def)
  with demo_books_visited have "books_reach ?b" by (rule reach_step)
  moreover have "books_step ?b demo_twice"
    using books_add [of ?b 1 1] by (simp add: demo_books_def demo_twice_def)
  ultimately show ?thesis by (rule reach_step)
qed

lemma demo_twice_total: "st_Shares (fst (stats_load (1, 1, 1) (remove_add 1 demo_counted))) = 2"
  by (simp add: stats_load_def Let_def)

text \<open>The world that the load and then the removal leave behind.\<close>

definition demo_after :: world where
  "demo_after = drop_session 1 (snd (stats_load (1, 1, 1) (remove_add 1 demo_counted)))"

definition demo_again :: books where
  "demo_again = demo_books demo_after Staying (GsLoad (0, 0, 0)) [1] {1} 1 {}"

lemma demo_again_reach: "books_reach demo_again"
proof -
  let ?w = "snd (stats_load (1, 1, 1) (remove_add 1 demo_counted))"
  let ?a = "demo_books ?w Deleting GsIdle [1] {1} 1 {1}" and ?b = "demo_books demo_after Staying GsIdle [1] {1} 1 {1}"
    and ?c = "demo_books demo_after Staying (GsRange [] (0, 0, 0)) [1] {1} 1 {}"
  have "books_step demo_twice ?a"
    using books_load [of demo_twice "(1, 1, 1)"] by (simp add: demo_books_def demo_twice_def)
  with demo_twice_reach have "books_reach ?a" by (rule reach_step)
  moreover have "books_step ?a ?b"
    using books_del [of ?a 1] by (simp add: demo_books_def ranging_def demo_after_def drop_session_def)
  ultimately have b: "books_reach ?b" by (rule reach_step)
  have "books_ok ?b" using books.reach_inv [OF b] by (simp add: books_inv_def)
  then have inv: "world_inv demo_after" and live: "\<And>i. live_id demo_after i \<longleftrightarrow> live_id demo_world i"
    by (auto simp: books_ok_def demo_books_def demo_after_def demo_counted_def live_id_def Let_def)
  have "i = 1" if "0 < i" "i \<le> 1" for i :: u64 using next_word(2) [of "0 :: u64" i] that by auto
  then have "live_id demo_world i \<Longrightarrow> i = 1" for i using demo_world_ok(4) by (simp add: live_id_def)
  moreover have "p_isClosed (w_proxies demo_after 1)" by (simp add: demo_after_def ended_def)
  ultimately have "registered demo_after = {}" by (auto simp: registered_def live)
  then have "sm_entries (proxies (w_director demo_after)) = []"
    using entries_registered(1) [OF inv] by simp
  then have "books_step ?b ?c" using books_begin [of ?b "[]"] by (simp add: demo_books_def)
  with b have "books_reach ?c" by (rule reach_step)
  moreover have "books_step ?c demo_again"
    using books_end [of ?c "(0, 0, 0)"] by (simp add: demo_books_def demo_again_def)
  ultimately show ?thesis by (rule reach_step)
qed

lemma demo_again_total: "st_Shares (fst (stats_load (0, 0, 0) demo_after)) = 1"
  "st_NewShares (fst (stats_load (0, 0, 0) demo_after)) = - 1"
  by (simp_all add: demo_after_def drop_session_def remove_del_def stats_load_def Let_def remove_add_def)

subsection \<open>Property\<close>

text \<open>
  C10: What \<open>GetStats\<close> reports while sessions come, count shares and go, in any interleaving: never
  less than the shares counted when it began, and never more than those counted when it ends plus the
  shares of the sessions it saw registered whose removal had added them to \<open>deleteShares\<close> by
  then, which it counts twice. When no share is counted and no session it saw is removed meanwhile the
  number is exact; the number of proxies is that of the sessions registered when it began. The
  double counting happens, and the statistics after it then report minus one new share, as an unsigned number.
\<close>

theorem stats_bounds:
  "(books_reach s \<and> bk_stats s = GsLoad acc \<longrightarrow>
      (\<exists>R. st_Shares (fst (stats_load acc (bk_world s))) = of_nat R \<and> bk_from s \<le> R
         \<and> R \<le> length (bk_log s) + shares_of (bk_listed s \<inter> bk_gone s) (bk_log s)
         \<and> (length (bk_log s) = bk_from s \<and> bk_listed s \<inter> bk_gone s = {} \<longrightarrow> R = length (bk_log s)))
      \<and> st_Proxies (fst (stats_load acc (bk_world s))) = card (bk_listed s))
   \<and> (\<exists>s acc. books_reach s \<and> bk_stats s = GsLoad acc \<and> length (bk_log s) = 1
        \<and> st_Shares (fst (stats_load acc (bk_world s))) = 2)
   \<and> (\<exists>s acc. books_reach s \<and> bk_stats s = GsLoad acc \<and> length (bk_log s) = 1
        \<and> st_Shares (fst (stats_load acc (bk_world s))) = 1 \<and> st_NewShares (fst (stats_load acc (bk_world s))) = - 1)"
    (is "?bounds \<and> ?twice \<and> ?wrapped")
proof (intro conjI)
  show ?twice
    using demo_twice_reach demo_twice_total
    by (intro exI [of _ demo_twice] exI [of _ "(1, 1, 1)"]) (simp add: demo_twice_def demo_books_def)
  show ?wrapped
    using demo_again_reach demo_again_total
    by (intro exI [of _ demo_again] exI [of _ "(0, 0, 0)"]) (simp add: demo_again_def demo_books_def)
  show ?bounds
  proof
    assume s: "books_reach s \<and> bk_stats s = GsLoad acc"
    then have ok: "books_ok s" and read: "has_read (bk_listed s) acc s"
      using books.reach_inv [of s] by (auto simp: books_inv_def)
    let ?xs = "bk_log s" and ?old = "take (bk_from s) (bk_log s)"
    obtain R where acc: "acc = (card (bk_listed s), card (bk_listed s), of_nat R)"
      and R: "shares_of (bk_listed s) ?old \<le> R" "R \<le> shares_of (bk_listed s) ?xs"
      and old: "bk_from s \<le> length ?xs" "set ?old \<subseteq> bk_listed s \<union> bk_gone s"
      using read by (auto simp: has_read_def)
    let ?S = "R + shares_of (bk_gone s) ?xs"
    have "st_Shares (fst (stats_load acc (bk_world s))) = of_nat ?S"
      by (simp add: acc stats_load_def Let_def books_okD(7) [OF ok])
    moreover have "bk_from s \<le> ?S"
      using shares_of_cover [OF old(2)] R(1) shares_of_take [of "bk_gone s" "bk_from s" ?xs] old(1) by simp
    moreover have le: "?S \<le> length ?xs + shares_of (bk_listed s \<inter> bk_gone s) ?xs"
      using shares_of_le [of "bk_listed s" ?xs "bk_gone s"] R(2) by simp
    ultimately show "(\<exists>R. st_Shares (fst (stats_load acc (bk_world s))) = of_nat R \<and> bk_from s \<le> R
         \<and> R \<le> length (bk_log s) + shares_of (bk_listed s \<inter> bk_gone s) (bk_log s)
         \<and> (length (bk_log s) = bk_from s \<and> bk_listed s \<inter> bk_gone s = {} \<longrightarrow> R = length (bk_log s)))
      \<and> st_Proxies (fst (stats_load acc (bk_world s))) = card (bk_listed s)"
      by (intro conjI exI [of _ ?S]) (auto simp: acc stats_load_def Let_def)
  qed
qed

theorem stats_bounds_witness:
  "\<exists>R. (2 :: u64) = of_nat R \<and> 1 \<le> R \<and> R \<le> 1 + shares_of {1} [1]"
proof -
  have "bk_stats demo_twice = GsLoad (1, 1, 1)" by (simp add: demo_twice_def demo_books_def)
  with demo_twice_reach have "books_reach demo_twice \<and> bk_stats demo_twice = GsLoad (1, 1, 1)" ..
  from stats_bounds [THEN conjunct1, THEN mp, OF this] demo_twice_total show ?thesis
    by (auto simp: demo_twice_def demo_books_def)
qed

end
