(* ===== verification/Proxy.thy ===== *)
theory Proxy
  imports ProxyState Base58Check XdagBlock
begin

text \<open>
  The operations of a live proxy in \<open>server/proxy/proxy.go\<close>: logging in to the pool, turning the
  pool's 32-byte fields into jobs, handing jobs to the miner, and judging and forwarding shares.

  \<open>now\<close> is the clock, read once per operation; \<open>nonce\<close> and \<open>jid\<close> are the results of
  \<open>rand.Uint64()\<close> and \<open>NewLen(28)\<close>; \<open>conv\<close> is what the machine does with a float that is no
  \<open>uint64\<close>. Bytes for the pool go into the buffer of the proxy's connection (theory Connect).
\<close>

unbundle bit_operations_syntax

definition refreshDiffInterval :: int where "refreshDiffInterval = 600 * 1000000000"
definition WORKERNAME_HEADER_WORD :: u32 where "WORKERNAME_HEADER_WORD = 0xf46b9853"

text \<open>As \<open>locked\<close>, for an operation with a result.\<close>

definition locked_val :: "u64 \<Rightarrow> (world \<Rightarrow> ('a \<times> world) go) \<Rightarrow> world \<Rightarrow> ('a \<times> world) go" where
  "locked_val i f w =
     (if p_connMu (w_proxies w i) then Deadlock
      else go_bind (f (upd_proxy i (\<lambda>p. p\<lparr>p_connMu := True\<rparr>) w))
             (\<lambda>(r, w). Ret (r, upd_proxy i (\<lambda>p. p\<lparr>p_connMu := False\<rparr>) w)))"

subsection \<open>Addresses, targets and blobs\<close>

definition fromBase85 :: "string \<Rightarrow> check_error + byte list" where
  "fromBase85 address = (case ChkDec address of Inl e \<Rightarrow> Inl e | Inr (b, v) \<Rightarrow> Inr b)"

definition SetAddress :: "string \<Rightarrow> proxy \<Rightarrow> proxy_error option \<times> proxy" where
  "SetAddress a p =
     (case fromBase85 a of
        Inl e \<Rightarrow> (Some (ErrText ''invalid wallet address''), p)
      | Inr h \<Rightarrow>
          if length h \<noteq> 24 then (Some (ErrText ''invalide address length''), p)
          else (None, p\<lparr>p_addressHash := go_copy (p_addressHash p) h, p_address := a\<rparr>))"

definition getTarget :: "proxy \<Rightarrow> string" where
  "getTarget p = target_or_default (p_target p)"

definition setTarget :: "(f64 \<Rightarrow> u64) \<Rightarrow> int \<Rightarrow> u64 \<Rightarrow> proxy \<Rightarrow> proxy go" where
  "setTarget conv now shareIndex p =
     go_bind (retarget conv (p_target p) shareIndex (p_shares p) (p_targetShare p) (now - p_targetSince p))
       (\<lambda>t. case t of
          None \<Rightarrow> Ret p
        | Some t \<Rightarrow> Ret (p\<lparr>p_target := t, p_targetSince := now, p_targetShare := p_shares p\<rparr>))"

definition CreateJob :: "u64 \<Rightarrow> string \<Rightarrow> byte list \<Rightarrow> proxy \<Rightarrow> job go" where
  "CreateJob nonce jid blobBytes p =
     go_bind (slice blobBytes 32 64) (\<lambda>seed.
       let blob = go_copy (replicate 64 0) blobBytes;
           blob = copy_at 32 56 blob (p_addressHash p);
           nonceBytes = be_put initNonceLength nonce;
           blob = copy_at initNonceOffset (initNonceOffset + initNonceLength) blob nonceBytes
       in Ret \<lparr>j_Blob = hex_encode blob, j_ID = jid, j_Target = getTarget p,
               j_SeedHash = hex_encode seed, j_Algo = xdagAlgo,
               j_initialNonce = ucast nonce, j_currentBlob = blob, j_currentNonce = ucast nonce\<rparr>)"

definition CreateShare :: "share \<Rightarrow> proxy \<Rightarrow> byte list go" where
  "CreateShare s p =
     go_bind (slice (j_currentBlob (p_currentJob p)) 32 60) (\<lambda>b.
       let nonceBytes = fst (hex_decode (s_Nonce s));
           result = copy_at 0 28 (replicate 32 0) b
       in Ret (copy_at 28 32 result nonceBytes))"

definition MakeShare :: "u64 \<Rightarrow> u32 \<Rightarrow> proxy \<Rightarrow> byte list go" where
  "MakeShare miniResult miniNonce p =
     go_bind (slice (j_currentBlob (p_currentJob p)) 32 60) (\<lambda>b.
       let result = copy_at 0 28 (replicate 32 0) b
       in Ret (copy_at 28 32 result (le_put 4 miniNonce)))"

text \<open>\<open>NextJob\<close>\<close>

definition NextJob :: "proxy \<Rightarrow> job \<times> proxy" where
  "NextJob p = (let j = snd (job_Next (p_currentJob p)) in (j, p\<lparr>p_currentJob := j\<rparr>))"

text \<open>\<open>Add\<close>: worker \<open>k\<close> and proxy \<open>i\<close> get to know each other.\<close>

definition proxy_Add :: "u64 \<Rightarrow> u64 \<Rightarrow> world \<Rightarrow> world" where
  "proxy_Add k i w =
     (let w = upd_worker k (\<lambda>x. x\<lparr>wk_p := Some i, wk_id := p_ID (w_proxies w i)\<rparr>) w
      in upd_proxy i (\<lambda>p. p\<lparr>p_worker := Some k\<rparr>) w)"

subsection \<open>Connecting\<close>

datatype dialer = ViaSocks5 string string | DialDirect string

text \<open>\<open>dial\<close> is the network: the error of connecting, or \<open>None\<close>.\<close>

definition SendFrame :: "byte list \<Rightarrow> proxy \<Rightarrow> proxy go" where
  "SendFrame data p =
     (case p_Conn p of
        None \<Rightarrow> Panic
      | Some c \<Rightarrow> go_bind (SendBuffMsg c data) (\<lambda>(c, ok). Ret (p\<lparr>p_Conn := Some c\<rparr>)))"

definition login_frame :: "proxy \<Rightarrow> byte list" where
  "login_frame p = copy_at 4 28 (copy_at 0 4 (replicate 28 0) (le_put 4 (24 :: u32))) (p_addressHash p)"

definition name_frame :: "string \<Rightarrow> byte list" where
  "name_frame minerName =
     (let field = copy_at 0 4 (replicate 32 0) (le_put 4 WORKERNAME_HEADER_WORD);
          field = copy_at 4 32 field (str_bytes minerName)
      in copy_at 4 36 (copy_at 0 4 (replicate 36 0) (le_put 4 (32 :: u32))) field)"

definition log_in :: "string \<Rightarrow> proxy \<Rightarrow> proxy go" where
  "log_in minerName p =
     (let p = p\<lparr>p_Conn := Some (Start (NewConnection (p_ID p))), p_fieldOut := p_fieldOut p + 16\<rparr> in
      go_bind (SendFrame (login_frame p) p) (\<lambda>p.
        if minerName \<noteq> [] then
          SendFrame (name_frame minerName) (p\<lparr>p_fieldOut := p_fieldOut p + 1\<rparr>)
        else Ret p))"

definition connect :: "config \<Rightarrow> (dialer \<Rightarrow> proxy_error option) \<Rightarrow> string \<Rightarrow> u64 \<Rightarrow> world
    \<Rightarrow> (proxy_error option \<times> world) go" where
  "connect cfg dial minerName i = locked_val i (\<lambda>w.
     if p_isClosed (w_proxies w i) then Ret (Some (ErrText ''using closed proxy error''), w)
     else
       case dial (if 11 < length (Socks5 cfg) then ViaSocks5 (Socks5 cfg) (PoolAddr cfg)
                  else DialDirect (PoolAddr cfg)) of
         Some err \<Rightarrow> Ret (Some err, w)
       | None \<Rightarrow> go_bind (log_in minerName (w_proxies w i)) (\<lambda>p. Ret (None, upd_proxy i (\<lambda>_. p) w)))"

subsection \<open>Jobs\<close>

text \<open>\<open>Worker.NewJob\<close> of \<open>tcp/worker.go\<close>: a miner that cannot be written to is disconnected.\<close>

definition worker_NewJob :: "u64 \<Rightarrow> job \<Rightarrow> world \<Rightarrow> world go" where
  "worker_NewJob k j w =
     (if wk_write_ok (w_workers w k) \<and> wk_conn_open (w_workers w k)
      then Ret (upd_worker k (\<lambda>x. x\<lparr>wk_jobs := wk_jobs x @ [j]\<rparr>) w)
      else worker_Disconnect k w)"

definition broadcastJob :: "u64 \<Rightarrow> world \<Rightarrow> world go" where
  "broadcastJob i = locked i (\<lambda>w.
     if p_isClosed (w_proxies w i) then Ret w
     else case p_worker (w_proxies w i) of
       None \<Rightarrow> Ret w
     | Some k \<Rightarrow> worker_NewJob k (p_currentJob (w_proxies w i)) w)"

definition adopt_job :: "job \<Rightarrow> int \<Rightarrow> proxy \<Rightarrow> proxy" where
  "adopt_job job now p = p\<lparr>p_BeforeBeforePrevJobID := p_BeforePrevJobID p,
     p_BeforePrevJobID := p_PrevJobID p, p_PrevJobID := j_ID (p_currentJob p),
     p_currentJob := job, p_miniResult := MaxUint64, p_lastSend := now\<rparr>"

definition handleJob :: "job \<Rightarrow> int \<Rightarrow> u64 \<Rightarrow> world \<Rightarrow> world go" where
  "handleJob job now i w = broadcastJob i (upd_proxy i (adopt_job job now) w)"

text \<open>The second field of a pair: retarget if it is time, build the job and adopt it if it is new.\<close>

definition complete_job :: "(f64 \<Rightarrow> u64) \<Rightarrow> int \<Rightarrow> u64 \<Rightarrow> string \<Rightarrow> byte list \<Rightarrow> u64 \<Rightarrow> world \<Rightarrow> world go" where
  "complete_job conv now nonce jid data i w =
     (let p = w_proxies w i;
          p = p\<lparr>p_recvByte := copy_at 32 64 (p_recvByte p) data\<rparr>
      in go_bind
           (if of_nat (initDiffCount + 1) < p_shares p \<and> refreshDiffInterval \<le> now - p_targetSince p
            then setTarget conv now (p_shares p) p else Ret p) (\<lambda>p.
         go_bind (CreateJob nonce jid (p_recvByte p) p) (\<lambda>job.
         let w = upd_proxy i (\<lambda>_. p) w; old = j_Blob (p_currentJob p) in
         if old = [] then handleJob job now i w
         else
           go_bind (slice old 0 32) (\<lambda>a.
           go_bind (slice (j_Blob job) 0 32) (\<lambda>b.
             if a \<noteq> b then handleJob job now i w else Ret w)))))"

definition handleNotification ::
    "config \<Rightarrow> (f64 \<Rightarrow> u64) \<Rightarrow> int \<Rightarrow> u64 \<Rightarrow> string \<Rightarrow> byte list \<Rightarrow> u64 \<Rightarrow> world \<Rightarrow> world go" where
  "handleNotification cfg conv now nonce jid notif i w =
     (let data = go_copy (replicate 32 0) notif;
          w = upd_proxy i (\<lambda>p. p\<lparr>p_fieldIn := p_fieldIn p + 1\<rparr>) w;
          p = w_proxies w i
      in go_bind (Hash2address data) (\<lambda>a.
         if a = p_address p then Ret (upd_proxy i (\<lambda>p. p\<lparr>p_recvCount := 0\<rparr>) w)
         else if p_recvCount p = 0 then
           go_bind (slice data 24 32) (\<lambda>seed. go_bind (be_uint64 seed) (\<lambda>seedZero.
             if seedZero = 0 then Ret w
             else Ret (upd_proxy i (\<lambda>p. p\<lparr>p_recvCount := p_recvCount p + 1,
                    p_recvByte := copy_at 0 32 (p_recvByte p) data\<rparr>) w)))
         else if p_recvCount p = 1 then
           (let w = upd_proxy i (\<lambda>p. p\<lparr>p_recvCount := 0\<rparr>) w in
            if p_address p = detectProxy then shutdown cfg (-1) i (w\<lparr>w_poolIsDown := 0\<rparr>)
            else complete_job conv now nonce jid data i w)
         else Ret w))"

subsection \<open>Shares\<close>

definition validateShare :: "config \<Rightarrow> share \<Rightarrow> proxy \<Rightarrow> proxy_error option" where
  "validateShare cfg s p =
     (if s_JobID s = j_ID (p_currentJob p) then share_validate (ShareValidation cfg) s (p_currentJob p)
      else if s_JobID s = p_PrevJobID p then share_validate (ShareValidation cfg) s (p_currentJob p)
      else Some ErrBadJobID)"

definition fakePrefix :: string where "fakePrefix = ''FFFFFFFFFF''"

text \<open>What the submitter receives on the share's channels: nothing when the proxy is closed.\<close>

datatype reply = NoReply | ReplyError proxy_error | ReplyStatus string

definition share_frame :: "byte list \<Rightarrow> byte list" where
  "share_frame shareBytes = copy_at 4 36 (copy_at 0 4 (replicate 36 0) (le_put 4 (32 :: u32))) shareBytes"

text \<open>
  At most one share per 4 seconds goes to the pool: when the time has come, the better of this one
  and the best one since the last; before that, only the best is remembered.
\<close>

definition pool_submit :: "int \<Rightarrow> share \<Rightarrow> proxy \<Rightarrow> proxy go" where
  "pool_submit now s p =
     (let resBytes = fst (hex_decode (s_Result s)); nonceBytes = fst (hex_decode (s_Nonce s)) in
      go_bind (slice resBytes (int (length resBytes) - 8) (int (length resBytes))) (\<lambda>tail8.
      go_bind (le_uint64 tail8) (\<lambda>result.
        if 4 * 1000000000 \<le> now - p_lastSend p then
          go_bind (if result < p_miniResult p then CreateShare s p
                   else MakeShare (p_miniResult p) (p_miniNonce p) p) (\<lambda>shareBytes.
          go_bind (SendFrame (share_frame shareBytes) (p\<lparr>p_fieldOut := p_fieldOut p + 1\<rparr>)) (\<lambda>p.
            Ret (p\<lparr>p_miniResult := MaxUint64, p_lastSend := now\<rparr>)))
        else if result < p_miniResult p then
          go_bind (le_uint32 nonceBytes) (\<lambda>n. Ret (p\<lparr>p_miniResult := result, p_miniNonce := n\<rparr>))
        else Ret p)))"

definition count_share :: "(f64 \<Rightarrow> u64) \<Rightarrow> int \<Rightarrow> proxy \<Rightarrow> proxy go" where
  "count_share conv now p =
     (let p = p\<lparr>p_shares := p_shares p + 1\<rparr> in
      if p_shares p = 1 then Ret (p\<lparr>p_targetSince := now\<rparr>)
      else if p_shares p = of_nat (initDiffCount + 1) then setTarget conv now (p_shares p) p
      else Ret p)"

definition judge_share :: "config \<Rightarrow> (f64 \<Rightarrow> u64) \<Rightarrow> int \<Rightarrow> share \<Rightarrow> proxy \<Rightarrow> (reply \<times> proxy) go" where
  "judge_share cfg conv now s p =
     (if p_Conn p = None then Ret (ReplyError (ErrText ''no client to handle share''), p)
      else if \<not> has_prefix fakePrefix (s_JobID s) \<and> s_JobID s = j_ID (p_currentJob p) then
        (case validateShare cfg s p of
           Some err \<Rightarrow> Ret (ReplyError err, p)
         | None \<Rightarrow>
             go_bind (pool_submit now s p) (\<lambda>p.
             go_bind (count_share conv now p) (\<lambda>p. Ret (ReplyStatus ''OK'', p))))
      else go_bind (count_share conv now p) (\<lambda>p. Ret (ReplyStatus ''OK'', p)))"

definition handleSubmit :: "config \<Rightarrow> (f64 \<Rightarrow> u64) \<Rightarrow> int \<Rightarrow> share \<Rightarrow> u64 \<Rightarrow> world \<Rightarrow> (reply \<times> world) go" where
  "handleSubmit cfg conv now s i = locked_val i (\<lambda>w.
     if p_isClosed (w_proxies w i) then Ret (NoReply, w)
     else go_bind (judge_share cfg conv now s (w_proxies w i)) (\<lambda>(r, p). Ret (r, upd_proxy i (\<lambda>_. p) w)))"

text \<open>
  \<open>Submit\<close> up to the point where the share is sent to the proxy's goroutine: the miner's errors,
  or the share that is sent. What follows needs both goroutines and is in theory ProxyConc.
\<close>

definition submit_request :: "params \<Rightarrow> proxy \<Rightarrow> (proxy_error + share) go" where
  "submit_request ps p =
     (if p_isClosed p then Ret (Inl ErrBadJobID)
      else
        go_bind (newShare ps) (\<lambda>s.
          if s_JobID s = [] then Ret (Inl ErrBadJobID)
          else if s_Nonce s = [] then Ret (Inl ErrMalformedShare)
          else if s_JobID s = j_ID (p_currentJob p) \<or> s_JobID s = p_PrevJobID p
               \<or> has_prefix fakePrefix (s_JobID s) \<or> s_JobID s = p_BeforePrevJobID p
               \<or> s_JobID s = p_BeforeBeforePrevJobID p
          then if p_submissions_closed p then Panic else Ret (Inr s)
          else Ret (Inl ErrBadJobID)))"

subsection \<open>The goroutine of a proxy\<close>

definition retry_times :: "config \<Rightarrow> int" where
  "retry_times cfg = (if 0 < TryPoolTimes cfg then TryPoolTimes cfg else 3)"

text \<open>
  The first loop of \<open>Run\<close>. The list says, for each attempt, what \<open>poolIsDown\<close> is then and how the
  network answers; the loop has not come to an end when the list runs out.
\<close>

datatype run_result = Connected world | Stopped "world go" | Retrying world

fun run_connect :: "config \<Rightarrow> string \<Rightarrow> u64 \<Rightarrow> int \<Rightarrow> (u64 \<times> (dialer \<Rightarrow> proxy_error option)) list
    \<Rightarrow> world \<Rightarrow> run_result go" where
  "run_connect cfg name i retryCount [] w = Ret (Retrying w)"
| "run_connect cfg name i retryCount ((down, dial) # obs) w =
     (let w = w\<lparr>w_poolIsDown := down\<rparr> in
      if 0 < down \<and> name \<noteq> detectProxy then Ret (Stopped (shutdown cfg 2 i w))
      else
        go_bind (connect cfg dial name i w) (\<lambda>(err, w).
          if err = None then Ret (Connected w)
          else if retry_times cfg < retryCount + 1
          then Ret (Stopped (if name \<noteq> detectProxy then shutdown cfg 2 i w else shutdown cfg (-1) i w))
          else run_connect cfg name i (retryCount + 1) obs w))"

text \<open>The second loop: one turn on an event. The result says whether the loop goes on.\<close>

datatype event = EvSubmit share | EvNotify "byte list" | EvDone int

definition error_text :: "(hex_error \<Rightarrow> string) \<Rightarrow> proxy_error \<Rightarrow> string" where
  "error_text hexmsg e =
     (case e of
        ErrBadJobID \<Rightarrow> ''invalid job id'' | ErrDuplicateShare \<Rightarrow> ''duplicate share''
      | ErrMalformedShare \<Rightarrow> ''malformed share'' | ErrMalformedJob \<Rightarrow> ''bad job format from pool''
      | ErrUnknownTargetFormat \<Rightarrow> ''unrecognized format for job target''
      | ErrMalformedShareResult \<Rightarrow> ''result is the correct length''
      | ErrDiffTooLow \<Rightarrow> ''share difficulty too low''
      | ErrHex h \<Rightarrow> hexmsg h | ErrText t \<Rightarrow> t)"

definition run_event :: "config \<Rightarrow> (f64 \<Rightarrow> u64) \<Rightarrow> (hex_error \<Rightarrow> string) \<Rightarrow> int \<Rightarrow> u64 \<Rightarrow> string \<Rightarrow> string
    \<Rightarrow> u64 \<Rightarrow> event \<Rightarrow> world \<Rightarrow> (bool \<times> reply \<times> world) go" where
  "run_event cfg conv hexmsg now nonce jid name i ev w =
     (if name = detectProxy \<and> w_poolIsDown w = 0 then Ret (False, NoReply, w)
      else case ev of
        EvSubmit s \<Rightarrow>
          go_bind (handleSubmit cfg conv now s i w) (\<lambda>(r, w).
            case r of
              ReplyError e \<Rightarrow>
                if str_contains ''banned'' (map lower_char (error_text hexmsg e))
                then go_bind (shutdown cfg (-1) i w) (\<lambda>w. Ret (False, r, w))
                else Ret (True, r, w)
            | _ \<Rightarrow> Ret (True, r, w))
      | EvNotify d \<Rightarrow>
          go_bind (handleNotification cfg conv now nonce jid d i w) (\<lambda>w. Ret (True, NoReply, w))
      | EvDone cl \<Rightarrow> go_bind (shutdown cfg cl i w) (\<lambda>w. Ret (False, NoReply, w)))"

text \<open>\<open>PoolDetect\<close>, one tick: the detecting proxy, number 0, is reset and run again.\<close>

definition detect_proxy :: "int \<Rightarrow> string \<Rightarrow> proxy" where
  "detect_proxy now prev = (NewProxy 0 now prev)\<lparr>p_SS := False, p_address := detectAddr\<rparr>"

definition detect_tick :: "config \<Rightarrow> world \<Rightarrow> (bool \<times> world) go" where
  "detect_tick cfg w =
     (if 0 < w_poolIsDown w then
        if ExitOnPoolDown cfg then Exit
        else Ret (True, upd_proxy 0 (\<lambda>p. p\<lparr>p_fieldIn := 0, p_fieldOut := 0, p_recvCount := 0, p_isClosed := False\<rparr>)
               (w\<lparr>w_eofCount := 0, w_PoolDown := 0\<rparr>))
      else Ret (False, w))"

subsection \<open>Well-formed proxies\<close>

definition target_ok :: "string \<Rightarrow> bool" where
  "target_ok t \<longleftrightarrow> t = [] \<or> (\<exists>v. t = target_str v)"

definition proxy_ok :: "proxy \<Rightarrow> bool" where
  "proxy_ok p \<longleftrightarrow> length (p_addressHash p) = 24 \<and> length (p_recvByte p) = 64 \<and> p_recvCount p \<le> 1 \<and>
     target_ok (p_target p) \<and> (p_currentJob p = empty_job \<or> job_wf (p_currentJob p))"

lemma setTarget_ok:
  assumes "target_ok (p_target p)"
  shows "\<exists>v. setTarget conv now idx p =
    Ret (p\<lparr>p_target := target_str v, p_targetSince := now, p_targetShare := p_shares p\<rparr>)"
proof -
  obtain v where "target_or_default (p_target p) = target_str v"
    using target_or_default_str [of "p_target p"] assms by (auto simp: target_ok_def)
  from retarget_str [OF this] show ?thesis by (auto simp: setTarget_def)
qed

lemma CreateJob_blob:
  assumes "length blob = 64" and "length (p_addressHash p) = 24"
  shows "CreateJob nonce jid blob p = Ret
    \<lparr>j_Blob = hex_encode (take 32 blob @ p_addressHash p @ be_put 8 nonce), j_ID = jid,
     j_Target = getTarget p, j_SeedHash = hex_encode (drop 32 blob), j_Algo = xdagAlgo,
     j_initialNonce = ucast nonce, j_currentBlob = take 32 blob @ p_addressHash p @ be_put 8 nonce,
     j_currentNonce = ucast nonce\<rparr>"
proof -
  have s: "slice blob 32 64 = Ret (drop 32 blob)" using assms(1) by (simp add: slice_def)
  have c: "go_copy (replicate 64 0) blob = blob" by (rule go_copy_exact) (simp add: assms(1))
  have a: "copy_at 32 56 blob (p_addressHash p) = take 32 blob @ p_addressHash p @ drop 56 blob"
    by (rule copy_at_exact) (simp_all add: assms)
  have n: "copy_at 56 64 (take 32 blob @ p_addressHash p @ drop 56 blob) (be_put 8 nonce)
      = take 32 blob @ p_addressHash p @ be_put 8 nonce"
    by (subst copy_at_exact) (simp_all add: assms)
  show ?thesis
    by (simp add: CreateJob_def Let_def initNonceOffset_def initNonceLength_def s c a n)
qed

lemma be_put_low_word: "drop 4 (be_put 8 (n :: u64)) = be_put 4 (ucast n :: u32)"
proof -
  have "be_put 8 n = map of_nat (pad_digits 256 8 (unat n))" by (rule be_put_pad)
  moreover have "drop 4 (pad_digits 256 8 m) = pad_digits 256 4 m" for m
    by (rule nth_equalityI) (simp_all add: pad_digits_nth)
  moreover have "pad_digits 256 4 (m mod 2 ^ 32) = pad_digits 256 4 m" for m
  proof -
    have "from_digits 256 (pad_digits 256 4 (m mod 2 ^ 32)) = from_digits 256 (pad_digits 256 4 m)"
      by (simp add: from_pad_digits)
    then show ?thesis
      by (rule from_digits_inject [rotated 3]) (auto dest: pad_digits_less [rotated])
  qed
  moreover have "unat (ucast n :: u32) = unat n mod 2 ^ 32"
    by (simp add: unsigned_ucast_eq take_bit_eq_mod)
  ultimately show ?thesis by (simp add: drop_map be_put_pad)
qed

lemma CreateJob_wf:
  "length blob = 64 \<Longrightarrow> length (p_addressHash p) = 24 \<Longrightarrow> CreateJob nonce jid blob p = Ret j \<Longrightarrow> job_wf j"
  by (auto simp: CreateJob_blob job_wf_def be_put_low_word)

subsection \<open>Logging in\<close>

lemma login_frame_eq: "length (p_addressHash p) = 24 \<Longrightarrow> login_frame p = le_put 4 (24 :: u32) @ p_addressHash p"
  unfolding login_frame_def by (subst copy_at_exact; simp)+

text \<open>A miner name as the pool gets it: 28 bytes, cut off or filled up with zeros.\<close>

definition name_field :: "string \<Rightarrow> byte list" where
  "name_field name = take 28 (str_bytes name @ replicate 28 0)"

lemma name_frame_eq:
  "name_frame name = le_put 4 (32 :: u32) @ le_put 4 WORKERNAME_HEADER_WORD @ name_field name"
proof -
  have zeros: "drop 4 (replicate n (0 :: byte)) = replicate (n - 4) 0" for n by simp
  have "copy_at 0 4 (replicate 32 0) (le_put 4 WORKERNAME_HEADER_WORD)
      = le_put 4 WORKERNAME_HEADER_WORD @ replicate 28 0"
    by (subst copy_at_exact) simp_all
  moreover have "copy_at 4 32 (le_put 4 WORKERNAME_HEADER_WORD @ replicate 28 0) (str_bytes name)
      = le_put 4 WORKERNAME_HEADER_WORD @ name_field name"
    by (simp add: copy_at_def go_copy_def name_field_def min_def)
  moreover have "copy_at 4 36 (copy_at 0 4 (replicate 36 0) (le_put 4 (32 :: u32))) f
      = le_put 4 (32 :: u32) @ f" if "length f = 32" for f
    using that by (subst copy_at_exact; simp)+
  ultimately show ?thesis by (simp add: name_frame_def Let_def name_field_def)
qed

lemma SendFrame_open:
  "p_Conn p = Some c \<Longrightarrow> \<not> c_isClosed c \<Longrightarrow> \<not> c_msgs_closed c \<Longrightarrow>
   SendFrame d p = Ret (p\<lparr>p_Conn := Some (c\<lparr>c_msgs := c_msgs c @ [d]\<rparr>)\<rparr>)"
  by (simp add: SendFrame_def SendBuffMsg_def)

lemma log_in_eq:
  assumes "length (p_addressHash p) = 24"
  shows "log_in name p = Ret (p\<lparr>p_fieldOut := p_fieldOut p + (if name = [] then 16 else 17),
    p_Conn := Some ((Start (NewConnection (p_ID p)))\<lparr>c_msgs :=
      (le_put 4 (24 :: u32) @ p_addressHash p)
      # (if name = [] then [] else [le_put 4 (32 :: u32) @ le_put 4 WORKERNAME_HEADER_WORD @ name_field name])\<rparr>)\<rparr>)"
  using assms
  by (simp add: log_in_def SendFrame_open Start_def NewConnection_def login_frame_eq name_frame_eq)

subsection \<open>Notifications\<close>

lemma address_of_field: "length d = 32 \<Longrightarrow> \<exists>a. Hash2address d = Ret a"
  by (simp add: Hash2address_spec)

lemma field_tail: "length d = 32 \<Longrightarrow> slice d 24 32 = Ret (drop 24 d)"
  by (simp add: slice_def)

lemma be_get_zero_iff: "length bs = 8 \<Longrightarrow> (be_get bs :: u64) = 0 \<longleftrightarrow> bs = replicate 8 0"
proof
  have z: "(be_get (replicate 8 0) :: u64) = 0" by (simp add: be_get_def)
  {
    assume "length bs = 8" "(be_get bs :: u64) = 0"
    then have "bs = be_put 8 (0 :: u64)" using be_put_get [of bs 8, where 'a = 64] by simp
    also have "\<dots> = replicate 8 0" using be_put_get [of "replicate 8 0" 8, where 'a = 64] z by simp
    finally show "bs = replicate 8 0" .
  }
  show "bs = replicate 8 0 \<Longrightarrow> (be_get bs :: u64) = 0" using z by simp
qed

lemma go_copy_field: "length d = 32 \<Longrightarrow> go_copy (replicate 32 0) d = d"
  by (rule go_copy_exact) simp

lemma notify_first:
  assumes "length d = 32" and "Hash2address d \<noteq> Ret (p_address (w_proxies w i))"
    and "p_recvCount (w_proxies w i) = 0" and "length (p_recvByte (w_proxies w i)) = 64"
  shows "handleNotification cfg conv now nonce jid d i w = Ret (upd_proxy i (\<lambda>p.
    if (be_get (drop 24 d) :: u64) = 0 then p\<lparr>p_fieldIn := p_fieldIn p + 1\<rparr>
    else p\<lparr>p_fieldIn := p_fieldIn p + 1, p_recvCount := 1, p_recvByte := d @ drop 32 (p_recvByte p)\<rparr>) w)"
proof -
  obtain a where a: "Hash2address d = Ret a" using address_of_field [OF assms(1)] by blast
  have b: "be_uint64 (drop 24 d) = Ret (be_get (drop 24 d))" using assms(1) by (simp add: be_uint64_def)
  have c: "copy_at 0 32 (p_recvByte (w_proxies w i)) d = d @ drop 32 (p_recvByte (w_proxies w i))"
    by (subst copy_at_exact) (simp_all add: assms)
  have ne: "a \<noteq> p_address (w_proxies w i)" using a assms(2) by simp
  show ?thesis
    using ne assms(3)
    by (auto simp: handleNotification_def Let_def go_copy_field [OF assms(1)] a field_tail [OF assms(1)] b c
        intro!: upd_proxy_cong)
qed

lemma notify_second:
  assumes "length d = 32" and "Hash2address d \<noteq> Ret (p_address (w_proxies w i))"
    and "p_recvCount (w_proxies w i) = 1" and "p_address (w_proxies w i) \<noteq> detectProxy"
  shows "handleNotification cfg conv now nonce jid d i w =
    complete_job conv now nonce jid d i
      (upd_proxy i (\<lambda>p. p\<lparr>p_fieldIn := p_fieldIn p + 1, p_recvCount := 0\<rparr>) w)"
proof -
  obtain a where a: "Hash2address d = Ret a" using address_of_field [OF assms(1)] by blast
  with assms show ?thesis
    by (simp add: handleNotification_def Let_def go_copy_field [OF assms(1)])
qed

lemma broadcastJob_ok:
  assumes "\<not> p_connMu (w_proxies w i)" and "\<not> p_isClosed (w_proxies w i)"
    and "p_worker (w_proxies w i) = Some k" and "wk_write_ok (w_workers w k)" "wk_conn_open (w_workers w k)"
  shows "broadcastJob i w = Ret (upd_worker k (\<lambda>x. x\<lparr>wk_jobs := wk_jobs x @ [p_currentJob (w_proxies w i)]\<rparr>) w)"
  using assms
  by (simp add: broadcastJob_def locked_def worker_NewJob_def upd_proxy_def upd_worker_def fun_upd_idem)

lemma refresh_target:
  assumes "target_ok (p_target p)"
  shows "\<exists>t s m. (if of_nat (initDiffCount + 1) < p_shares p \<and> refreshDiffInterval \<le> now - p_targetSince p
      then setTarget conv now (p_shares p) p else Ret p)
    = Ret (p\<lparr>p_target := t, p_targetSince := s, p_targetShare := m\<rparr>) \<and> target_ok t"
proof (cases "of_nat (initDiffCount + 1) < p_shares p \<and> refreshDiffInterval \<le> now - p_targetSince p")
  case True
  then show ?thesis using setTarget_ok [OF assms, of conv now "p_shares p"] by (auto simp: target_ok_def)
next
  case False
  then show ?thesis
    using assms by (intro exI [of _ "p_target p"] exI [of _ "p_targetSince p"] exI [of _ "p_targetShare p"]) auto
qed

lemma complete_job_eq:
  assumes ok: "proxy_ok (w_proxies w i)" and "length d = 32"
  shows "\<exists>t s m j.
    complete_job conv now nonce jid d i w =
      (let r = (w_proxies w i)\<lparr>p_recvByte := take 32 (p_recvByte (w_proxies w i)) @ d,
         p_target := t, p_targetSince := s, p_targetShare := m\<rparr>
       in if p_currentJob (w_proxies w i) = empty_job \<or>
             take 16 (j_currentBlob (p_currentJob (w_proxies w i))) \<noteq> take 16 (p_recvByte (w_proxies w i))
          then handleJob j now i (upd_proxy i (\<lambda>_. r) w) else Ret (upd_proxy i (\<lambda>_. r) w))
    \<and> target_ok t \<and> job_wf j \<and> j_ID j = jid \<and> j_SeedHash j = hex_encode d \<and> j_Target j = target_or_default t
    \<and> j_currentNonce j = ucast nonce
    \<and> j_currentBlob j = take 32 (p_recvByte (w_proxies w i)) @ p_addressHash (w_proxies w i) @ be_put 8 nonce"
proof -
  let ?p = "w_proxies w i"
  let ?q = "?p\<lparr>p_recvByte := take 32 (p_recvByte ?p) @ d\<rparr>"
  let ?cur = "p_currentJob ?p"
  have c: "copy_at 32 64 (p_recvByte ?p) d = take 32 (p_recvByte ?p) @ d"
    using ok assms(2) by (subst copy_at_exact) (simp_all add: proxy_ok_def)
  obtain t s m where t: "(if of_nat (initDiffCount + 1) < p_shares ?q \<and> refreshDiffInterval \<le> now - p_targetSince ?q
      then setTarget conv now (p_shares ?q) ?q else Ret ?q)
    = Ret (?q\<lparr>p_target := t, p_targetSince := s, p_targetShare := m\<rparr>)" "target_ok t"
    using refresh_target [of ?q now conv] ok by (auto simp: proxy_ok_def)
  let ?r = "?q\<lparr>p_target := t, p_targetSince := s, p_targetShare := m\<rparr>"
  have len: "length (p_recvByte ?r) = 64" "length (p_addressHash ?r) = 24"
    using ok assms(2) by (simp_all add: proxy_ok_def)
  obtain j where j: "CreateJob nonce jid (p_recvByte ?r) ?r = Ret j"
    using CreateJob_blob [OF len] by blast
  have wf: "job_wf j" by (rule CreateJob_wf [OF len j])
  have fields: "j_ID j = jid" "j_SeedHash j = hex_encode d" "j_Target j = target_or_default t"
      "j_currentNonce j = ucast nonce"
      "j_currentBlob j = take 32 (p_recvByte ?p) @ p_addressHash ?p @ be_put 8 nonce"
    using j CreateJob_blob [OF len, of nonce jid] ok assms(2) by (auto simp: getTarget_def proxy_ok_def)
  have heads: "slice (j_Blob j) 0 32 = Ret (hex_encode (take 16 (j_currentBlob j)))" if "job_wf j" for j
    using that hex_encode_take [of 16 "j_currentBlob j"] by (simp add: job_wf_def slice_def)
  have task: "take 16 (j_currentBlob j) = take 16 (p_recvByte ?p)"
    using fields(5) ok by (simp add: proxy_ok_def)
  let ?new = "handleJob j now i (upd_proxy i (\<lambda>_. ?r) w)" and ?old = "Ret (upd_proxy i (\<lambda>_. ?r) w)"
  have cur: "p_currentJob ?r = ?cur" by simp
  have "complete_job conv now nonce jid d i w =
      (if j_Blob ?cur = [] then ?new
       else go_bind (slice (j_Blob ?cur) 0 32) (\<lambda>a. go_bind (slice (j_Blob j) 0 32) (\<lambda>b.
              if a \<noteq> b then ?new else ?old)))"
    by (simp only: complete_job_def Let_def c t(1) go_bind.simps j cur)
  also have "\<dots> = (if ?cur = empty_job \<or> take 16 (j_currentBlob ?cur) \<noteq> take 16 (p_recvByte ?p) then ?new else ?old)"
  proof (cases "?cur = empty_job")
    case True
    then have "j_Blob ?cur = []" by (simp add: empty_job_def)
    with True show ?thesis by (simp only: refl if_True disj_absorb simp_thms)
  next
    case False
    then have cur: "job_wf ?cur" using ok by (simp add: proxy_ok_def)
    then have "j_Blob ?cur \<noteq> []" by (auto simp: job_wf_def simp flip: length_0_conv)
    with False task show ?thesis by (simp add: heads [OF wf] heads [OF cur] hex.enc_inject)
  qed
  finally show ?thesis using t(2) wf fields by (auto simp: Let_def)
qed

lemma complete_job_new:
  assumes ok: "proxy_ok (w_proxies w i)" and "length d = 32"
    and opn: "\<not> p_connMu (w_proxies w i)" "\<not> p_isClosed (w_proxies w i)"
    and worker: "p_worker (w_proxies w i) = Some k" "wk_write_ok (w_workers w k)" "wk_conn_open (w_workers w k)"
    and fresh: "p_currentJob (w_proxies w i) = empty_job \<or>
      take 16 (j_currentBlob (p_currentJob (w_proxies w i))) \<noteq> take 16 (p_recvByte (w_proxies w i))"
  shows "\<exists>t s m j.
    complete_job conv now nonce jid d i w = Ret (upd_worker k (\<lambda>x. x\<lparr>wk_jobs := wk_jobs x @ [j]\<rparr>)
      (upd_proxy i (\<lambda>p. adopt_job j now (p\<lparr>p_recvByte := take 32 (p_recvByte p) @ d,
         p_target := t, p_targetSince := s, p_targetShare := m\<rparr>)) w))
    \<and> target_ok t \<and> job_wf j \<and> j_ID j = jid \<and> j_SeedHash j = hex_encode d \<and> j_Target j = target_or_default t
    \<and> j_currentNonce j = ucast nonce
    \<and> j_currentBlob j = take 32 (p_recvByte (w_proxies w i)) @ p_addressHash (w_proxies w i) @ be_put 8 nonce"
proof -
  let ?p = "w_proxies w i"
  let ?q = "\<lambda>t s m p. p\<lparr>p_recvByte := take 32 (p_recvByte p) @ d, p_target := t, p_targetSince := s, p_targetShare := m\<rparr>"
  obtain t s m j where
    cj: "complete_job conv now nonce jid d i w = handleJob j now i (upd_proxy i (\<lambda>_. ?q t s m ?p) w)"
    and j: "target_ok t" "job_wf j" "j_ID j = jid" "j_SeedHash j = hex_encode d" "j_Target j = target_or_default t"
      "j_currentNonce j = ucast nonce" "j_currentBlob j = take 32 (p_recvByte ?p) @ p_addressHash ?p @ be_put 8 nonce"
    using complete_job_eq [OF assms(1,2), of conv now nonce jid] unfolding Let_def if_P [OF fresh] by blast
  note cj
  also have "handleJob j now i (upd_proxy i (\<lambda>_. ?q t s m ?p) w)
      = Ret (upd_worker k (\<lambda>x. x\<lparr>wk_jobs := wk_jobs x @ [j]\<rparr>) (upd_proxy i (\<lambda>_. adopt_job j now (?q t s m ?p)) w))"
    unfolding handleJob_def using opn worker
    by (subst broadcastJob_ok [where k = k]) (simp_all add: adopt_job_def)
  also have "upd_proxy i (\<lambda>_. adopt_job j now (?q t s m ?p)) w = upd_proxy i (\<lambda>p. adopt_job j now (?q t s m p)) w"
    by (rule upd_proxy_cong) simp
  finally show ?thesis using j by blast
qed

lemma adopt_job_simps [simp]:
  "p_currentJob (adopt_job j now p) = j" "p_PrevJobID (adopt_job j now p) = j_ID (p_currentJob p)"
  "p_BeforePrevJobID (adopt_job j now p) = p_PrevJobID p"
  "p_BeforeBeforePrevJobID (adopt_job j now p) = p_BeforePrevJobID p"
  "p_recvCount (adopt_job j now p) = p_recvCount p" "p_recvByte (adopt_job j now p) = p_recvByte p"
  "p_addressHash (adopt_job j now p) = p_addressHash p" "p_target (adopt_job j now p) = p_target p"
  "p_miniResult (adopt_job j now p) = MaxUint64" "p_lastSend (adopt_job j now p) = now"
  by (simp_all add: adopt_job_def)

subsection \<open>Properties: jobs\<close>

text \<open>
  C6: Two consecutive pool fields, a task whose last 8 bytes are not zero and a seed, neither of
  them the miner's own address, make one job: the miner is sent the task, its own account and the
  fresh nonce as the blob, and the seed as the seed hash; the job becomes current, the old one
  previous, and the share window starts afresh. This holds for every task whose first 16 bytes
  differ from the current one's, whatever target the refresh computes.
\<close>

theorem field_pair_makes_job:
  assumes ok: "proxy_ok (w_proxies w i)" and count: "p_recvCount (w_proxies w i) = 0"
    and opn: "\<not> p_connMu (w_proxies w i)" "\<not> p_isClosed (w_proxies w i)"
    and worker: "p_worker (w_proxies w i) = Some k" "wk_write_ok (w_workers w k)" "wk_conn_open (w_workers w k)"
    and len: "length task = 32" "length seed = 32"
    and task: "drop 24 task \<noteq> replicate 8 0" "Hash2address task \<noteq> Ret (p_address (w_proxies w i))"
    and seed: "Hash2address seed \<noteq> Ret (p_address (w_proxies w i))"
    and nodetect: "p_address (w_proxies w i) \<noteq> detectProxy"
    and fresh: "p_currentJob (w_proxies w i) = empty_job \<or>
      take 16 (j_currentBlob (p_currentJob (w_proxies w i))) \<noteq> take 16 task"
  shows "\<exists>v. go_bind (handleNotification cfg conv now nonce jid task i w)
        (handleNotification cfg conv now' nonce' jid' seed i) = Ret v
    \<and> (let p = w_proxies v i; j = p_currentJob p in
        j_Blob j = hex_encode (task @ p_addressHash (w_proxies w i) @ be_put 8 nonce')
        \<and> j_SeedHash j = hex_encode seed \<and> j_ID j = jid' \<and> j_currentNonce j = ucast nonce' \<and> job_wf j
        \<and> wk_jobs (w_workers v k) = wk_jobs (w_workers w k) @ [j]
        \<and> p_PrevJobID p = j_ID (p_currentJob (w_proxies w i))
        \<and> p_miniResult p = MaxUint64 \<and> p_lastSend p = now' \<and> proxy_ok p \<and> p_recvCount p = 0)"
proof -
  let ?p = "w_proxies w i"
  have rl: "length (p_recvByte ?p) = 64" using ok by (simp add: proxy_ok_def)
  let ?f = "\<lambda>p. p\<lparr>p_fieldIn := p_fieldIn p + 1, p_recvCount := 1, p_recvByte := task @ drop 32 (p_recvByte p)\<rparr>"
  let ?u = "upd_proxy i ?f w"
  have one: "handleNotification cfg conv now nonce jid task i w = Ret ?u"
    using notify_first [OF len(1) task(2) count rl] task(1) be_get_zero_iff [of "drop 24 task"] len(1)
    by simp
  let ?g = "\<lambda>p. p\<lparr>p_fieldIn := p_fieldIn p + 1, p_recvCount := 0\<rparr>"
  let ?v = "upd_proxy i ?g ?u"
  have two: "handleNotification cfg conv now' nonce' jid' seed i ?u = complete_job conv now' nonce' jid' seed i ?v"
    by (rule notify_second [OF len(2)]) (use seed nodetect in simp_all)
  have okv: "proxy_ok (w_proxies ?v i)" using ok len by (simp add: proxy_ok_def)
  have recv: "take 32 (p_recvByte (w_proxies ?v i)) = task" "take 16 (p_recvByte (w_proxies ?v i)) = take 16 task"
    using len by simp_all
  obtain t s m j where
    res: "complete_job conv now' nonce' jid' seed i ?v = Ret (upd_worker k (\<lambda>x. x\<lparr>wk_jobs := wk_jobs x @ [j]\<rparr>)
      (upd_proxy i (\<lambda>p. adopt_job j now' (p\<lparr>p_recvByte := take 32 (p_recvByte p) @ seed,
         p_target := t, p_targetSince := s, p_targetShare := m\<rparr>)) ?v))"
    and j: "target_ok t" "job_wf j" "j_ID j = jid'" "j_SeedHash j = hex_encode seed" "j_currentNonce j = ucast nonce'"
      "j_currentBlob j = task @ p_addressHash ?p @ be_put 8 nonce'"
    using complete_job_new [OF okv len(2), of k conv now' nonce' jid'] opn worker fresh recv by auto
  show ?thesis
    using one two res j ok okv len recv
    by (intro exI conjI) (auto simp: Let_def job_wf_def proxy_ok_def)
qed

text \<open>
  What the proxy makes of a single field: its own address (the account with its balance)
  drops a task that is waiting for its seed, and a first field that ends in eight zero bytes is
  ignored. Neither touches the current job, the miner or the targets.
\<close>

theorem field_filter:
  assumes "length d = 32" and "length (p_recvByte (w_proxies w i)) = 64"
  shows "(Hash2address d = Ret (p_address (w_proxies w i)) \<longrightarrow>
      handleNotification cfg conv now nonce jid d i w =
        Ret (upd_proxy i (\<lambda>p. p\<lparr>p_fieldIn := p_fieldIn p + 1, p_recvCount := 0\<rparr>) w))
    \<and> (Hash2address d \<noteq> Ret (p_address (w_proxies w i)) \<and> p_recvCount (w_proxies w i) = 0
        \<and> drop 24 d = replicate 8 0 \<longrightarrow>
      handleNotification cfg conv now nonce jid d i w =
        Ret (upd_proxy i (\<lambda>p. p\<lparr>p_fieldIn := p_fieldIn p + 1\<rparr>) w))"
proof (intro conjI impI)
  assume "Hash2address d = Ret (p_address (w_proxies w i))"
  then show "handleNotification cfg conv now nonce jid d i w =
      Ret (upd_proxy i (\<lambda>p. p\<lparr>p_fieldIn := p_fieldIn p + 1, p_recvCount := 0\<rparr>) w)"
    by (simp add: handleNotification_def Let_def go_copy_field [OF assms(1)])
next
  assume "Hash2address d \<noteq> Ret (p_address (w_proxies w i)) \<and> p_recvCount (w_proxies w i) = 0
        \<and> drop 24 d = replicate 8 0"
  with notify_first [OF assms(1) _ _ assms(2)] be_get_zero_iff [of "drop 24 d"] assms(1)
  show "handleNotification cfg conv now nonce jid d i w =
      Ret (upd_proxy i (\<lambda>p. p\<lparr>p_fieldIn := p_fieldIn p + 1\<rparr>) w)" by simp
qed

text \<open>A world with one session and its miner, for the witnesses.\<close>

definition demo_session :: world where
  "demo_session = proxy_Add 1 1 demo_world"

lemma demo_session_fields:
  "w_proxies demo_session 1 = (NewProxy 1 0 [])\<lparr>p_director := True, p_worker := Some 1\<rparr>"
  "wk_write_ok (w_workers demo_session 1)" "wk_conn_open (w_workers demo_session 1)"
  "wk_jobs (w_workers demo_session 1) = []" "wk_p (w_workers demo_session 1) = Some 1"
  by (simp_all add: demo_session_def proxy_Add_def demo_world_def demo_base_def addProxy_def
      nextProxyID_def newDirector_def NewProxy_def Let_def)

lemma demo_session_ok: "proxy_ok (w_proxies demo_session 1)"
  by (simp add: demo_session_fields NewProxy_def proxy_ok_def target_ok_def)

lemma address_not_empty: "length d = 32 \<Longrightarrow> Hash2address d \<noteq> Ret []"
  by (simp add: Hash2address_spec flip: length_0_conv)

theorem field_pair_makes_job_witness:
  "\<exists>v. go_bind (handleNotification default_config (\<lambda>_. 0) 0 0 [] (replicate 32 1) 1 demo_session)
        (handleNotification default_config (\<lambda>_. 0) 5 7 ''id'' (replicate 32 2) 1) = Ret v
    \<and> j_Blob (p_currentJob (w_proxies v 1)) = hex_encode (replicate 32 1 @ replicate 24 0 @ be_put 8 (7 :: u64))"
proof -
  have tail: "drop 24 (replicate 32 1) \<noteq> (replicate 8 0 :: byte list)" by simp
  have "p_address (w_proxies demo_session 1) = []" "p_recvCount (w_proxies demo_session 1) = 0"
    "\<not> p_connMu (w_proxies demo_session 1)" "\<not> p_isClosed (w_proxies demo_session 1)"
    "p_worker (w_proxies demo_session 1) = Some 1" "p_currentJob (w_proxies demo_session 1) = empty_job"
    "p_addressHash (w_proxies demo_session 1) = replicate 24 0"
    by (simp_all add: demo_session_fields NewProxy_def)
  then show ?thesis
    using field_pair_makes_job [OF demo_session_ok, of 1 "replicate 32 1" "replicate 32 2" default_config "\<lambda>_. 0" 0 0 "[]" 5 7 "''id''"]
      demo_session_fields(2,3) tail address_not_empty [of "replicate 32 1"] address_not_empty [of "replicate 32 2"]
    by (auto simp: detectProxy_def Let_def)
qed

theorem field_filter_witness:
  "handleNotification default_config (\<lambda>_. 0) 0 0 [] (replicate 32 0) 1 demo_session
     = Ret (upd_proxy 1 (\<lambda>p. p\<lparr>p_fieldIn := p_fieldIn p + 1\<rparr>) demo_session)"
proof -
  have "p_address (w_proxies demo_session 1) = []" "p_recvCount (w_proxies demo_session 1) = 0"
    "length (p_recvByte (w_proxies demo_session 1)) = 64"
    by (simp_all add: demo_session_fields NewProxy_def)
  then show ?thesis
    using field_filter [of "replicate 32 0" demo_session 1 default_config "\<lambda>_. 0" 0 0 "[]"]
      address_not_empty [of "replicate 32 0"] by simp
qed

end
