(* ===== verification/Submit.thy ===== *)
theory Submit
  imports Proxy
begin

text \<open>
  What the proxy does with shares (\<open>handleSubmit\<close> and the checks of \<open>Submit\<close> in
  \<open>server/proxy/proxy.go\<close>): which it accepts and counts, which of them go to the pool and when.
  The definitions are in theory Proxy; \<open>submit_all\<close> is a sequence of shares with their times.
\<close>

definition result_of :: "share \<Rightarrow> u64" where
  "result_of s = le_get (drop 24 (fst (hex_decode (s_Result s))))"

definition nonce_of :: "share \<Rightarrow> u32" where
  "nonce_of s = le_get (fst (hex_decode (s_Nonce s)))"

text \<open>The 36 bytes that report a nonce for a job to the pool.\<close>

definition share_message :: "job \<Rightarrow> u32 \<Rightarrow> byte list" where
  "share_message j n = le_put 4 (32 :: u32) @ take 28 (drop 32 (j_currentBlob j)) @ le_put 4 n"

definition conn_open :: "proxy \<Rightarrow> bool" where
  "conn_open p \<longleftrightarrow> (\<exists>c. p_Conn p = Some c \<and> \<not> c_isClosed c \<and> \<not> c_msgs_closed c)"

definition sent :: "proxy \<Rightarrow> byte list list" where
  "sent p = (case p_Conn p of None \<Rightarrow> [] | Some c \<Rightarrow> c_msgs c)"

definition send_msg :: "byte list \<Rightarrow> proxy \<Rightarrow> proxy" where
  "send_msg d p = p\<lparr>p_Conn := map_option (\<lambda>c. c\<lparr>c_msgs := c_msgs c @ [d]\<rparr>) (p_Conn p)\<rparr>"

subsection \<open>One share\<close>

lemma SendFrame_msg: "conn_open p \<Longrightarrow> SendFrame d p = Ret (send_msg d p)"
  by (auto simp: conn_open_def send_msg_def SendFrame_open)

lemma share_frame_eq: "length b = 32 \<Longrightarrow> share_frame b = le_put 4 (32 :: u32) @ b"
  unfolding share_frame_def by (subst copy_at_exact; simp)+

lemma share_bytes:
  assumes "length (j_currentBlob (p_currentJob p)) = 64" and "length n = 4"
  shows "copy_at 28 32 (copy_at 0 28 (replicate 32 0) (take 28 (drop 32 (j_currentBlob (p_currentJob p))))) n
    = take 28 (drop 32 (j_currentBlob (p_currentJob p))) @ n"
  using assms by (subst copy_at_exact; simp)+

lemma MakeShare_eq:
  assumes "length (j_currentBlob (p_currentJob p)) = 64"
  shows "MakeShare r n p = Ret (take 28 (drop 32 (j_currentBlob (p_currentJob p))) @ le_put 4 n)"
  using share_bytes [OF assms, of "le_put 4 n"] assms
  by (simp add: MakeShare_def slice_def Let_def)

lemma CreateShare_eq:
  assumes "length (j_currentBlob (p_currentJob p)) = 64" and "well_formed_share s"
  shows "CreateShare s p = MakeShare r (nonce_of s) p"
proof -
  let ?n = "fst (hex_decode (s_Nonce s))"
  have "length ?n = 4" using assms(2) by (simp add: well_formed_share_def)
  then have "le_put 4 (nonce_of s) = ?n" unfolding nonce_of_def by (rule le_put_get) simp
  then show ?thesis by (simp add: CreateShare_def MakeShare_def Let_def)
qed

definition better :: "u64 \<times> u32 \<Rightarrow> share \<Rightarrow> u64 \<times> u32" where
  "better b s = (if result_of s < fst b then (result_of s, nonce_of s) else b)"

lemma pool_submit_eq:
  assumes "well_formed_share s" and "conn_open p" and "length (j_currentBlob (p_currentJob p)) = 64"
  shows "pool_submit now s p = Ret
    (let b = better (p_miniResult p, p_miniNonce p) s in
     if 4000000000 \<le> now - p_lastSend p
     then (send_msg (share_message (p_currentJob p) (snd b)) p)\<lparr>p_fieldOut := p_fieldOut p + 1,
            p_miniResult := MaxUint64, p_lastSend := now\<rparr>
     else p\<lparr>p_miniResult := fst b, p_miniNonce := snd b\<rparr>)"
proof -
  let ?r = "fst (hex_decode (s_Result s))" and ?n = "fst (hex_decode (s_Nonce s))"
  have len: "length ?r = 32" "length ?n = 4" using assms(1) by (simp_all add: well_formed_share_def)
  have r: "slice ?r (int (length ?r) - 8) (int (length ?r)) = Ret (drop 24 ?r)"
    using len by (simp add: slice_def)
  have lr: "le_uint64 (drop 24 ?r) = Ret (result_of s)" using len by (simp add: le_uint64_def result_of_def)
  have ln: "le_uint32 ?n = Ret (nonce_of s)" using len by (simp add: le_uint32_def nonce_of_def)
  have open_out: "conn_open (p\<lparr>p_fieldOut := x\<rparr>)" for x using assms(2) by (simp add: conn_open_def)
  have frame: "share_frame (take 28 (drop 32 (j_currentBlob (p_currentJob p))) @ le_put 4 n)
      = share_message (p_currentJob p) n" for n :: u32
    using assms(3) by (subst share_frame_eq) (simp_all add: share_message_def)
  note make = CreateShare_eq [OF assms(3,1), of "p_miniResult p"] MakeShare_eq [OF assms(3)]
  show ?thesis
    by (simp add: pool_submit_def Let_def r lr ln make frame SendFrame_msg [OF open_out] better_def)
      (simp add: send_msg_def)
qed

subsection \<open>A window of shares\<close>

fun submit_all :: "(int \<times> share) list \<Rightarrow> proxy \<Rightarrow> proxy go" where
  "submit_all [] p = Ret p"
| "submit_all ((now, s) # xs) p = go_bind (pool_submit now s p) (submit_all xs)"

lemma submit_all_append: "submit_all (xs @ ys) p = go_bind (submit_all xs p) (submit_all ys)"
proof (induction xs arbitrary: p)
  case (Cons x xs)
  then have "submit_all (xs @ ys) = (\<lambda>p. go_bind (submit_all xs p) (submit_all ys))"
    by (simp add: fun_eq_iff)
  then show ?case by (cases x) simp
qed simp

lemma submit_window:
  assumes "\<forall>(now, s) \<in> set xs. well_formed_share s \<and> now - p_lastSend p < 4000000000"
    and "conn_open p" and "length (j_currentBlob (p_currentJob p)) = 64"
  shows "submit_all xs p = Ret (let b = foldl better (p_miniResult p, p_miniNonce p) (map snd xs)
    in p\<lparr>p_miniResult := fst b, p_miniNonce := snd b\<rparr>)"
  using assms(1)
proof (induction xs rule: rev_induct)
  case (snoc x xs)
  obtain now s where x: "x = (now, s)" by (cases x)
  let ?b = "foldl better (p_miniResult p, p_miniNonce p) (map snd xs)"
  let ?q = "p\<lparr>p_miniResult := fst ?b, p_miniNonce := snd ?b\<rparr>"
  have "submit_all xs p = Ret ?q" using snoc by (simp add: Let_def)
  moreover have "pool_submit now s ?q = Ret (p\<lparr>p_miniResult := fst (better ?b s), p_miniNonce := snd (better ?b s)\<rparr>)"
    using snoc.prems x assms(2,3) by (subst pool_submit_eq) (auto simp: conn_open_def Let_def)
  ultimately show ?case by (simp add: submit_all_append x Let_def)
qed (simp add: Let_def)

lemma best_of_window:
  "(fst (foldl better b ss) = fst b \<and> snd (foldl better b ss) = snd b \<and> (\<forall>a \<in> set ss. fst b \<le> result_of a))
   \<or> (\<exists>s \<in> set ss. foldl better b ss = (result_of s, nonce_of s) \<and> result_of s < fst b
       \<and> (\<forall>a \<in> set ss. result_of s \<le> result_of a))"
proof (induction ss rule: rev_induct)
  case (snoc x ss)
  let ?r = "foldl better b ss"
  have step: "foldl better b (ss @ [x]) = better ?r x" by simp
  show ?case
  proof (cases "result_of x < fst ?r")
    case True
    then have "better ?r x = (result_of x, nonce_of x)" by (simp add: better_def)
    moreover from snoc have "result_of x < fst b" "\<forall>a \<in> set ss. result_of x \<le> result_of a"
      using True by (auto intro: order.strict_trans order.trans less_imp_le)
    ultimately show ?thesis unfolding step by auto
  next
    case False
    then have "better ?r x = ?r" by (simp add: better_def)
    with snoc False show ?thesis unfolding step by (auto simp: not_less)
  qed
qed simp

subsection \<open>Counting\<close>

lemma count_share_eq:
  assumes "target_ok (p_target p)"
  shows "\<exists>t s m. count_share conv now p =
      Ret (p\<lparr>p_shares := p_shares p + 1, p_target := t, p_targetSince := s, p_targetShare := m\<rparr>) \<and> target_ok t"
proof -
  let ?p = "p\<lparr>p_shares := p_shares p + 1\<rparr>"
  obtain v where v: "setTarget conv now (p_shares ?p) ?p =
      Ret (?p\<lparr>p_target := target_str v, p_targetSince := now, p_targetShare := p_shares ?p\<rparr>)"
    using setTarget_ok [of ?p conv now "p_shares ?p"] assms by auto
  have "target_ok (target_str v)" by (auto simp: target_ok_def)
  with assms v show ?thesis
  proof (cases "p_shares ?p = of_nat (initDiffCount + 1)")
    case True
    then have "p_shares ?p \<noteq> 1" by (simp add: initDiffCount_def)
    with True v have "count_share conv now p =
        Ret (p\<lparr>p_shares := p_shares p + 1, p_target := target_str v, p_targetSince := now, p_targetShare := p_shares ?p\<rparr>)"
      by (simp add: count_share_def Let_def)
    with \<open>target_ok (target_str v)\<close> show ?thesis by blast
  next
    case False
    then have "count_share conv now p = Ret (?p\<lparr>p_target := p_target p,
        p_targetSince := (if p_shares ?p = 1 then now else p_targetSince p), p_targetShare := p_targetShare p\<rparr>)"
      by (simp add: count_share_def Let_def)
    with assms show ?thesis by blast
  qed
qed

lemma proxy_ok_blob: "proxy_ok p \<Longrightarrow> p_currentJob p \<noteq> empty_job \<Longrightarrow> length (j_currentBlob (p_currentJob p)) = 64"
  by (auto simp: proxy_ok_def job_wf_def)

text \<open>A proxy with a job and an open connection, and well-formed shares for it.\<close>

definition demo_job :: job where
  "demo_job = (snd (job_Next empty_job))\<lparr>j_ID := ''job1''\<rparr>"

definition demo_proxy :: proxy where
  "demo_proxy = (NewProxy 1 0 [])\<lparr>p_Conn := Some (Start (NewConnection 1)), p_currentJob := demo_job\<rparr>"

definition demo_share :: "string \<Rightarrow> u64 \<Rightarrow> u32 \<Rightarrow> share" where
  "demo_share jid r n = \<lparr>s_AuthID = [], s_JobID = jid, s_Nonce = hex_encode (le_put 4 n),
     s_Result = hex_encode (replicate 24 0 @ le_put 8 r)\<rparr>"

lemma demo_share_simps [simp]:
  "well_formed_share (demo_share jid r n)" "result_of (demo_share jid r n) = r"
  "nonce_of (demo_share jid r n) = n" "s_JobID (demo_share jid r n) = jid"
  by (simp_all add: demo_share_def well_formed_share_def result_of_def nonce_of_def le_get_put)

lemma demo_proxy_simps:
  "proxy_ok demo_proxy" "conn_open demo_proxy" "length (j_currentBlob (p_currentJob demo_proxy)) = 64"
  "p_miniResult demo_proxy = MaxUint64" "p_lastSend demo_proxy = 0" "sent demo_proxy = []"
  "p_currentJob demo_proxy = demo_job" "j_ID demo_job = ''job1''" "p_shares demo_proxy = 0"
  using job_Next_wf [of empty_job]
  by (simp_all add: demo_proxy_def demo_job_def NewProxy_def Start_def NewConnection_def proxy_ok_def
      conn_open_def sent_def target_ok_def job_wf_def)

subsection \<open>Properties\<close>

text \<open>
  C2: Within four seconds of the last report nothing is sent to the pool; the first share after
  that makes exactly one report, and it carries the nonce of a share with the least result among
  those of the window and this one, for the account and task of the current job. The window starts
  with no result, and some result is below the largest \<open>uint64\<close>.
\<close>

theorem best_share_reported:
  assumes window: "\<forall>(t, a) \<in> set xs. well_formed_share a \<and> t - p_lastSend p < 4000000000"
    and last: "well_formed_share s" "4000000000 \<le> now - p_lastSend p"
    and p: "conn_open p" "length (j_currentBlob (p_currentJob p)) = 64" "p_miniResult p = MaxUint64"
    and some: "\<exists>a \<in> set (map snd xs @ [s]). result_of a \<noteq> MaxUint64"
  shows "\<exists>q v b. submit_all xs p = Ret q \<and> sent q = sent p
    \<and> pool_submit now s q = Ret v
    \<and> b \<in> set (map snd xs @ [s]) \<and> (\<forall>a \<in> set (map snd xs @ [s]). result_of b \<le> result_of a)
    \<and> sent v = sent p @ [share_message (p_currentJob p) (nonce_of b)]
    \<and> p_lastSend v = now \<and> p_miniResult v = MaxUint64"
proof -
  let ?ss = "map snd xs @ [s]"
  let ?init = "(p_miniResult p, p_miniNonce p)"
  let ?b = "foldl better ?init (map snd xs)"
  let ?q = "p\<lparr>p_miniResult := fst ?b, p_miniNonce := snd ?b\<rparr>"
  have q: "submit_all xs p = Ret ?q" using submit_window [OF window p(1,2)] by (simp add: Let_def)
  have qo: "conn_open ?q" using p(1) by (simp add: conn_open_def)
  let ?v = "(send_msg (share_message (p_currentJob p) (snd (foldl better ?init ?ss))) ?q)\<lparr>
      p_fieldOut := p_fieldOut p + 1, p_miniResult := MaxUint64, p_lastSend := now\<rparr>"
  have best: "better (p_miniResult ?q, p_miniNonce ?q) s = foldl better ?init ?ss" by simp
  have v: "pool_submit now s ?q = Ret ?v"
    using pool_submit_eq [OF last(1) qo, of now] p(2) last(2) unfolding best by simp
  have max: "result_of a \<le> MaxUint64" for a
    using unsigned_less [of "result_of a", where 'a = nat] by (simp add: MaxUint64_def word_le_nat_alt)
  then have "\<not> (\<forall>a \<in> set ?ss. p_miniResult p \<le> result_of a)"
    using some p(3) by (metis order.antisym)
  then obtain b where b: "b \<in> set ?ss" "foldl better ?init ?ss = (result_of b, nonce_of b)"
      "\<forall>a \<in> set ?ss. result_of b \<le> result_of a"
    using best_of_window [of ?init ?ss] by auto
  have "sent ?v = sent p @ [share_message (p_currentJob p) (nonce_of b)]"
    using p(1) b(2) by (auto simp: sent_def send_msg_def conn_open_def)
  moreover have "sent ?q = sent p" by (simp add: sent_def)
  ultimately show ?thesis using q v b(1,3) by (intro exI [of _ ?q] exI [of _ ?v] exI [of _ b]) simp
qed

theorem best_share_reported_witness:
  "\<exists>q v. submit_all [(1, demo_share ''job1'' 5 11)] demo_proxy = Ret q \<and> sent q = []
     \<and> pool_submit 4000000000 (demo_share ''job1'' 9 12) q = Ret v \<and> sent v = [share_message demo_job 11]"
proof -
  let ?xs = "[(1 :: int, demo_share ''job1'' 5 11)]" and ?s = "demo_share ''job1'' 9 12"
  have w: "\<forall>(t, a) \<in> set ?xs. well_formed_share a \<and> t - p_lastSend demo_proxy < 4000000000"
    by (simp add: demo_proxy_simps)
  have l: "4000000000 \<le> 4000000000 - p_lastSend demo_proxy" by (simp add: demo_proxy_simps)
  have e: "\<exists>a \<in> set (map snd ?xs @ [?s]). result_of a \<noteq> MaxUint64" by (simp add: MaxUint64_def)
  obtain q v b where r: "submit_all ?xs demo_proxy = Ret q" "sent q = sent demo_proxy"
      "pool_submit 4000000000 ?s q = Ret v" "b \<in> set (map snd ?xs @ [?s])"
      "\<forall>a \<in> set (map snd ?xs @ [?s]). result_of b \<le> result_of a"
      "sent v = sent demo_proxy @ [share_message (p_currentJob demo_proxy) (nonce_of b)]"
    using best_share_reported [OF w demo_share_simps(1) l demo_proxy_simps(2-4) e] by blast
  then have "nonce_of b = 11" by auto
  with r(1,2,3,6) show ?thesis by (auto simp only: demo_proxy_simps append_Nil)
qed

lemma counted_share:
  assumes ok: "proxy_ok p" and conn: "conn_open p" and wf: "well_formed_share s" and lvl: "2 \<le> ShareValidation cfg"
    and fresh: "s_JobID s = j_ID (p_currentJob p)" "\<not> has_prefix fakePrefix (s_JobID s)" "s_JobID s \<noteq> []"
  shows "\<exists>q. judge_share cfg conv now s p = Ret (ReplyStatus ''OK'', q) \<and> proxy_ok q \<and> p_shares q = p_shares p + 1
    \<and> pool_submit now s p = Ret (q\<lparr>p_shares := p_shares p, p_target := p_target p,
        p_targetSince := p_targetSince p, p_targetShare := p_targetShare p\<rparr>)"
proof -
  have "p_currentJob p \<noteq> empty_job" using fresh(1,3) by (auto simp: empty_job_def)
  then have blob: "length (j_currentBlob (p_currentJob p)) = 64" by (rule proxy_ok_blob [OF ok])
  obtain x where x: "pool_submit now s p = Ret x" "proxy_ok x" "p_target x = p_target p"
      "p_shares x = p_shares p" "p_targetSince x = p_targetSince p" "p_targetShare x = p_targetShare p"
    using pool_submit_eq [OF wf conn blob, of now] ok
    by (auto simp: Let_def send_msg_def proxy_ok_def split: if_splits)
  then have "target_ok (p_target x)" by (simp add: proxy_ok_def)
  from count_share_eq [OF this, of conv now] obtain t a m where c: "count_share conv now x =
      Ret (x\<lparr>p_shares := p_shares x + 1, p_target := t, p_targetSince := a, p_targetShare := m\<rparr>)" "target_ok t"
    by blast
  let ?q = "x\<lparr>p_shares := p_shares x + 1, p_target := t, p_targetSince := a, p_targetShare := m\<rparr>"
  have "validateShare cfg s p = None" "p_Conn p \<noteq> None"
    using wf fresh(1) lvl conn by (auto simp: validateShare_def share_validate_eq validateFormat_iff conn_open_def)
  then have "judge_share cfg conv now s p = Ret (ReplyStatus ''OK'', ?q)"
    using fresh(1) fresh(2) [unfolded fresh(1)] x(1) c(1) by (simp add: judge_share_def)
  moreover have "?q\<lparr>p_shares := p_shares p, p_target := p_target p, p_targetSince := p_targetSince p,
      p_targetShare := p_targetShare p\<rparr> = x"
    using x by simp
  moreover have "proxy_ok ?q" using x(2) c(2) by (simp add: proxy_ok_def)
  ultimately show ?thesis using x(1,4) by (intro exI [of _ ?q]) simp
qed

text \<open>
  C7: At validation level 2 or more no share can make a proxy panic. A malformed share for the
  current job is refused and changes nothing; every other share is answered with OK and counted,
  and one for an older job or the proxy's fake first job is not validated and not reported.
\<close>

theorem share_outcome:
  assumes "proxy_ok p" and "conn_open p" and "2 \<le> ShareValidation cfg" and "s_JobID s \<noteq> []"
  shows "\<exists>r q. judge_share cfg conv now s p = Ret (r, q) \<and> proxy_ok q \<and>
    (if s_JobID s = j_ID (p_currentJob p) \<and> \<not> has_prefix fakePrefix (s_JobID s) \<and> \<not> well_formed_share s
     then q = p \<and> (\<exists>e. r = ReplyError e)
     else r = ReplyStatus ''OK'' \<and> p_shares q = p_shares p + 1
       \<and> (if s_JobID s = j_ID (p_currentJob p) \<and> \<not> has_prefix fakePrefix (s_JobID s)
          then pool_submit now s p = Ret (q\<lparr>p_shares := p_shares p, p_target := p_target p,
                 p_targetSince := p_targetSince p, p_targetShare := p_targetShare p\<rparr>)
          else sent q = sent p))"
proof -
  let ?fresh = "s_JobID s = j_ID (p_currentJob p) \<and> \<not> has_prefix fakePrefix (s_JobID s)"
  have tgt: "target_ok (p_target p)" using assms(1) by (simp add: proxy_ok_def)
  have conn: "p_Conn p \<noteq> None" using assms(2) by (auto simp: conn_open_def)
  have keeps: "proxy_ok (x\<lparr>p_shares := n, p_target := t, p_targetSince := a, p_targetShare := m\<rparr>)"
    if "proxy_ok x" "target_ok t" for x n t a m using that by (simp add: proxy_ok_def)
  show ?thesis
  proof (cases ?fresh)
    case False
    obtain t a m where "count_share conv now p =
        Ret (p\<lparr>p_shares := p_shares p + 1, p_target := t, p_targetSince := a, p_targetShare := m\<rparr>)" "target_ok t"
      using count_share_eq [OF tgt] by blast
    with False conn keeps [OF assms(1)] show ?thesis
      by (auto simp: judge_share_def sent_def)
  next
    case True
    then have val: "validateShare cfg s p = validateFormat s"
      using assms(3) by (simp add: validateShare_def share_validate_eq)
    show ?thesis
    proof (cases "well_formed_share s")
      case False
      then obtain e where "validateFormat s = Some e" using validateFormat_iff by blast
      with True False conn val assms(1) show ?thesis by (auto simp: judge_share_def)
    next
      case wf: True
      with counted_share [OF assms(1,2) wf assms(3) _ _ assms(4), of conv now] True show ?thesis by auto
    qed
  qed
qed

theorem share_outcome_witness:
  "\<exists>q. judge_share default_config (\<lambda>_. 0) 7 (demo_share ''job0'' 5 11) demo_proxy = Ret (ReplyStatus ''OK'', q)
     \<and> p_shares q = 1 \<and> sent q = []"
  using share_outcome [OF demo_proxy_simps(1,2), of default_config "demo_share ''job0'' 5 11" "\<lambda>_. 0" 7]
  by (auto simp: demo_proxy_simps default_config_def zero_config_def)

text \<open>
  A miner may submit for any of the last four jobs: once three jobs have followed the current
  one, its id is still taken along with theirs; every other id that does not have the prefix of
  the fake first job is refused.
\<close>

theorem four_jobs_accepted:
  assumes "\<not> p_isClosed p" and "\<not> p_submissions_closed p" and "jid \<noteq> []" and "n \<noteq> []"
  shows "submit_request (map_of [(''job_id'', PJson (JStr jid)), (''nonce'', PJson (JStr n))])
      (adopt_job j3 t3 (adopt_job j2 t2 (adopt_job j1 t1 p)))
    = Ret (if jid \<in> {j_ID j3, j_ID j2, j_ID j1, j_ID (p_currentJob p)} \<or> has_prefix fakePrefix jid
           then Inr \<lparr>s_AuthID = [], s_JobID = jid, s_Nonce = n, s_Result = []\<rparr>
           else Inl ErrBadJobID)"
  using assms by (simp add: submit_request_def adopt_job_def newShare_def opt_string_def)

theorem four_jobs_accepted_witness:
  "submit_request (map_of [(''job_id'', PJson (JStr ''job1'')), (''nonce'', PJson (JStr ''00''))])
      (adopt_job empty_job 3 (adopt_job empty_job 2 (adopt_job empty_job 1 demo_proxy)))
    = Ret (Inr \<lparr>s_AuthID = [], s_JobID = ''job1'', s_Nonce = ''00'', s_Result = []\<rparr>)"
  using four_jobs_accepted [of demo_proxy "''job1''" "''00''" empty_job 3 empty_job 2 empty_job 1]
  by (simp add: demo_proxy_def demo_job_def NewProxy_def)

end
