(* ===== verification/JobStream.thy ===== *)
theory JobStream
  imports Submit
begin

text \<open>
  The stream of the pool as a whole: what a miner gets to see for any sequence of 32-byte fields. The
  specification \<open>field_step\<close> is a state machine on two optional values, the task that waits for its
  seed and the task being mined; \<open>run_fields\<close> is \<open>handleNotification\<close> of \<open>server/proxy/proxy.go\<close>, field
  after field, and implements it.
\<close>

subsection \<open>Specification\<close>

text \<open>
  \<open>own\<close> is the miner's address. A field that is the account's own drops a waiting task; otherwise
  the first field is a task unless it ends in eight zero bytes, and the second its seed; the job is
  handed on unless its first 16 bytes are those of the task being mined.
\<close>

definition field_step :: "string \<Rightarrow> byte list option \<times> byte list option \<Rightarrow> byte list
    \<Rightarrow> (byte list option \<times> byte list option) \<times> (byte list \<times> byte list) list" where
  "field_step own st d =
     (case st of (waiting, mined) \<Rightarrow>
        if Hash2address d = Ret own then ((None, mined), [])
        else case waiting of
          None \<Rightarrow> ((if drop 24 d = replicate 8 0 then None else Some d, mined), [])
        | Some task \<Rightarrow>
            if mined = Some (take 16 task) then ((None, mined), [])
            else ((None, Some (take 16 task)), [(task, d)]))"

fun field_jobs :: "string \<Rightarrow> byte list option \<times> byte list option \<Rightarrow> byte list list \<Rightarrow> (byte list \<times> byte list) list" where
  "field_jobs own st [] = []"
| "field_jobs own st (d # ds) = (case field_step own st d of (st, js) \<Rightarrow> js @ field_jobs own st ds)"

subsection \<open>Implementation\<close>

text \<open>Fields with the clock, the nonce and the job id that each of them finds.\<close>

type_synonym arrival = "int \<times> u64 \<times> string \<times> byte list"

fun run_fields :: "config \<Rightarrow> (f64 \<Rightarrow> u64) \<Rightarrow> u64 \<Rightarrow> arrival list \<Rightarrow> world \<Rightarrow> world go" where
  "run_fields cfg conv i [] w = Ret w"
| "run_fields cfg conv i ((now, nonce, jid, d) # xs) w =
     go_bind (handleNotification cfg conv now nonce jid d i w) (run_fields cfg conv i xs)"

definition field_of :: "arrival \<Rightarrow> byte list" where
  "field_of x = snd (snd (snd x))"

text \<open>A proxy that is alive, with a miner that can be written to.\<close>

definition mining :: "u64 \<Rightarrow> u64 \<Rightarrow> string \<Rightarrow> byte list \<Rightarrow> world \<Rightarrow> bool" where
  "mining i k own hash w \<longleftrightarrow>
     (let p = w_proxies w i; x = w_workers w k in
      proxy_ok p \<and> \<not> p_connMu p \<and> \<not> p_isClosed p \<and> p_worker p = Some k \<and> p_address p = own
      \<and> p_addressHash p = hash \<and> own \<noteq> detectProxy \<and> wk_write_ok x \<and> wk_conn_open x)"

definition stream_state :: "u64 \<Rightarrow> world \<Rightarrow> byte list option \<times> byte list option" where
  "stream_state i w =
     (let p = w_proxies w i in
      (if p_recvCount p = 0 then None else Some (take 32 (p_recvByte p)),
       if p_currentJob p = empty_job then None else Some (take 16 (j_currentBlob (p_currentJob p)))))"

text \<open>What the miner is told of a task, an account and a seed.\<close>

definition job_view :: "job \<Rightarrow> byte list \<times> byte list \<times> string" where
  "job_view j = (take 32 (j_currentBlob j), take 24 (drop 32 (j_currentBlob j)), j_SeedHash j)"

definition jobs_of :: "u64 \<Rightarrow> world \<Rightarrow> job list" where
  "jobs_of k w = wk_jobs (w_workers w k)"

subsection \<open>Refinement\<close>

lemma not_empty_job: "job_wf j \<Longrightarrow> j \<noteq> empty_job"
  by (auto simp: job_wf_def empty_job_def)

lemma complete_job_step:
  assumes m: "mining i k own hash w" and "length d = 32"
  shows "\<exists>v js. complete_job conv now nonce jid d i w = Ret v \<and> mining i k own hash v
    \<and> jobs_of k v = jobs_of k w @ js \<and> p_recvCount (w_proxies v i) = p_recvCount (w_proxies w i)
    \<and> (let t = take 32 (p_recvByte (w_proxies w i)); mined = snd (stream_state i w) in
       if mined = Some (take 16 t) then js = [] \<and> snd (stream_state i v) = mined
       else map job_view js = [(t, hash, hex_encode d)] \<and> snd (stream_state i v) = Some (take 16 t))"
proof -
  let ?p = "w_proxies w i"
  have ok: "proxy_ok ?p" using m by (simp add: mining_def Let_def)
  have t16: "take 16 (take 32 (p_recvByte ?p)) = take 16 (p_recvByte ?p)" by (simp add: min_def)
  show ?thesis
  proof (cases "p_currentJob ?p = empty_job \<or> take 16 (j_currentBlob (p_currentJob ?p)) \<noteq> take 16 (p_recvByte ?p)")
    case True
    obtain t s m' j where
      cj: "complete_job conv now nonce jid d i w = Ret (upd_worker k (\<lambda>x. x\<lparr>wk_jobs := wk_jobs x @ [j]\<rparr>)
        (upd_proxy i (\<lambda>p. adopt_job j now (p\<lparr>p_recvByte := take 32 (p_recvByte p) @ d,
           p_target := t, p_targetSince := s, p_targetShare := m'\<rparr>)) w))"
      and j: "target_ok t" "job_wf j" "j_SeedHash j = hex_encode d"
        "j_currentBlob j = take 32 (p_recvByte ?p) @ p_addressHash ?p @ be_put 8 nonce"
      using complete_job_new [OF ok assms(2) _ _ _ _ _ True, of k conv now nonce jid] m
      by (auto simp: mining_def Let_def)
    let ?v = "upd_worker k (\<lambda>x. x\<lparr>wk_jobs := wk_jobs x @ [j]\<rparr>)
        (upd_proxy i (\<lambda>p. adopt_job j now (p\<lparr>p_recvByte := take 32 (p_recvByte p) @ d,
           p_target := t, p_targetSince := s, p_targetShare := m'\<rparr>)) w)"
    have "mining i k own hash ?v"
      using m j(1,2) assms(2) by (auto simp: mining_def Let_def proxy_ok_def adopt_job_def)
    moreover have "map job_view [j] = [(take 32 (p_recvByte ?p), hash, hex_encode d)]"
      using j(3,4) m by (auto simp: job_view_def mining_def Let_def proxy_ok_def)
    moreover have "snd (stream_state i ?v) = Some (take 16 (p_recvByte ?p))"
      using j(2,4) ok not_empty_job by (simp add: stream_state_def Let_def proxy_ok_def)
    moreover have "snd (stream_state i w) \<noteq> Some (take 16 (p_recvByte ?p))"
      using True by (auto simp: stream_state_def Let_def)
    ultimately show ?thesis
      using cj by (intro exI [of _ ?v] exI [of _ "[j]"]) (simp add: jobs_of_def Let_def t16)
  next
    case False
    obtain t s m' where
      cj: "complete_job conv now nonce jid d i w = Ret (upd_proxy i (\<lambda>_. ?p\<lparr>p_recvByte := take 32 (p_recvByte ?p) @ d,
         p_target := t, p_targetSince := s, p_targetShare := m'\<rparr>) w)" and "target_ok t"
      using complete_job_eq [OF ok assms(2), of conv now nonce jid] unfolding Let_def if_not_P [OF False] by blast
    let ?v = "upd_proxy i (\<lambda>_. ?p\<lparr>p_recvByte := take 32 (p_recvByte ?p) @ d,
         p_target := t, p_targetSince := s, p_targetShare := m'\<rparr>) w"
    have "mining i k own hash ?v"
      using m \<open>target_ok t\<close> assms(2) by (auto simp: mining_def Let_def proxy_ok_def)
    moreover have "snd (stream_state i w) = Some (take 16 (p_recvByte ?p))" "snd (stream_state i ?v) = snd (stream_state i w)"
      using False by (auto simp: stream_state_def Let_def)
    ultimately show ?thesis
      using cj by (intro exI [of _ ?v] exI [of _ "[]"]) (simp add: jobs_of_def Let_def t16)
  qed
qed

lemma mining_buffer:
  assumes "mining i k own hash w" and "proxy_ok (f (w_proxies w i))"
    and eq: "f (w_proxies w i) = (w_proxies w i)\<lparr>p_fieldIn := p_fieldIn (f (w_proxies w i)),
      p_recvCount := p_recvCount (f (w_proxies w i)), p_recvByte := p_recvByte (f (w_proxies w i))\<rparr>"
  shows "mining i k own hash (upd_proxy i f w)"
proof -
  let ?p = "w_proxies w i"
  have "p_connMu (f ?p) = p_connMu ?p" "p_isClosed (f ?p) = p_isClosed ?p" "p_worker (f ?p) = p_worker ?p"
    "p_address (f ?p) = p_address ?p" "p_addressHash (f ?p) = p_addressHash ?p"
    by (subst eq, simp)+
  then show ?thesis using assms(1,2) by (simp add: mining_def Let_def)
qed

text \<open>After the field \<open>d\<close> the world is \<open>v\<close>, and the jobs \<open>js\<close> are new.\<close>

definition implements :: "u64 \<Rightarrow> u64 \<Rightarrow> string \<Rightarrow> byte list \<Rightarrow> byte list \<Rightarrow> world \<Rightarrow> world \<Rightarrow> job list \<Rightarrow> bool" where
  "implements i k own hash d w v js \<longleftrightarrow> mining i k own hash v \<and> jobs_of k v = jobs_of k w @ js
    \<and> stream_state i v = fst (field_step own (stream_state i w) d)
    \<and> map job_view js = map (\<lambda>(t, s). (t, hash, hex_encode s)) (snd (field_step own (stream_state i w) d))"

lemma own_field:
  assumes m: "mining i k own hash w" and len: "length d = 32" and own: "Hash2address d = Ret own"
  shows "\<exists>v js. handleNotification cfg conv now nonce jid d i w = Ret v \<and> implements i k own hash d w v js"
proof -
  let ?v = "upd_proxy i (\<lambda>p. p\<lparr>p_fieldIn := p_fieldIn p + 1, p_recvCount := 0\<rparr>) w"
  have p: "proxy_ok (w_proxies w i)" "p_address (w_proxies w i) = own" using m by (simp_all add: mining_def Let_def)
  have "handleNotification cfg conv now nonce jid d i w = Ret ?v"
    using own p(2) by (simp add: handleNotification_def Let_def go_copy_field [OF len])
  moreover have "mining i k own hash ?v" using p(1) by (intro mining_buffer [OF m]) (simp_all add: proxy_ok_def)
  moreover have "stream_state i ?v = (None, snd (stream_state i w))" by (simp add: stream_state_def Let_def)
  ultimately show ?thesis
    using own by (intro exI [of _ ?v] exI [of _ "[]"])
      (simp add: implements_def field_step_def jobs_of_def split: prod.split)
qed

lemma task_field:
  assumes m: "mining i k own hash w" and len: "length d = 32"
    and other: "Hash2address d \<noteq> Ret own" and first: "p_recvCount (w_proxies w i) = 0"
  shows "\<exists>v js. handleNotification cfg conv now nonce jid d i w = Ret v \<and> implements i k own hash d w v js"
proof -
  let ?f = "\<lambda>p. if (be_get (drop 24 d) :: u64) = 0 then p\<lparr>p_fieldIn := p_fieldIn p + 1\<rparr>
    else p\<lparr>p_fieldIn := p_fieldIn p + 1, p_recvCount := 1, p_recvByte := d @ drop 32 (p_recvByte p)\<rparr>"
  have p: "proxy_ok (w_proxies w i)" "p_address (w_proxies w i) = own" using m by (simp_all add: mining_def Let_def)
  then have recv: "length (p_recvByte (w_proxies w i)) = 64" by (simp add: proxy_ok_def)
  have "handleNotification cfg conv now nonce jid d i w = Ret (upd_proxy i ?f w)"
    using notify_first [OF len _ first recv] other p(2) by simp
  moreover have "mining i k own hash (upd_proxy i ?f w)"
    using p(1) len by (intro mining_buffer [OF m]) (simp_all add: proxy_ok_def)
  moreover have "stream_state i w = (None, snd (stream_state i w))" using first by (simp add: stream_state_def Let_def)
  moreover have "stream_state i (upd_proxy i ?f w)
      = (if drop 24 d = replicate 8 0 then None else Some d, snd (stream_state i w))"
    using first len be_get_zero_iff [of "drop 24 d"] by (simp add: stream_state_def Let_def)
  ultimately show ?thesis
    using other by (intro exI [of _ "upd_proxy i ?f w"] exI [of _ "[]"])
      (auto simp: implements_def field_step_def jobs_of_def split: prod.split)
qed

lemma seed_field:
  assumes m: "mining i k own hash w" and len: "length d = 32"
    and other: "Hash2address d \<noteq> Ret own" and second: "p_recvCount (w_proxies w i) = 1"
  shows "\<exists>v js. handleNotification cfg conv now nonce jid d i w = Ret v \<and> implements i k own hash d w v js"
proof -
  let ?p = "w_proxies w i"
  let ?w = "upd_proxy i (\<lambda>p. p\<lparr>p_fieldIn := p_fieldIn p + 1, p_recvCount := 0\<rparr>) w"
  let ?t = "take 32 (p_recvByte ?p)" and ?mined = "snd (stream_state i w)"
  have p: "proxy_ok ?p" "p_address ?p = own" "own \<noteq> detectProxy" using m by (simp_all add: mining_def Let_def)
  have h: "handleNotification cfg conv now nonce jid d i w = complete_job conv now nonce jid d i ?w"
    by (rule notify_second [OF len _ second]) (use other p in simp_all)
  have mw: "mining i k own hash ?w" using p(1) by (intro mining_buffer [OF m]) (simp_all add: proxy_ok_def)
  have st: "stream_state i w = (Some ?t, ?mined)" "snd (stream_state i ?w) = ?mined" "jobs_of k ?w = jobs_of k w"
    using second by (simp_all add: stream_state_def jobs_of_def Let_def)
  obtain v js where v: "complete_job conv now nonce jid d i ?w = Ret v" "mining i k own hash v"
      "jobs_of k v = jobs_of k w @ js" "p_recvCount (w_proxies v i) = 0"
    and js: "if ?mined = Some (take 16 ?t) then js = [] \<and> snd (stream_state i v) = ?mined
     else map job_view js = [(?t, hash, hex_encode d)] \<and> snd (stream_state i v) = Some (take 16 ?t)"
    using complete_job_step [OF mw len, of conv now nonce jid] st(2,3) by (auto simp: Let_def)
  have sv: "stream_state i v = (None, snd (stream_state i v))" using v(4) by (simp add: stream_state_def Let_def)
  have fs: "field_step own (stream_state i w) d =
      (if ?mined = Some (take 16 ?t) then ((None, ?mined), []) else ((None, Some (take 16 ?t)), [(?t, d)]))"
    using other by (subst st(1)) (simp add: field_step_def)
  have "stream_state i v = fst (field_step own (stream_state i w) d)"
    unfolding fs using js by (subst sv) (simp split: if_splits)
  moreover have "map job_view js = map (\<lambda>(t, s). (t, hash, hex_encode s)) (snd (field_step own (stream_state i w) d))"
    unfolding fs using js by (simp split: if_splits)
  ultimately show ?thesis
    using h v(1-3) by (intro exI [of _ v] exI [of _ js]) (simp add: implements_def)
qed

lemma field_step_refines:
  assumes "mining i k own hash w" and "length d = 32"
  shows "\<exists>v js. handleNotification cfg conv now nonce jid d i w = Ret v \<and> implements i k own hash d w v js"
proof -
  have "p_recvCount (w_proxies w i) = 0 \<or> p_recvCount (w_proxies w i) = 1"
    using assms(1) by (auto simp: mining_def Let_def proxy_ok_def)
  then show ?thesis using own_field [OF assms] task_field [OF assms] seed_field [OF assms] by metis
qed

lemma run_fields_refines:
  "mining i k own hash w \<Longrightarrow> \<forall>x \<in> set xs. length (field_of x) = 32 \<Longrightarrow>
   \<exists>v js. run_fields cfg conv i xs w = Ret v \<and> mining i k own hash v \<and> jobs_of k v = jobs_of k w @ js
     \<and> map job_view js = map (\<lambda>(t, s). (t, hash, hex_encode s)) (field_jobs own (stream_state i w) (map field_of xs))"
proof (induction xs arbitrary: w)
  case (Cons x xs)
  obtain now nonce jid d where x: "x = (now, nonce, jid, d)" by (cases x)
  then have fx: "field_of x = d" by (simp add: field_of_def)
  then have len: "length d = 32" using Cons.prems(2) by simp
  obtain u us where u: "handleNotification cfg conv now nonce jid d i w = Ret u" "mining i k own hash u"
      "jobs_of k u = jobs_of k w @ us" "stream_state i u = fst (field_step own (stream_state i w) d)"
      "map job_view us = map (\<lambda>(t, s). (t, hash, hex_encode s)) (snd (field_step own (stream_state i w) d))"
    using field_step_refines [OF Cons.prems(1) len] unfolding implements_def by blast
  obtain v vs where v: "run_fields cfg conv i xs u = Ret v" "mining i k own hash v" "jobs_of k v = jobs_of k u @ vs"
      "map job_view vs = map (\<lambda>(t, s). (t, hash, hex_encode s)) (field_jobs own (stream_state i u) (map field_of xs))"
    using Cons.IH [OF u(2)] Cons.prems(2) by auto
  show ?case
    using u v x fx by (intro exI [of _ v] exI [of _ "us @ vs"]) (simp split: prod.split)
qed simp

subsection \<open>Property\<close>

text \<open>
  C1: For every sequence of fields from the pool, the jobs a miner receives are those of the
  specification, in order: task, account and seed of each. Nothing is lost, repeated or mixed up,
  whatever the clock, the nonces, the job ids and the targets are, and the proxy stays alive.
\<close>

theorem job_stream_refines:
  assumes "mining i k own hash w" and "\<forall>x \<in> set xs. length (field_of x) = 32"
  shows "\<exists>v js. run_fields cfg conv i xs w = Ret v \<and> mining i k own hash v \<and> jobs_of k v = jobs_of k w @ js
    \<and> map job_view js = map (\<lambda>(t, s). (t, hash, hex_encode s)) (field_jobs own (stream_state i w) (map field_of xs))"
  using run_fields_refines [OF assms] .

theorem job_stream_refines_witness:
  "\<exists>v js. run_fields default_config (\<lambda>_. 0) 1
       [(0, 7, ''a'', replicate 32 1), (1, 8, ''b'', replicate 32 2), (2, 9, ''c'', replicate 32 1), (3, 10, ''d'', replicate 32 3)]
       demo_session = Ret v
     \<and> jobs_of 1 v = js \<and> map job_view js = [(replicate 32 1, replicate 24 0, hex_encode (replicate 32 2))]"
proof -
  let ?xs = "[(0, 7, ''a'', replicate 32 1), (1, 8, ''b'', replicate 32 2), (2, 9, ''c'', replicate 32 1),
     (3, 10, ''d'', replicate 32 3)] :: arrival list"
  have m: "mining 1 1 [] (replicate 24 0) demo_session"
    using demo_session_ok demo_session_fields by (simp add: mining_def Let_def NewProxy_def detectProxy_def)
  have st: "stream_state 1 demo_session = (None, None)"
    by (simp add: stream_state_def Let_def demo_session_fields NewProxy_def)
  have ne: "Hash2address (replicate 32 b) \<noteq> Ret []" for b by (rule address_not_empty) simp
  have "field_jobs [] (None, None) (map field_of ?xs) = [(replicate 32 1, replicate 32 2)]"
    using ne by (simp add: field_of_def field_step_def)
  moreover have "\<forall>x \<in> set ?xs. length (field_of x) = 32" by (simp add: field_of_def)
  moreover have "jobs_of 1 demo_session = []" by (simp add: jobs_of_def demo_session_fields)
  ultimately show ?thesis
    using job_stream_refines [OF m, of ?xs default_config "\<lambda>_. 0"] st by auto
qed

end
