(* ===== verification/Session.thy ===== *)
theory Session
  imports Submit
begin

text \<open>
  A miner's session: \<open>SpawnWorker\<close> (\<open>server/tcp/worker.go\<close>), the accept loop
  (\<open>server/tcp/server.go\<close>) and the RPC service \<open>Mining\<close> (\<open>server/proxy/mining.go\<close>) on top of the
  proxy, with what becomes of the pool connection (\<open>connect\<close>, \<open>Run\<close>) and of the pool-down flag.

  The parameters of a request are a map that holds the context under the key \<open>ctx\<close>; the worker in
  that context is the argument \<open>k\<close>. A call on the nil proxy pointer of a worker panics as soon as
  it touches the object.
\<close>

subsection \<open>Requests\<close>

text \<open>\<open>SetContext\<close>, and \<open>ReadRequestBody\<close> of \<open>stratum/codec.go\<close> for a \<open>PassThruParams\<close>: the
  context is put into the map first, then the members of the request's params are added to it.\<close>

definition SetContext :: "params \<Rightarrow> params" where
  "SetContext ps = ps(''ctx'' \<mapsto> PCtx)"

definition add_members :: "(string \<times> json) list \<Rightarrow> params \<Rightarrow> params" where
  "add_members kvs ps = foldl (\<lambda>ps (k, v). ps(k \<mapsto> PJson v)) ps kvs"

text \<open>\<open>None\<close> is the error for params that are no object.\<close>

definition ReadParams :: "json option \<Rightarrow> params option" where
  "ReadParams raw =
     (let ps = SetContext Map.empty in
      case raw of
        None \<Rightarrow> Some ps
      | Some (JObj kvs) \<Rightarrow> Some (add_members kvs ps)
      | Some JNull \<Rightarrow> Some Map.empty
      | Some _ \<Rightarrow> None)"

definition params_context :: "params \<Rightarrow> unit option go" where
  "params_context ps =
     (case ps ''ctx'' of
        None \<Rightarrow> Ret None
      | Some PCtx \<Rightarrow> Ret (Some ())
      | Some (PJson _) \<Rightarrow> Panic)"

definition getWorker :: "u64 \<Rightarrow> params \<Rightarrow> u64 go" where
  "getWorker k ps = go_bind (params_context ps) (\<lambda>c. case c of None \<Rightarrow> Panic | Some _ \<Rightarrow> Ret k)"

record login_reply =
  lr_ID :: string
  lr_Job :: "job option"
  lr_Status :: string
  lr_Error :: "(int \<times> string) option"

definition login_error :: "string \<Rightarrow> string \<Rightarrow> login_reply" where
  "login_error wid msg = \<lparr>lr_ID = wid, lr_Job = None, lr_Status = [], lr_Error = Some (-1, msg)\<rparr>"

definition worker_id_str :: "u64 \<Rightarrow> world \<Rightarrow> string" where
  "worker_id_str k w = itoa (sint (wk_id (w_workers w k)))"

text \<open>\<open>worker.Proxy().SetAddress(a)\<close>: on the nil pointer an invalid address is still an error.\<close>

definition set_worker_address :: "u64 \<Rightarrow> string \<Rightarrow> world \<Rightarrow> (proxy_error option \<times> world) go" where
  "set_worker_address k a w =
     (case wk_p (w_workers w k) of
        Some i \<Rightarrow>
          (case SetAddress a (w_proxies w i) of (err, p) \<Rightarrow> Ret (err, upd_proxy i (\<lambda>_. p) w))
      | None \<Rightarrow>
          (case fst (SetAddress a (NewProxy 0 0 [])) of Some err \<Rightarrow> Ret (Some err, w) | None \<Rightarrow> Panic))"

text \<open>
  \<open>Login\<close>: the reply, the error returned to the RPC package, and the name with which \<open>Run\<close> is
  started; \<open>fake\<close> is the job that \<open>createFakeJob\<close> makes.
\<close>

definition Login :: "job \<Rightarrow> u64 \<Rightarrow> params \<Rightarrow> world
    \<Rightarrow> (login_reply \<times> string option \<times> string option \<times> world) go" where
  "Login fake k ps w =
     go_bind (getWorker k ps) (\<lambda>k.
       if 0 < w_poolIsDown w then
         go_bind (worker_RemoveProxy k w) (\<lambda>v.
           Ret (login_error (worker_id_str k w) ''*** pool is down, please switch to other pool.'',
                Some ''Invalid job id *** Pool is down: Please switch to other pool'', None, v))
       else
         go_bind
           (case ps ''login'' of
              Some a \<Rightarrow> go_bind (as_string a) (\<lambda>a. set_worker_address k a w)
            | None \<Rightarrow> Ret (Some (ErrText ''no login param''), w)) (\<lambda>(err, w).
         case err of
           Some e \<Rightarrow>
             go_bind (worker_RemoveProxy k w) (\<lambda>v.
               Ret (login_error (worker_id_str k w) (error_text (\<lambda>_. []) e),
                    Some (error_text (\<lambda>_. []) e), None, v))
         | None \<Rightarrow>
             go_bind (opt_string ps ''pass'') (\<lambda>name.
               let minerName = (if name = ''x'' then [] else name) in
               if wk_p (w_workers w k) = None then Panic
               else Ret (\<lparr>lr_ID = worker_id_str k w, lr_Job = Some fake, lr_Status = ''OK'', lr_Error = None\<rparr>,
                         None, Some minerName, w))))"

definition Getjob :: "u64 \<Rightarrow> params \<Rightarrow> world \<Rightarrow> (job \<times> world) go" where
  "Getjob k ps w =
     go_bind (getWorker k ps) (\<lambda>k.
       case wk_p (w_workers w k) of
         None \<Rightarrow> Panic
       | Some i \<Rightarrow> (case NextJob (w_proxies w i) of (j, p) \<Rightarrow> Ret (j, upd_proxy i (\<lambda>_. p) w)))"

text \<open>\<open>Mining.Submit\<close> up to the send: \<open>Inr\<close> is the share that waits for the proxy's goroutine.\<close>

definition Mining_Submit :: "u64 \<Rightarrow> params \<Rightarrow> world \<Rightarrow> (proxy_error + share) go" where
  "Mining_Submit k ps w =
     go_bind (getWorker k ps) (\<lambda>k.
       case wk_p (w_workers w k) of
         None \<Rightarrow> Panic
       | Some i \<Rightarrow>
           if p_connMu (w_proxies w i) then Deadlock else submit_request ps (w_proxies w i))"

definition Keepalived :: string where
  "Keepalived = ''KEEPALIVED''"

subsection \<open>Accepting miners\<close>

definition SpawnWorker :: "int \<Rightarrow> string \<Rightarrow> world \<Rightarrow> u64 \<times> world" where
  "SpawnWorker now prev w =
     (case NextProxy now prev w of (i, w) \<Rightarrow>
        let w = upd_worker i (\<lambda>_. \<lparr>wk_id = 0, wk_conn_open = True, wk_p = None, wk_write_ok = True, wk_jobs = []\<rparr>) w
        in (i, proxy_Add i i w))"

text \<open>The end of \<open>SpawnWorker\<close>, when \<open>ServeCodec\<close> returns.\<close>

definition SpawnWorker_end :: "u64 \<Rightarrow> world \<Rightarrow> world go" where
  "SpawnWorker_end k w = worker_Disconnect k w"

text \<open>\<open>StartServer\<close> up to the loop: the address it listens on, or the end of the process.\<close>

definition start_listening :: "config \<Rightarrow> bool \<Rightarrow> bool \<Rightarrow> string go" where
  "start_listening cfg cert_ok listen_ok =
     (let portStr = CHR '':'' # itoa (StratumPort cfg) in
      if Tls cfg \<and> \<not> cert_ok then Exit else if \<not> listen_ok then Exit else Ret portStr)"

text \<open>One turn of the accept loop: a failed \<open>Accept\<close> is logged and its nil connection used.\<close>

definition accept_step :: "bool \<Rightarrow> int \<Rightarrow> string \<Rightarrow> world \<Rightarrow> (u64 \<times> world) go" where
  "accept_step accept_ok now prev w =
     (if accept_ok then Ret (SpawnWorker now prev w) else Panic)"

definition expectedHashes :: u32 where "expectedHashes = 0x7a120"

subsection \<open>Lemmas\<close>

lemma ReadParams_context: "ReadParams None = Some ps \<Longrightarrow> getWorker k ps = Ret k"
  by (auto simp: ReadParams_def SetContext_def Let_def getWorker_def params_context_def)

lemma add_members_other: "x \<notin> fst ` set kvs \<Longrightarrow> add_members kvs ps x = ps x"
  by (induction kvs arbitrary: ps) (auto simp: add_members_def)

lemma add_members_hit:
  "x \<in> fst ` set kvs \<Longrightarrow> \<exists>v. add_members kvs ps x = Some (PJson v)"
proof (induction kvs arbitrary: ps rule: rev_induct)
  case (snoc m kvs)
  then show ?case by (cases m) (auto simp: add_members_def)
qed simp

lemma getWorker_object:
  assumes "ReadParams (Some (JObj kvs)) = Some ps"
  shows "getWorker k ps = (if ''ctx'' \<in> fst ` set kvs then Panic else Ret k)"
proof (cases "''ctx'' \<in> fst ` set kvs")
  case True
  from add_members_hit [OF this] obtain v where "ps ''ctx'' = Some (PJson v)"
    using assms by (auto simp: ReadParams_def Let_def)
  with True show ?thesis by (simp add: getWorker_def params_context_def)
next
  case False
  from add_members_other [OF this] have "ps ''ctx'' = Some PCtx"
    using assms by (auto simp: ReadParams_def Let_def SetContext_def)
  with False show ?thesis by (simp add: getWorker_def params_context_def)
qed

lemma SetAddress_keeps:
  "SetAddress a p = (err, q) \<Longrightarrow>
   p_ID q = p_ID p \<and> p_connMu q = p_connMu p \<and> p_isClosed q = p_isClosed p \<and> p_director q = p_director p
   \<and> p_submissions_closed q = p_submissions_closed p \<and> p_notify_closed q = p_notify_closed p
   \<and> p_done_closed q = p_done_closed p \<and> p_Conn q = p_Conn p \<and> p_shares q = p_shares p
   \<and> length (p_addressHash q) = length (p_addressHash p)"
  by (auto simp: SetAddress_def split: sum.splits if_splits)

lemma SetAddress_ok:
  "SetAddress a p = (None, q) \<Longrightarrow>
   \<exists>payload v. length payload = 19 \<and> a = CheckEncode payload v \<and>
     (length (p_addressHash p) = 24 \<longrightarrow> p_addressHash q = v # payload @ checksum (v # payload)) \<and> p_address q = a"
proof -
  assume "SetAddress a p = (None, q)"
  then obtain h v where h: "ChkDec a = Inr (h, v)" "length h = 24"
      "q = p\<lparr>p_addressHash := go_copy (p_addressHash p) h, p_address := a\<rparr>"
    by (auto simp: SetAddress_def fromBase85_def split: sum.splits if_splits)
  then obtain payload where p: "h = v # payload @ checksum (v # payload)" "a = CheckEncode payload v"
    using ChkDec_sound by blast
  with h have "length payload = 19" by simp
  with h p show ?thesis by (auto simp: go_copy_exact)
qed

lemma SetAddress_iff:
  assumes "length (p_addressHash p) = 24"
  shows "fst (SetAddress a p) = None \<longleftrightarrow> (\<exists>payload v. length payload = 19 \<and> a = CheckEncode payload v)"
proof
  assume "fst (SetAddress a p) = None"
  then have "SetAddress a p = (None, snd (SetAddress a p))" by (simp add: prod_eq_iff)
  from SetAddress_ok [OF this] show "\<exists>payload v. length payload = 19 \<and> a = CheckEncode payload v" by blast
qed (auto simp: SetAddress_def fromBase85_def ChkDec_CheckEncode)

text \<open>The underscore is no base58 digit, so the name of the detecting proxy is no address.\<close>

lemma detectProxy_no_address: "detectProxy \<noteq> CheckEncode payload v"
proof
  assume "detectProxy = CheckEncode payload v"
  moreover have "b58_decode (CheckEncode payload v) \<noteq> []" by (simp add: decode_CheckEncode)
  ultimately have "b58_decode detectProxy \<noteq> []" by metis
  then have "valid58 detectProxy" by (rule decode_nonempty_valid)
  moreover have "CHR ''_'' \<in> set detectProxy" by (simp add: detectProxy_def)
  moreover have "CHR ''_'' \<notin> set alphabet" by (simp add: alphabet_def)
  ultimately show False by (auto simp: valid58_def list_all_iff)
qed

lemma SetAddress_not_detect: "SetAddress a p = (None, q) \<Longrightarrow> p_address q \<noteq> detectProxy"
  using SetAddress_ok [of a p q] detectProxy_no_address by metis

lemma connect_fails:
  assumes "\<not> p_connMu (w_proxies w i)" and "\<forall>d. dial d \<noteq> None"
  shows "\<exists>e. connect cfg dial name i w = Ret (Some e, w)"
proof -
  let ?d = "if 11 < length (Socks5 cfg) then ViaSocks5 (Socks5 cfg) (PoolAddr cfg) else DialDirect (PoolAddr cfg)"
  obtain e where "dial ?d = Some e" using assms(2) by blast
  with assms(1) show ?thesis by (simp add: connect_def locked_val_def unlock_lock)
qed

text \<open>The connection on which \<open>connect\<close> has logged in.\<close>

definition pool_conn :: "string \<Rightarrow> proxy \<Rightarrow> connection" where
  "pool_conn name p = (Start (NewConnection (p_ID p)))\<lparr>c_msgs := (le_put 4 (24 :: u32) @ p_addressHash p)
     # (if name = [] then [] else [le_put 4 (32 :: u32) @ le_put 4 WORKERNAME_HEADER_WORD @ name_field name])\<rparr>"

lemma pool_conn_simps [simp]:
  "conn_inv (pool_conn name p)" "\<not> c_isClosed (pool_conn name p)" "\<not> c_msgs_closed (pool_conn name p)"
  by (simp_all add: pool_conn_def Start_def NewConnection_def conn_inv_def)

lemma connect_eq:
  assumes "\<not> p_connMu (w_proxies w i)" and "\<not> p_isClosed (w_proxies w i)"
    and "length (p_addressHash (w_proxies w i)) = 24" and "\<forall>d. dial d = None"
  shows "connect cfg dial name i w = Ret (None, upd_proxy i (\<lambda>p. p\<lparr>p_Conn := Some (pool_conn name (w_proxies w i)),
    p_fieldOut := p_fieldOut p + (if name = [] then 16 else 17)\<rparr>) w)"
proof -
  let ?p = "(w_proxies w i)\<lparr>p_connMu := True\<rparr>"
  let ?f = "\<lambda>p. p\<lparr>p_Conn := Some (pool_conn name (w_proxies w i)),
    p_fieldOut := p_fieldOut p + (if name = [] then 16 else 17)\<rparr>"
  have "log_in name ?p = Ret (?f ?p)" using log_in_eq [of ?p name] assms(3) by (simp add: pool_conn_def)
  then have "connect cfg dial name i w = Ret (None, upd_proxy i (\<lambda>p. (?f ?p)\<lparr>p_connMu := False\<rparr>) w)"
    using assms by (simp add: connect_def locked_val_def)
  also have "upd_proxy i (\<lambda>p. (?f ?p)\<lparr>p_connMu := False\<rparr>) w = upd_proxy i ?f w"
    by (rule upd_proxy_cong) (use assms(1) in simp)
  finally show ?thesis .
qed

lemma connect_cases:
  assumes "\<not> p_connMu (w_proxies w i)" and "length (p_addressHash (w_proxies w i)) = 24"
  shows "(\<exists>e. connect cfg dial name i w = Ret (Some e, w))
    \<or> (\<exists>v. connect cfg dial name i w = Ret (None, v) \<and> conn_open (w_proxies v i) \<and> \<not> p_isClosed (w_proxies v i))"
proof -
  let ?d = "if 11 < length (Socks5 cfg) then ViaSocks5 (Socks5 cfg) (PoolAddr cfg) else DialDirect (PoolAddr cfg)"
  consider "p_isClosed (w_proxies w i)" | e where "\<not> p_isClosed (w_proxies w i)" "dial ?d = Some e"
    | "\<not> p_isClosed (w_proxies w i)" "dial ?d = None" by blast
  then show ?thesis
  proof cases
    case 3
    have "connect cfg dial name i w = connect cfg (\<lambda>_. None) name i w"
      by (simp only: connect_def 3(2) option.case)
    with connect_eq [OF assms(1) 3(1) assms(2), of "\<lambda>_. None" cfg name] show ?thesis
      by (simp add: conn_open_def pool_conn_def Start_def NewConnection_def 3(1))
  qed (use assms(1) in \<open>simp_all add: connect_def locked_val_def unlock_lock\<close>)
qed

text \<open>How the connecting loop may end.\<close>

fun over_well :: "config \<Rightarrow> u64 \<Rightarrow> run_result \<Rightarrow> bool" where
  "over_well cfg i (Connected v) \<longleftrightarrow> conn_open (w_proxies v i) \<and> \<not> p_isClosed (w_proxies v i)"
| "over_well cfg i (Retrying v) \<longleftrightarrow> False"
| "over_well cfg i (Stopped (Ret v)) \<longleftrightarrow> p_isClosed (w_proxies v i)"
| "over_well cfg i (Stopped Exit) \<longleftrightarrow> ExitOnPoolDown cfg"
| "over_well cfg i (Stopped _) \<longleftrightarrow> False"

lemma shutdown_over:
  assumes "session_ok w i" "0 < i"
  shows "over_well cfg i (Stopped (shutdown cfg 2 i w))" "over_well cfg i (Stopped (shutdown cfg (-1) i w))"
  using shutdown_open [OF assms, of cfg] closed_noop(3) [OF assms(1)]
  by (cases "p_isClosed (w_proxies w i)"; simp add: ended_def)+

lemma run_connect_over:
  "nat (retry_times cfg - n) < length obs \<Longrightarrow> n \<le> retry_times cfg \<Longrightarrow> session_ok w i \<Longrightarrow> 0 < i \<Longrightarrow>
   length (p_addressHash (w_proxies w i)) = 24 \<Longrightarrow>
   \<exists>r. run_connect cfg name i n obs w = Ret r \<and> over_well cfg i r"
proof (induction obs arbitrary: n w)
  case (Cons x obs)
  obtain down dial where x: "x = (down, dial)" by (cases x)
  let ?w = "w\<lparr>w_poolIsDown := down\<rparr>"
  have ok: "session_ok ?w i" using Cons.prems(3) session_ok_cong [of ?w i w] by simp
  then have mu: "\<not> p_connMu (w_proxies ?w i)" by (simp add: session_ok_def Let_def)
  have len: "length (p_addressHash (w_proxies ?w i)) = 24" using Cons.prems(5) by simp
  note over = shutdown_over [OF ok Cons.prems(4), of cfg]
  show ?case
  proof (cases "0 < down \<and> name \<noteq> detectProxy")
    case True
    with over show ?thesis by (simp add: x Let_def)
  next
    case False
    consider e where "connect cfg dial name i ?w = Ret (Some e, ?w)"
      | v where "connect cfg dial name i ?w = Ret (None, v)" "conn_open (w_proxies v i)" "\<not> p_isClosed (w_proxies v i)"
      using connect_cases [OF mu len, of cfg dial name] by blast
    then show ?thesis
    proof cases
      case (1 e)
      show ?thesis
      proof (cases "retry_times cfg < n + 1")
        case True
        with False 1 over show ?thesis by (auto simp: x Let_def)
      next
        case more: False
        with Cons.prems have "nat (retry_times cfg - (n + 1)) < length obs" "n + 1 \<le> retry_times cfg" by simp_all
        from Cons.IH [OF this ok Cons.prems(4) len] more False 1 show ?thesis by (auto simp: x Let_def)
      qed
    next
      case (2 v)
      with False show ?thesis by (auto simp: x Let_def)
    qed
  qed
qed simp

lemma retry_times_pos: "0 < retry_times cfg"
  by (simp add: retry_times_def)

lemma run_connect_fails:
  assumes "\<forall>(down, dial) \<in> set obs. down = 0 \<and> (\<forall>d. dial d \<noteq> None)"
    and "\<not> p_connMu (w_proxies w i)" and "name \<noteq> detectProxy" and "w_poolIsDown w = 0"
    and "n \<le> retry_times cfg" and "length obs \<le> nat (retry_times cfg - n) + 1"
  shows "run_connect cfg name i n obs w = Ret
    (if length obs = nat (retry_times cfg - n) + 1 then Stopped (shutdown cfg 2 i w) else Retrying w)"
  using assms(1,5,6)
proof (induction obs arbitrary: n)
  case (Cons x obs)
  obtain dial where x: "x = (0, dial)" "\<forall>d. dial d \<noteq> None" using Cons.prems(1) by (cases x) auto
  obtain e where e: "connect cfg dial name i w = Ret (Some e, w)" using connect_fails [OF assms(2) x(2)] by blast
  have w: "w\<lparr>w_poolIsDown := 0\<rparr> = w" using assms(4) by simp
  show ?case
  proof (cases "retry_times cfg < n + 1")
    case True
    with Cons.prems have "length (x # obs) = nat (retry_times cfg - n) + 1" by simp
    with True e w assms(3) x(1) show ?thesis by (simp add: Let_def)
  next
    case False
    then have "nat (retry_times cfg - n) = Suc (nat (retry_times cfg - (n + 1)))" by simp
    with False Cons.prems have "run_connect cfg name i (n + 1) obs w = Ret
        (if length (x # obs) = nat (retry_times cfg - n) + 1 then Stopped (shutdown cfg 2 i w) else Retrying w)"
      by (subst Cons.IH) simp_all
    with False e w x(1) show ?thesis by (simp add: Let_def)
  qed
qed simp

subsection \<open>Properties: the pool connection\<close>

text \<open>
  C35: A successful login to the pool sends the account's 24-byte hash with its length in front and,
  when the miner has a name, the name in a field of its own (cut to 28 bytes, or filled up with
  zeros): nothing else, in this order, on a new connection. Nothing else of the proxy changes.
\<close>

theorem connect_logs_in:
  assumes "\<not> p_connMu (w_proxies w i)" and "\<not> p_isClosed (w_proxies w i)"
    and "length (p_addressHash (w_proxies w i)) = 24" and "\<forall>d. dial d = None"
  shows "\<exists>v c. connect cfg dial name i w = Ret (None, v)
    \<and> sent (w_proxies v i) = (le_put 4 (24 :: u32) @ p_addressHash (w_proxies w i))
        # (if name = [] then [] else [le_put 4 (32 :: u32) @ le_put 4 WORKERNAME_HEADER_WORD
            @ take 28 (str_bytes name @ replicate 28 0)])
    \<and> conn_open (w_proxies v i)
    \<and> v = upd_proxy i (\<lambda>p. p\<lparr>p_Conn := Some c, p_fieldOut := p_fieldOut p + (if name = [] then 16 else 17)\<rparr>) w"
  using connect_eq [OF assms, of cfg name]
  by (auto simp: sent_def conn_open_def pool_conn_def Start_def NewConnection_def name_field_def)

text \<open>
  C26: Whatever the network does and other goroutines make of the pool-down flag, a proxy whose mutex
  nobody keeps meanwhile does not go on trying for ever: after at most one attempt more than \<open>TryPoolTimes\<close> (3 when that is not
  positive) the loop has ended without a panic or a wait for a mutex. Either the proxy is connected, or it is
  closed, or the process has ended, which happens with \<open>ExitOnPoolDown\<close> only.
\<close>

theorem run_connect_ends:
  assumes "nat (retry_times cfg) < length obs" and "world_inv w" "live_id w i"
    and "length (p_addressHash (w_proxies w i)) = 24"
  shows "(\<exists>v. run_connect cfg name i 0 obs w = Ret (Connected v) \<and> conn_open (w_proxies v i) \<and> \<not> p_isClosed (w_proxies v i))
    \<or> (\<exists>v. run_connect cfg name i 0 obs w = Ret (Stopped (Ret v)) \<and> p_isClosed (w_proxies v i))
    \<or> run_connect cfg name i 0 obs w = Ret (Stopped Exit) \<and> ExitOnPoolDown cfg"
proof -
  have "session_ok w i" "0 < i" using assms(2,3) by (auto simp: live_id_def dest: world_invD(1))
  then obtain r where "run_connect cfg name i 0 obs w = Ret r" "over_well cfg i r"
    using run_connect_over [of cfg 0 obs w i name] assms(1,4) retry_times_pos [of cfg] by auto
  then show ?thesis by (cases "(cfg, i, r)" rule: over_well.cases) auto
qed

theorem connect_logs_in_witness:
  "\<exists>v. connect default_config (\<lambda>_. None) ''rig'' 1 demo_session = Ret (None, v)
     \<and> sent (w_proxies v 1) = [le_put 4 (24 :: u32) @ replicate 24 0,
         le_put 4 (32 :: u32) @ le_put 4 WORKERNAME_HEADER_WORD @ str_bytes ''rig'' @ replicate 25 0]"
proof -
  have "\<not> p_connMu (w_proxies demo_session 1)" "\<not> p_isClosed (w_proxies demo_session 1)"
    "p_addressHash (w_proxies demo_session 1) = replicate 24 0"
    by (simp_all add: demo_session_fields NewProxy_def)
  then show ?thesis
    using connect_logs_in [of demo_session 1 "\<lambda>_. None" default_config "''rig''"] by (auto simp: str_bytes_def)
qed

lemma demo_session_inv: "world_inv demo_session" "live_id demo_session 1" "w_poolIsDown demo_session = 0"
proof -
  let ?w = "upd_worker 1 (\<lambda>x. x\<lparr>wk_p := Some 1, wk_id := p_ID (w_proxies demo_world 1)\<rparr>) demo_world"
  have "world_inv ?w" using demo_world_ok(1) by (subst world_inv_cong [of _ demo_world]) simp_all
  then have "world_inv (upd_proxy 1 (\<lambda>p. p\<lparr>p_worker := Some 1\<rparr>) ?w)" by (rule upd_session_inv) simp_all
  then show "world_inv demo_session" by (simp add: demo_session_def proxy_Add_def Let_def)
  show "live_id demo_session 1" "w_poolIsDown demo_session = 0"
    using demo_world_ok(2,7) by (simp_all add: demo_session_def proxy_Add_def Let_def live_id_def)
qed

theorem run_connect_ends_witness:
  "\<exists>v. run_connect default_config [] 1 0 (replicate 100 (0, \<lambda>_. Some (ErrText []))) demo_session = Ret (Connected v)
     \<or> run_connect default_config [] 1 0 (replicate 100 (0, \<lambda>_. Some (ErrText []))) demo_session = Ret (Stopped (Ret v))"
proof -
  have "nat (retry_times default_config) < 100" "\<not> ExitOnPoolDown default_config"
    by (simp_all add: retry_times_def default_config_def zero_config_def)
  moreover have "length (p_addressHash (w_proxies demo_session 1)) = 24" by (simp add: demo_session_fields NewProxy_def)
  ultimately show ?thesis
    using run_connect_ends [OF _ demo_session_inv(1,2), of default_config "replicate 100 (0, \<lambda>_. Some (ErrText []))" "[]"]
    by auto
qed

text \<open>
  C25: When every attempt to reach the pool fails, a miner's proxy tries exactly \<open>TryPoolTimes\<close> and
  one more times, ends its own session, disconnects its miner and raises the pool-down flag (or
  ends the process when \<open>ExitOnPoolDown\<close> is set).
\<close>

theorem run_gives_up:
  assumes "\<forall>(down, dial) \<in> set obs. down = 0 \<and> (\<forall>d. dial d \<noteq> None)" and "name \<noteq> detectProxy"
    and "world_inv w" "live_id w i" "\<not> p_isClosed (w_proxies w i)" "w_poolIsDown w = 0"
    and "p_worker (w_proxies w i) = Some k"
  shows "(length obs \<le> nat (retry_times cfg) \<longrightarrow> run_connect cfg name i 0 obs w = Ret (Retrying w))
    \<and> (length obs = nat (retry_times cfg) + 1 \<longrightarrow>
        (if ExitOnPoolDown cfg then run_connect cfg name i 0 obs w = Ret (Stopped Exit)
         else \<exists>v. run_connect cfg name i 0 obs w = Ret (Stopped (Ret v)) \<and> w_poolIsDown v = 1
           \<and> p_isClosed (w_proxies v i) \<and> sm_get (proxies (w_director v)) i = None
           \<and> \<not> wk_conn_open (w_workers v k) \<and> wk_p (w_workers v k) = None))"
proof -
  have ok: "session_ok w i" "0 < i" using assms(3,4) by (auto simp: live_id_def dest: world_invD(1))
  then have "\<not> p_connMu (w_proxies w i)" by (simp add: session_ok_def Let_def)
  from run_connect_fails [OF assms(1) this assms(2,6), of 0 cfg] retry_times_pos [of cfg]
  have fails: "length obs \<le> nat (retry_times cfg) + 1 \<Longrightarrow> run_connect cfg name i 0 obs w = Ret
      (if length obs = nat (retry_times cfg) + 1 then Stopped (shutdown cfg 2 i w) else Retrying w)"
    by simp
  let ?v = "session_end i (close_worker_of i (w\<lparr>w_poolIsDown := w_poolIsDown w + 1\<rparr>))"
  have "w_poolIsDown ?v = 1" "p_isClosed (w_proxies ?v i)" "\<not> wk_conn_open (w_workers ?v k)"
    "wk_p (w_workers ?v k) = None"
    using assms(6,7) by (simp_all add: ended_def close_worker_of_def worker_Close_def)
  moreover have "sm_get (proxies (w_director ?v)) i = None"
    using sm.get_del [OF world_invD(2) [OF assms(3)], of i] by simp
  ultimately show ?thesis using fails shutdown_open(2) [OF ok assms(5), of cfg] by auto
qed

theorem run_gives_up_witness:
  "\<exists>v. run_connect default_config ''rig'' 1 0
       (replicate (nat (retry_times default_config) + 1) (0, \<lambda>_. Some (ErrText []))) demo_session
     = Ret (Stopped (Ret v)) \<and> w_poolIsDown v = 1 \<and> \<not> wk_conn_open (w_workers v 1)"
proof -
  have "\<not> p_isClosed (w_proxies demo_session 1)" "p_worker (w_proxies demo_session 1) = Some 1"
    by (simp_all add: demo_session_fields NewProxy_def)
  moreover have "\<not> ExitOnPoolDown default_config" by (simp add: default_config_def zero_config_def)
  moreover have "''rig'' \<noteq> detectProxy" by (simp add: detectProxy_def)
  ultimately show ?thesis
    using run_gives_up [OF _ _ demo_session_inv(1,2) _ demo_session_inv(3),
        of "replicate (nat (retry_times default_config) + 1) (0, \<lambda>_. Some (ErrText []))" "''rig''" 1 default_config]
    by auto
qed

subsection \<open>Properties: requests of a miner\<close>

lemma set_worker_address_eq:
  assumes "wk_p (w_workers w k) = Some i" and "length (p_addressHash (w_proxies w i)) = 24"
  shows "if \<exists>payload v. length payload = 19 \<and> a = CheckEncode payload v
    then \<exists>q. SetAddress a (w_proxies w i) = (None, q) \<and> set_worker_address k a w = Ret (None, upd_proxy i (\<lambda>_. q) w)
    else \<exists>e. set_worker_address k a w = Ret (Some e, w)"
proof (cases "SetAddress a (w_proxies w i)")
  case (Pair e q)
  have "q = w_proxies w i" if "e \<noteq> None"
    using Pair that by (auto simp: SetAddress_def split: sum.splits if_splits)
  then have "e \<noteq> None \<Longrightarrow> upd_proxy i (\<lambda>_. q) w = w" by (intro upd_proxy_same) simp
  with Pair assms SetAddress_iff [OF assms(2), of a] show ?thesis
    by (auto simp: set_worker_address_def split: if_splits)
qed

lemma worker_RemoveProxy_open:
  assumes "session_ok w i" "0 < i" "\<not> p_isClosed (w_proxies w i)" "wk_p (w_workers w k) = Some i"
  shows "worker_RemoveProxy k w = Ret (upd_worker k (\<lambda>x. x\<lparr>wk_p := None\<rparr>) (session_end i w))"
  using proxy_Close_open [OF assms(1-3)] assms(4) by (simp add: worker_RemoveProxy_def)

text \<open>
  C8: A login is accepted exactly when the pool is up and the wallet address is the base58check
  form of a version byte and 19 bytes: then the proxy adopts the address and the miner gets its id,
  status OK and a first job, with no name for the password \<open>x\<close>. Any other login is refused with an
  error, and the miner's proxy is closed and taken away from it; the connection to the miner stays
  open.
\<close>

theorem login_outcome:
  assumes "getWorker k ps = Ret k" and "wk_p (w_workers w k) = Some i"
    and "world_inv w" "live_id w i" "\<not> p_isClosed (w_proxies w i)" "length (p_addressHash (w_proxies w i)) = 24"
    and "\<not> not_string (ps ''login'')" and "\<not> not_string (ps ''pass'')"
  shows "if w_poolIsDown w = 0
        \<and> (\<exists>payload v. length payload = 19 \<and> ps ''login'' = Some (PJson (JStr (CheckEncode payload v))))
    then \<exists>q. Login fake k ps w
        = Ret (\<lparr>lr_ID = worker_id_str k w, lr_Job = Some fake, lr_Status = ''OK'', lr_Error = None\<rparr>,
            None, Some (if string_or_empty (ps ''pass'') = ''x'' then [] else string_or_empty (ps ''pass'')),
            upd_proxy i (\<lambda>_. q) w)
        \<and> ps ''login'' = Some (PJson (JStr (p_address q))) \<and> \<not> p_isClosed q
    else \<exists>r e v. Login fake k ps w = Ret (r, Some e, None, v)
        \<and> lr_ID r = worker_id_str k w \<and> lr_Job r = None \<and> lr_Error r \<noteq> None
        \<and> p_isClosed (w_proxies v i) \<and> sm_get (proxies (w_director v)) i = None
        \<and> wk_p (w_workers v k) = None \<and> wk_conn_open (w_workers v k) = wk_conn_open (w_workers w k)"
proof -
  have ok: "session_ok w i" "0 < i" using assms(3,4) by (auto simp: live_id_def dest: world_invD(1))
  note remove = worker_RemoveProxy_open [OF ok assms(5,2)]
  let ?v = "upd_worker k (\<lambda>x. x\<lparr>wk_p := None\<rparr>) (session_end i w)"
  have gone: "p_isClosed (w_proxies ?v i)" "sm_get (proxies (w_director ?v)) i = None"
      "wk_p (w_workers ?v k) = None" "wk_conn_open (w_workers ?v k) = wk_conn_open (w_workers w k)"
    using sm.get_del [OF world_invD(2) [OF assms(3)], of i] by (simp_all add: ended_def)
  have name: "opt_string ps ''pass'' = Ret (string_or_empty (ps ''pass''))"
    using assms(8) by (simp add: opt_string_cases)
  consider "w_poolIsDown w \<noteq> 0" | "w_poolIsDown w = 0" "ps ''login'' = None"
    | a where "w_poolIsDown w = 0" "ps ''login'' = Some (PJson (JStr a))"
    using assms(7) by (cases "ps ''login''" rule: not_string.cases) auto
  then show ?thesis
  proof cases
    case 1
    then show ?thesis
      using assms(1) remove gone by (simp add: Login_def login_error_def word_gt_0)
  next
    case 2
    then show ?thesis using assms(1) remove gone by (simp add: Login_def login_error_def)
  next
    case (3 a)
    show ?thesis
    proof (cases "\<exists>payload v. length payload = 19 \<and> a = CheckEncode payload v")
      case True
      then obtain q where q: "SetAddress a (w_proxies w i) = (None, q)"
          "set_worker_address k a w = Ret (None, upd_proxy i (\<lambda>_. q) w)"
        using set_worker_address_eq [OF assms(2,6), of a] by auto
      have "p_address q = a" "\<not> p_isClosed q"
        using SetAddress_ok [OF q(1)] SetAddress_keeps [OF q(1)] assms(5) by auto
      with 3 True q(2) name assms(1,2) show ?thesis
        by (auto simp: Login_def Let_def worker_id_str_def)
    next
      case False
      then obtain e where "set_worker_address k a w = Ret (Some e, w)"
        using set_worker_address_eq [OF assms(2,6), of a] unfolding if_not_P [OF False] by blast
      with 3 False assms(1) remove gone show ?thesis by (auto simp: Login_def login_error_def)
    qed
  qed
qed

lemma refused_login_nil:
  assumes "Login fake k ps w = Ret (r, Some e, name, v)"
  shows "wk_p (w_workers v k) = None"
proof -
  have worker: "getWorker k ps'' = Ret k \<or> getWorker k ps'' = Panic" for ps''
    by (auto simp: getWorker_def params_context_def split: option.splits param.splits)
  have remove: "worker_RemoveProxy k u = Ret u' \<Longrightarrow> wk_p (w_workers u' k) = None" for u u'
    by (auto simp: worker_RemoveProxy_def go_bind_eq_Ret_iff split: option.splits)
  show ?thesis
    using assms worker [of ps] remove
    by (auto simp: Login_def go_bind_eq_Ret_iff Let_def split: if_splits option.splits)
qed

lemma nil_proxy_panics:
  assumes "wk_p (w_workers v k) = None"
  shows "Getjob k ps v = Panic" "Mining_Submit k ps v = Panic"
  using assms
  by (auto simp: Getjob_def Mining_Submit_def getWorker_def params_context_def split: option.splits param.splits)

lemma nil_proxy_login:
  assumes "wk_p (w_workers v k) = None" and "w_poolIsDown v = 0" "getWorker k ps = Ret k" "ps ''login'' = Some (PJson (JStr a))"
  shows "if \<exists>payload b. length payload = 19 \<and> a = CheckEncode payload b then Login fake k ps v = Panic
    else \<exists>r e. Login fake k ps v = Ret (r, Some e, None, v)"
proof -
  have "fst (SetAddress a (NewProxy 0 0 [])) = None \<longleftrightarrow> (\<exists>payload b. length payload = 19 \<and> a = CheckEncode payload b)"
    by (rule SetAddress_iff) (simp add: NewProxy_def)
  moreover have "worker_RemoveProxy k v = Ret v" using assms(1) by (simp add: worker_RemoveProxy_def)
  ultimately show ?thesis
    using assms by (cases "fst (SetAddress a (NewProxy 0 0 []))") (auto simp: Login_def set_worker_address_def)
qed

text \<open>
  C31: Requests that a miner can send and that kill the process, because the handlers run without
  \<open>recover\<close>. A \<open>login\<close>, \<open>getjob\<close> or \<open>submit\<close> whose params have a member \<open>ctx\<close> replaces the context and
  panics. After a refused login, which leaves the connection open and the proxy pointer nil, every
  \<open>getjob\<close> and every \<open>submit\<close> panics; while the pool is up a further login with an address panics
  exactly when the address is a good one, and is refused again otherwise. (\<open>keepalived\<close> looks neither at the context nor at the proxy.)
\<close>

theorem requests_that_panic:
  "(ReadParams (Some (JObj kvs)) = Some ps \<and> ''ctx'' \<in> fst ` set kvs \<longrightarrow>
      Login fake k ps w = Panic \<and> Getjob k ps w = Panic \<and> Mining_Submit k ps w = Panic)
   \<and> (Login fake k ps w = Ret (r, Some e, name, v) \<longrightarrow>
      Getjob k ps' v = Panic \<and> Mining_Submit k ps' v = Panic
      \<and> (w_poolIsDown v = 0 \<and> getWorker k ps' = Ret k \<and> ps' ''login'' = Some (PJson (JStr a)) \<longrightarrow>
          (if \<exists>payload b. length payload = 19 \<and> a = CheckEncode payload b then Login fake k ps' v = Panic
           else \<exists>r e. Login fake k ps' v = Ret (r, Some e, None, v))))"
proof (intro conjI impI)
  assume "ReadParams (Some (JObj kvs)) = Some ps \<and> ''ctx'' \<in> fst ` set kvs"
  then have "getWorker k ps = Panic" using getWorker_object [of kvs ps k] by simp
  then show "Login fake k ps w = Panic" "Getjob k ps w = Panic" "Mining_Submit k ps w = Panic"
    by (simp_all add: Login_def Getjob_def Mining_Submit_def)
next
  assume "Login fake k ps w = Ret (r, Some e, name, v)"
  then have nil: "wk_p (w_workers v k) = None" by (rule refused_login_nil)
  then show "Getjob k ps' v = Panic" "Mining_Submit k ps' v = Panic" by (rule nil_proxy_panics)+
  assume "w_poolIsDown v = 0 \<and> getWorker k ps' = Ret k \<and> ps' ''login'' = Some (PJson (JStr a))"
  with nil show "if \<exists>payload b. length payload = 19 \<and> a = CheckEncode payload b then Login fake k ps' v = Panic
      else \<exists>r e. Login fake k ps' v = Ret (r, Some e, None, v)"
    by (intro nil_proxy_login) simp_all
qed

text \<open>The address of \<open>''1''\<close> and zeros, for the witness.\<close>

definition demo_params :: params where
  "demo_params = [''ctx'' \<mapsto> PCtx, ''login'' \<mapsto> PJson (JStr (CheckEncode (replicate 19 0) 0)), ''pass'' \<mapsto> PJson (JStr ''x'')]"

theorem login_outcome_witness:
  "\<exists>q. Login empty_job 1 demo_params demo_session
     = Ret (\<lparr>lr_ID = worker_id_str 1 demo_session, lr_Job = Some empty_job, lr_Status = ''OK'', lr_Error = None\<rparr>,
         None, Some [], upd_proxy 1 (\<lambda>_. q) demo_session)
     \<and> p_address q = CheckEncode (replicate 19 0) 0"
proof -
  have ps: "getWorker 1 demo_params = Ret 1" "\<not> not_string (demo_params ''login'')"
    "\<not> not_string (demo_params ''pass'')" "demo_params ''pass'' = Some (PJson (JStr ''x''))"
    "demo_params ''login'' = Some (PJson (JStr (CheckEncode (replicate 19 0) 0)))"
    by (simp_all add: demo_params_def getWorker_def params_context_def)
  have p: "\<not> p_isClosed (w_proxies demo_session 1)" "length (p_addressHash (w_proxies demo_session 1)) = 24"
    by (simp_all add: demo_session_fields NewProxy_def)
  have "\<exists>payload v. length payload = 19 \<and> demo_params ''login'' = Some (PJson (JStr (CheckEncode payload v)))"
    using ps(5) by (intro exI [of _ "replicate 19 0"] exI [of _ 0]) simp
  with login_outcome [OF ps(1) demo_session_fields(5) demo_session_inv(1,2) p ps(2,3), of empty_job]
    demo_session_inv(3)
  show ?thesis using ps(4,5) by auto
qed

text \<open>A login without an address is refused; a second one with the address above panics.\<close>

definition bad_params :: params where
  "bad_params = [''ctx'' \<mapsto> PCtx]"

theorem requests_that_panic_witness:
  "(\<exists>ps. ReadParams (Some (JObj [(''ctx'', JNull)])) = Some ps
     \<and> Login empty_job 1 ps demo_world = Panic \<and> Getjob 1 ps demo_world = Panic \<and> Mining_Submit 1 ps demo_world = Panic)
   \<and> (\<exists>r e name v. Login empty_job 1 bad_params demo_session = Ret (r, Some e, name, v)
     \<and> Getjob 1 demo_params v = Panic \<and> Mining_Submit 1 demo_params v = Panic \<and> Login empty_job 1 demo_params v = Panic)"
proof
  show "\<exists>ps. ReadParams (Some (JObj [(''ctx'', JNull)])) = Some ps
     \<and> Login empty_job 1 ps demo_world = Panic \<and> Getjob 1 ps demo_world = Panic \<and> Mining_Submit 1 ps demo_world = Panic"
    using requests_that_panic [of "[(''ctx'', JNull)]"] by (simp add: ReadParams_def Let_def)
  have closed: "\<not> p_isClosed (w_proxies demo_session 1)" by (simp add: demo_session_fields NewProxy_def)
  have "session_ok demo_session 1" by (rule world_invD(1) [OF demo_session_inv(1,2)])
  note remove = worker_RemoveProxy_open [OF this _ closed demo_session_fields(5)]
  let ?v = "upd_worker 1 (\<lambda>x. x\<lparr>wk_p := None\<rparr>) (session_end 1 demo_session)"
  have refused: "\<exists>r e. Login empty_job 1 bad_params demo_session = Ret (r, Some e, None, ?v)"
    using remove demo_session_inv(3)
    by (auto simp: Login_def bad_params_def getWorker_def params_context_def)
  have ps: "getWorker 1 demo_params = Ret 1" "demo_params ''login'' = Some (PJson (JStr (CheckEncode (replicate 19 0) 0)))"
    by (simp_all add: demo_params_def getWorker_def params_context_def)
  have good: "\<exists>payload b. length payload = 19 \<and> CheckEncode (replicate 19 0) 0 = CheckEncode payload b"
    by (intro exI [of _ "replicate 19 0"] exI [of _ 0]) simp
  have up: "w_poolIsDown ?v = 0" using demo_session_inv(3) by simp
  from refused obtain r e where r: "Login empty_job 1 bad_params demo_session = Ret (r, Some e, None, ?v)" by blast
  note panics = requests_that_panic [THEN conjunct2, THEN mp, OF r, of demo_params "CheckEncode (replicate 19 0) 0"]
  show "\<exists>r e name v. Login empty_job 1 bad_params demo_session = Ret (r, Some e, name, v)
     \<and> Getjob 1 demo_params v = Panic \<and> Mining_Submit 1 demo_params v = Panic \<and> Login empty_job 1 demo_params v = Panic"
    using r panics ps up good by auto
qed

end
