(* ===== verification/Relogin.thy ===== *)
theory Relogin
  imports Session
begin

text \<open>
  A miner that logs in twice. \<open>Login\<close> (\<open>server/proxy/mining.go\<close>) starts \<open>Run\<close> each time, and both connect. The
  other theories keep the connection of a proxy as a value in the proxy; here connections are objects in a
  store and \<open>p.Conn\<close> is an address, as in the code (\<open>connect\<close> and \<open>Remove\<close> of \<open>server/proxy/proxy.go\<close>), so that
  one can see what becomes of a connection nobody points to any more. On the connection pointed to
  the two ways agree (\<open>connect_view\<close>, \<open>remove_view\<close>).
\<close>

subsection \<open>Connections behind pointers\<close>

text \<open>\<open>cn_next\<close> is the next address; \<open>p_Conn\<close> of the proxies in \<open>cn_world\<close> is not used.\<close>

record store =
  cn_world :: world
  cn_ptr :: "u64 \<rightharpoonup> nat"
  cn_heap :: "nat \<rightharpoonup> connection"
  cn_next :: nat

abbreviation cn_proxy :: "u64 \<Rightarrow> store \<Rightarrow> proxy" where
  "cn_proxy i st \<equiv> w_proxies (cn_world st) i"

definition upd_at :: "u64 \<Rightarrow> (proxy \<Rightarrow> proxy) \<Rightarrow> store \<Rightarrow> store" where
  "upd_at i f st = st\<lparr>cn_world := upd_proxy i f (cn_world st)\<rparr>"

definition locked_at :: "u64 \<Rightarrow> (store \<Rightarrow> ('a \<times> store) go) \<Rightarrow> store \<Rightarrow> ('a \<times> store) go" where
  "locked_at i f st =
     (if p_connMu (cn_proxy i st) then Deadlock
      else go_bind (f (upd_at i (\<lambda>p. p\<lparr>p_connMu := True\<rparr>) st))
             (\<lambda>(x, st). Ret (x, upd_at i (\<lambda>p. p\<lparr>p_connMu := False\<rparr>) st)))"

text \<open>\<open>p.Conn = NewConnection(...)\<close> and \<open>p.Conn.Start()\<close>; a call of a method through the pointer.\<close>

definition new_at :: "u64 \<Rightarrow> store \<Rightarrow> store" where
  "new_at i st = st\<lparr>cn_ptr := (cn_ptr st)(i \<mapsto> cn_next st),
     cn_heap := (cn_heap st)(cn_next st \<mapsto> Start (NewConnection (p_ID (cn_proxy i st)))), cn_next := cn_next st + 1\<rparr>"

definition call_at :: "u64 \<Rightarrow> (connection \<Rightarrow> connection go) \<Rightarrow> store \<Rightarrow> store go" where
  "call_at i f st =
     (case cn_ptr st i of
        None \<Rightarrow> Panic
      | Some a \<Rightarrow>
          (case cn_heap st a of
             None \<Rightarrow> Panic
           | Some c \<Rightarrow> go_bind (f c) (\<lambda>c. Ret (st\<lparr>cn_heap := (cn_heap st)(a \<mapsto> c)\<rparr>))))"

definition send_at :: "u64 \<Rightarrow> byte list \<Rightarrow> store \<Rightarrow> store go" where
  "send_at i data = call_at i (\<lambda>c. go_bind (SendBuffMsg c data) (\<lambda>(c, ok). Ret c))"

definition log_in_at :: "string \<Rightarrow> u64 \<Rightarrow> store \<Rightarrow> store go" where
  "log_in_at minerName i st =
     (let st = upd_at i (\<lambda>p. p\<lparr>p_fieldOut := p_fieldOut p + 16\<rparr>) (new_at i st) in
      go_bind (send_at i (login_frame (cn_proxy i st)) st) (\<lambda>st.
        if minerName \<noteq> [] then
          send_at i (name_frame minerName) (upd_at i (\<lambda>p. p\<lparr>p_fieldOut := p_fieldOut p + 1\<rparr>) st)
        else Ret st))"

definition connect_at :: "config \<Rightarrow> (dialer \<Rightarrow> proxy_error option) \<Rightarrow> string \<Rightarrow> u64 \<Rightarrow> store
    \<Rightarrow> (proxy_error option \<times> store) go" where
  "connect_at cfg dial minerName i = locked_at i (\<lambda>st.
     if p_isClosed (cn_proxy i st) then Ret (Some (ErrText ''using closed proxy error''), st)
     else
       case dial (if 11 < length (Socks5 cfg) then ViaSocks5 (Socks5 cfg) (PoolAddr cfg)
                  else DialDirect (PoolAddr cfg)) of
         Some err \<Rightarrow> Ret (Some err, st)
       | None \<Rightarrow> go_bind (log_in_at minerName i st) (\<lambda>st. Ret (None, st)))"

definition remove_at :: "u64 \<Rightarrow> store \<Rightarrow> (unit \<times> store) go" where
  "remove_at i = locked_at i (\<lambda>st.
     if p_isClosed (cn_proxy i st) then Ret ((), st)
     else
       go_bind (if cn_ptr st i = None then Ret st else call_at i conn_Close st) (\<lambda>st.
       go_bind (leave_director i (cn_world st)) (\<lambda>w.
       let st = st\<lparr>cn_ptr := (cn_ptr st)(i := None)\<rparr>; w = clear_pointers i w in
       go_bind (close_done i w) (\<lambda>w.
       go_bind (close_notify i w) (\<lambda>w.
       go_bind (close_submissions i w) (\<lambda>w.
         Ret ((), st\<lparr>cn_world := upd_proxy i (\<lambda>p. p\<lparr>p_isClosed := True\<rparr>) w\<rparr>)))))))"

subsection \<open>The connection as a value\<close>

definition view :: "u64 \<Rightarrow> store \<Rightarrow> world" where
  "view i st = upd_proxy i (\<lambda>p. p\<lparr>p_Conn := (case cn_ptr st i of None \<Rightarrow> None | Some a \<Rightarrow> cn_heap st a)\<rparr>) (cn_world st)"

text \<open>The pointers lead to objects, each to its own, and the next address is free.\<close>

definition store_ok :: "u64 \<Rightarrow> store \<Rightarrow> bool" where
  "store_ok i st \<longleftrightarrow> session_ok (view i st) i \<and> (\<forall>a. cn_heap st a \<noteq> None \<longrightarrow> a < cn_next st)
     \<and> (\<forall>a. cn_ptr st i = Some a \<longrightarrow> (\<exists>c. cn_heap st a = Some c \<and> conn_inv c))"

lemma store_okD:
  assumes "store_ok i st"
  shows "p_ID (cn_proxy i st) = i" "\<not> p_connMu (cn_proxy i st)" "cn_heap st (cn_next st) = None"
    "\<And>a. cn_ptr st i = Some a \<Longrightarrow> \<exists>c. cn_heap st a = Some c \<and> conn_inv c \<and> a < cn_next st"
    "\<not> p_isClosed (cn_proxy i st) \<Longrightarrow> p_director (cn_proxy i st) \<and> \<not> p_submissions_closed (cn_proxy i st)
       \<and> \<not> p_notify_closed (cn_proxy i st) \<and> \<not> p_done_closed (cn_proxy i st)"
  using assms by (fastforce simp: store_ok_def session_ok_def view_def Let_def)+

text \<open>A successful \<open>connect\<close> makes an object and leaves all others alone.\<close>

lemma connect_at_eq:
  assumes "store_ok i st" "\<not> p_isClosed (cn_proxy i st)" "length (p_addressHash (cn_proxy i st)) = 24" "\<forall>d. dial d = None"
  shows "connect_at cfg dial name i st = Ret (None, st\<lparr>
    cn_world := upd_proxy i (\<lambda>p. p\<lparr>p_fieldOut := p_fieldOut p + (if name = [] then 16 else 17)\<rparr>) (cn_world st),
    cn_ptr := (cn_ptr st)(i \<mapsto> cn_next st), cn_heap := (cn_heap st)(cn_next st \<mapsto> pool_conn name (cn_proxy i st)),
    cn_next := cn_next st + 1\<rparr>)"
proof -
  have frame: "login_frame ((cn_proxy i st)\<lparr>p_connMu := True, p_fieldOut := x\<rparr>) = le_put 4 (24 :: u32) @ p_addressHash (cn_proxy i st)" for x
    using login_frame_eq [of "(cn_proxy i st)\<lparr>p_connMu := True, p_fieldOut := x\<rparr>"] assms(3) by simp
  have same: "upd_proxy i (\<lambda>p. p\<lparr>p_fieldOut := f p, p_connMu := False\<rparr>) w = upd_proxy i (\<lambda>p. p\<lparr>p_fieldOut := f p\<rparr>) w"
    if "\<not> p_connMu (w_proxies w i)" for f w
    by (rule upd_proxy_cong) (use that in simp)
  show ?thesis
    using assms store_okD(2) [OF assms(1)]
    by (simp add: connect_at_def locked_at_def log_in_at_def new_at_def send_at_def call_at_def upd_at_def Let_def
        SendBuffMsg_def Start_def NewConnection_def frame name_frame_eq pool_conn_def same add.commute [of 17])
qed

lemma connect_at_ok:
  assumes "store_ok i st" "\<not> p_isClosed (cn_proxy i st)" "length (p_addressHash (cn_proxy i st)) = 24" "\<forall>d. dial d = None"
    and "connect_at cfg dial name i st = Ret (None, st')"
  shows "store_ok i st'" "\<not> p_isClosed (cn_proxy i st')" "length (p_addressHash (cn_proxy i st')) = 24"
    "cn_ptr st' i = Some (cn_next st)" "cn_next st' = cn_next st + 1"
    "\<exists>c. cn_heap st' (cn_next st) = Some c \<and> \<not> c_isClosed c"
    "\<And>a. a \<noteq> cn_next st \<Longrightarrow> cn_heap st' a = cn_heap st a"
proof -
  note eq = assms(5) [unfolded connect_at_eq [OF assms(1-4)], simplified]
  show "\<not> p_isClosed (cn_proxy i st')" "length (p_addressHash (cn_proxy i st')) = 24"
    "cn_ptr st' i = Some (cn_next st)" "cn_next st' = cn_next st + 1"
    "\<exists>c. cn_heap st' (cn_next st) = Some c \<and> \<not> c_isClosed c"
    "\<And>a. a \<noteq> cn_next st \<Longrightarrow> cn_heap st' a = cn_heap st a"
    using eq assms(2,3) by auto
  show "store_ok i st'"
    using eq assms(1) store_okD(4) [OF assms(1)]
    by (auto simp: store_ok_def session_ok_def view_def Let_def less_Suc_eq)
qed

text \<open>
  \<open>Remove\<close> closes the object that the pointer leads to, and no other.
\<close>

lemma remove_at_eq:
  assumes "store_ok i st" "\<not> p_isClosed (cn_proxy i st)" "0 < i" "cn_ptr st i = Some a"
  shows "\<exists>c d st'. cn_heap st a = Some c \<and> conn_Close c = Ret d \<and> c_isClosed d \<and> remove_at i st = Ret ((), st')
    \<and> cn_heap st' = (cn_heap st)(a \<mapsto> d) \<and> cn_ptr st' i = None \<and> cn_next st' = cn_next st
    \<and> p_notify_closed (cn_proxy i st') \<and> p_isClosed (cn_proxy i st')"
proof -
  obtain c where c: "cn_heap st a = Some c" "conn_inv c" using store_okD(4) [OF assms(1,4)] by blast
  then obtain d where d: "conn_Close c = Ret d" "c_isClosed d" using conn.close_total by blast
  show ?thesis
    using assms c d store_okD(1,2,5) [OF assms(1)]
    by (simp add: remove_at_def locked_at_def call_at_def upd_at_def leave_director_def close_done_def
        close_notify_def close_submissions_def clear_pointers_def Let_def)
qed

subsection \<open>Agreement\<close>

text \<open>On what the pointer leads to, both operations do what they do to a connection kept in the proxy.\<close>

lemma connect_view:
  assumes "store_ok i st" "\<not> p_isClosed (cn_proxy i st)" "length (p_addressHash (cn_proxy i st)) = 24" "\<forall>d. dial d = None"
  shows "\<exists>st'. connect_at cfg dial name i st = Ret (None, st') \<and> connect cfg dial name i (view i st) = Ret (None, view i st')"
proof -
  have "pool_conn name ((cn_proxy i st)\<lparr>p_Conn := x\<rparr>) = pool_conn name (cn_proxy i st)" for x
    by (simp add: pool_conn_def)
  moreover have "connect cfg dial name i (view i st) = Ret (None, upd_proxy i (\<lambda>p. p\<lparr>
      p_Conn := Some (pool_conn name (w_proxies (view i st) i)),
      p_fieldOut := p_fieldOut p + (if name = [] then 16 else 17)\<rparr>) (view i st))"
    by (rule connect_eq) (use assms store_okD(2) [OF assms(1)] in \<open>simp_all add: view_def\<close>)
  ultimately show ?thesis unfolding connect_at_eq [OF assms] by (auto simp: view_def intro!: upd_proxy_cong)
qed

lemma remove_view:
  assumes "store_ok i st" "\<not> p_isClosed (cn_proxy i st)" "0 < i" "cn_ptr st i = Some a" "remove_at i st = Ret ((), st')"
  shows "proxy_Remove i (view i st) = Ret (view i st')"
proof -
  obtain c where c: "cn_heap st a = Some c" "conn_inv c" using store_okD(4) [OF assms(1,4)] by blast
  then obtain d where d: "conn_Close c = Ret d" using conn.close_total by blast
  have removed: "proxy_Remove i (view i st) = Ret (session_end i (view i st))"
    using assms by (intro proxy_Remove_open) (simp_all add: store_ok_def view_def)
  let ?f = "\<lambda>p. p\<lparr>p_connMu := False, p_worker := None, p_SS := False, p_director := False, p_done_closed := True,
      p_notify_closed := True, p_submissions_closed := True, p_isClosed := True\<rparr>"
  have "cn_ptr st' i = None \<and> cn_world st' = upd_proxy i ?f (removeProxy i (cn_world st))"
    using assms c d store_okD(1,2,5) [OF assms(1)]
    by (auto simp: remove_at_def locked_at_def call_at_def upd_at_def leave_director_def close_done_def
        close_notify_def close_submissions_def clear_pointers_def Let_def removeProxy_upd_proxy intro!: upd_proxy_cong)
  then have "view i st' = session_end i (view i st)"
    using store_okD(2) [OF assms(1)]
    by (auto simp: view_def session_end_def removeProxy_upd_proxy ended_def intro!: upd_proxy_cong)
  with removed show ?thesis by simp
qed

subsection \<open>Property\<close>

text \<open>The connects of several logins in turn, each with its miner's name.\<close>

fun logins_at :: "config \<Rightarrow> (dialer \<Rightarrow> proxy_error option) \<Rightarrow> string list \<Rightarrow> u64 \<Rightarrow> store \<Rightarrow> store go" where
  "logins_at cfg dial [] i st = Ret st"
| "logins_at cfg dial (name # names) i st =
     go_bind (connect_at cfg dial name i st) (\<lambda>(err, st). logins_at cfg dial names i st)"

lemma logins_at_ok:
  assumes "store_ok i st" "\<not> p_isClosed (cn_proxy i st)" "length (p_addressHash (cn_proxy i st)) = 24" "\<forall>d. dial d = None"
  shows "\<exists>u. logins_at cfg dial names i st = Ret u \<and> store_ok i u \<and> \<not> p_isClosed (cn_proxy i u)
    \<and> cn_next u = cn_next st + length names
    \<and> cn_ptr u i = (if names = [] then cn_ptr st i else Some (cn_next st + (length names - 1)))
    \<and> (\<forall>a. a < cn_next st \<longrightarrow> cn_heap u a = cn_heap st a)
    \<and> (\<forall>k. k < length names \<longrightarrow> (\<exists>c. cn_heap u (cn_next st + k) = Some c \<and> \<not> c_isClosed c))"
  using assms
proof (induction names arbitrary: st)
  case (Cons name names)
  obtain v where v: "connect_at cfg dial name i st = Ret (None, v)" using connect_at_eq [OF Cons.prems] by blast
  note ok = connect_at_ok [OF Cons.prems v]
  from Cons.IH [OF ok(1-3) Cons.prems(4)] obtain u where u:
    "logins_at cfg dial names i v = Ret u" "store_ok i u" "\<not> p_isClosed (cn_proxy i u)"
    "cn_next u = cn_next v + length names"
    "cn_ptr u i = (if names = [] then cn_ptr v i else Some (cn_next v + (length names - 1)))"
    "\<And>a. a < cn_next v \<Longrightarrow> cn_heap u a = cn_heap v a"
    "\<And>k. k < length names \<Longrightarrow> \<exists>c. cn_heap u (cn_next v + k) = Some c \<and> \<not> c_isClosed c"
    by blast
  have "\<exists>c. cn_heap u (cn_next st + k) = Some c \<and> \<not> c_isClosed c" if "k < length (name # names)" for k
    using that u(6) [of "cn_next st"] u(7) [of "k - 1"] ok(5,6) by (cases k) auto
  with u ok v show ?case by (cases names) auto
qed simp

text \<open>The reader of the connection at an address, with the channel as the proxy has left it.\<close>

definition reader_at :: "nat \<Rightarrow> u64 \<Rightarrow> store \<Rightarrow> csys \<Rightarrow> csys" where
  "reader_at a i st s = s\<lparr>s_conn := the (cn_heap st a), s_notify_closed := p_notify_closed (cn_proxy i st)\<rparr>"

text \<open>
  C30: What becomes of the pool connections of a miner that logs in any number of times, each time
  connecting to the pool. \<open>connect\<close> puts its connection in \<open>p.Conn\<close> and leaves the earlier ones alone, so when the
  session ends \<open>Remove\<close> closes the last one only, and the channel \<open>notify\<close>, which all of them share. The next
  frame that the pool sends on one of the others, if it is still open, panics and ends the process; a late frame on the
  last one is dropped. So after one login no frame panics, and after two the first connection's next one does.
\<close>

theorem second_login_kills:
  assumes "store_ok i st" "\<not> p_isClosed (cn_proxy i st)" "0 < i"
    and "length (p_addressHash (cn_proxy i st)) = 24" and "\<forall>d. dial d = None" and "names \<noteq> []"
  shows "\<exists>u v. logins_at cfg dial names i st = Ret u \<and> remove_at i u = Ret ((), v)
    \<and> cn_next v = cn_next st + length names
    \<and> (\<forall>k. k < length names \<longrightarrow>
          (if k + 1 = length names
           then \<exists>t. reader_deliver (reader_at (cn_next st + k) i v s) data = Ret t \<and> s_notify t = s_notify s
           else reader_deliver (reader_at (cn_next st + k) i v s) data = Panic))"
proof -
  obtain u where u: "logins_at cfg dial names i st = Ret u" "store_ok i u" "\<not> p_isClosed (cn_proxy i u)"
    "cn_next u = cn_next st + length names" "cn_ptr u i = Some (cn_next st + (length names - 1))"
    "\<And>k. k < length names \<Longrightarrow> \<exists>c. cn_heap u (cn_next st + k) = Some c \<and> \<not> c_isClosed c"
    using logins_at_ok [OF assms(1,2,4,5), of cfg names] assms(6) by auto
  obtain d v where v: "c_isClosed d" "remove_at i u = Ret ((), v)" "p_notify_closed (cn_proxy i v)"
    "cn_heap v = (cn_heap u)(cn_next st + (length names - 1) \<mapsto> d)" "cn_next v = cn_next u"
    using remove_at_eq [OF u(2,3) assms(3) u(5)] by blast
  have "if k + 1 = length names
      then \<exists>t. reader_deliver (reader_at (cn_next st + k) i v s) data = Ret t \<and> s_notify t = s_notify s
      else reader_deliver (reader_at (cn_next st + k) i v s) data = Panic" if "k < length names" for k
    using u(6) [OF that] v that by (cases "k + 1 = length names") (auto simp: reader_at_def reader_deliver_def)
  with u(1,4) v(2,5) show ?thesis by auto
qed

text \<open>The session of theory Proxy before it has a connection, and two logins.\<close>

definition demo_store :: store where
  "demo_store = \<lparr>cn_world = demo_session, cn_ptr = Map.empty, cn_heap = Map.empty, cn_next = 0\<rparr>"

theorem second_login_kills_witness:
  "\<exists>u v. logins_at default_config (\<lambda>_. None) [''rig'', []] 1 demo_store = Ret u \<and> remove_at 1 u = Ret ((), v)
     \<and> reader_deliver (reader_at 0 1 v demo_init) (replicate 32 0) = Panic"
proof -
  have "view 1 demo_store = demo_session"
    by (simp add: view_def demo_store_def, rule upd_proxy_same) (simp add: demo_session_fields NewProxy_def)
  then have "store_ok 1 demo_store"
    using world_invD(1) [OF demo_session_inv(1,2)] by (simp add: store_ok_def demo_store_def)
  then show ?thesis
    using second_login_kills [of 1 demo_store "\<lambda>_. None" "[''rig'', []]" default_config demo_init "replicate 32 0"]
    by (auto simp: demo_store_def demo_session_fields NewProxy_def)
qed

end
