(* ===== verification/PoolDown.thy ===== *)
theory PoolDown
  imports Session
begin

text \<open>
  The pool-down flag (\<open>poolIsDown\<close> in \<open>server/proxy/proxy.go\<close>): a system of all the operations
  of the other theories, and what they can do to the flag. \<open>PoolDetect\<close> starts a proxy that is to
  lower the flag when the pool answers again.
\<close>

subsection \<open>What every operation does to the flag\<close>

text \<open>An operation that changes neither an address nor the flag.\<close>

definition keeps_flag :: "world \<Rightarrow> world \<Rightarrow> bool" where
  "keeps_flag w v \<longleftrightarrow> (\<forall>j. p_address (w_proxies v j) = p_address (w_proxies w j)) \<and> w_poolIsDown v = w_poolIsDown w"

lemma keeps_flag_refl [simp]: "keeps_flag w w"
  by (simp add: keeps_flag_def)

lemma keeps_flag_trans [trans]: "keeps_flag w v \<Longrightarrow> keeps_flag v u \<Longrightarrow> keeps_flag w u"
  by (simp add: keeps_flag_def)

lemma keeps_flag_upd:
  "p_address (f (w_proxies w i)) = p_address (w_proxies w i) \<Longrightarrow> keeps_flag w (upd_proxy i f w)"
  "keeps_flag w (upd_worker k g w)" "keeps_flag w (close_worker_of i w)" "keeps_flag w (removeProxy i w)"
  by (simp_all add: keeps_flag_def)

lemma dismantle_keeps: "dismantle i w = Ret v \<Longrightarrow> keeps_flag w v"
  by (auto simp: dismantle_def close_done_def leave_director_def close_notify_def clear_pointers_def
      close_submissions_def keeps_flag_def go_bind_eq_Ret_iff split: if_splits)

lemma close_conn_keeps: "close_conn_of i w = Ret v \<Longrightarrow> keeps_flag w v"
  by (auto simp: close_conn_of_def keeps_flag_def go_bind_eq_Ret_iff split: option.splits)

lemma locked_keeps:
  assumes "locked i f w = Ret v"
    and "\<And>u u'. keeps_flag w u \<Longrightarrow> f u = Ret u' \<Longrightarrow> keeps_flag u u'"
  shows "keeps_flag w v"
proof -
  obtain u where u: "f (upd_proxy i (\<lambda>p. p\<lparr>p_connMu := True\<rparr>) w) = Ret u"
      "v = upd_proxy i (\<lambda>p. p\<lparr>p_connMu := False\<rparr>) u"
    using assms(1) by (auto simp: locked_def go_bind_eq_Ret_iff split: if_splits)
  have lock: "keeps_flag w (upd_proxy i (\<lambda>p. p\<lparr>p_connMu := True\<rparr>) w)" by (rule keeps_flag_upd) simp
  also note assms(2) [OF lock u(1)]
  also have "keeps_flag u v" unfolding u(2) by (rule keeps_flag_upd) simp
  finally show ?thesis .
qed

lemma proxy_Remove_keeps: "proxy_Remove i w = Ret v \<Longrightarrow> keeps_flag w v"
  unfolding proxy_Remove_def
  by (erule locked_keeps)
    (auto simp: close_done_def leave_director_def close_notify_def clear_pointers_def Let_def
      close_submissions_def keeps_flag_def go_bind_eq_Ret_iff split: if_splits dest!: close_conn_keeps)

lemma proxy_Close_keeps: "proxy_Close i w = Ret v \<Longrightarrow> keeps_flag w v"
  unfolding proxy_Close_def
  by (erule locked_keeps)
    (auto simp: go_bind_eq_Ret_iff split: if_splits
      dest!: close_conn_keeps dismantle_keeps intro: keeps_flag_trans)

lemma worker_Disconnect_keeps: "worker_Disconnect k w = Ret v \<Longrightarrow> keeps_flag w v"
  by (auto simp: worker_Disconnect_def Let_def go_bind_eq_Ret_iff keeps_flag_def
      split: option.splits dest!: proxy_Remove_keeps)

lemma worker_RemoveProxy_keeps: "worker_RemoveProxy k w = Ret v \<Longrightarrow> keeps_flag w v"
  by (auto simp: worker_RemoveProxy_def go_bind_eq_Ret_iff keeps_flag_def
      split: option.splits dest!: proxy_Close_keeps)

lemma broadcastJob_keeps: "broadcastJob i w = Ret v \<Longrightarrow> keeps_flag w v"
  unfolding broadcastJob_def
  by (erule locked_keeps)
    (auto simp: worker_NewJob_def keeps_flag_upd(2) split: if_splits option.splits dest: worker_Disconnect_keeps)

lemma setTarget_address: "setTarget conv now n p = Ret q \<Longrightarrow> p_address q = p_address p"
  by (auto simp: setTarget_def go_bind_eq_Ret_iff split: option.splits)

lemma handleJob_keeps: "handleJob j now i w = Ret v \<Longrightarrow> keeps_flag w v"
  using keeps_flag_upd(1) [of "adopt_job j now" w i] broadcastJob_keeps
  by (auto simp: handleJob_def adopt_job_def intro: keeps_flag_trans)

lemma complete_job_keeps:
  assumes "complete_job conv now nonce jid d i w = Ret v"
  shows "keeps_flag w v"
proof -
  let ?p = "(w_proxies w i)\<lparr>p_recvByte := copy_at 32 64 (p_recvByte (w_proxies w i)) d\<rparr>"
  obtain q job where q: "(if of_nat (initDiffCount + 1) < p_shares ?p \<and> refreshDiffInterval \<le> now - p_targetSince ?p
        then setTarget conv now (p_shares ?p) ?p else Ret ?p) = Ret q"
    and v: "v = upd_proxy i (\<lambda>_. q) w \<or> handleJob job now i (upd_proxy i (\<lambda>_. q) w) = Ret v"
    using assms unfolding complete_job_def Let_def go_bind_eq_Ret_iff by (auto simp: go_bind_eq_Ret_iff split: if_splits)
  have "p_address q = p_address (w_proxies w i)"
    using q by (auto split: if_splits dest: setTarget_address)
  then have "keeps_flag w (upd_proxy i (\<lambda>_. q) w)" by (intro keeps_flag_upd) simp
  with v show ?thesis using handleJob_keeps keeps_flag_trans by blast
qed

lemma handleNotification_keeps:
  assumes "handleNotification cfg conv now nonce jid d i w = Ret v"
    and "p_address (w_proxies w i) \<noteq> detectProxy"
  shows "keeps_flag w v"
proof -
  let ?d = "go_copy (replicate 32 0) d"
  obtain a where a: "Hash2address ?d = Ret a"
    using assms(1) by (auto simp: handleNotification_def Let_def go_bind_eq_Ret_iff)
  note eq = assms(1) [unfolded handleNotification_def Let_def a go_bind.simps]
  consider "a = p_address (w_proxies w i)" | "a \<noteq> p_address (w_proxies w i)" "p_recvCount (w_proxies w i) = 0"
    | "a \<noteq> p_address (w_proxies w i)" "p_recvCount (w_proxies w i) = 1"
    | "a \<noteq> p_address (w_proxies w i)" "1 < p_recvCount (w_proxies w i)"
    by linarith
  then show ?thesis
  proof cases
    case 1
    with eq show ?thesis by (auto simp: keeps_flag_def)
  next
    case 2
    with eq show ?thesis by (auto simp: keeps_flag_def go_bind_eq_Ret_iff split: if_splits)
  next
    case 3
    with eq assms(2) have "complete_job conv now nonce jid ?d i
        (upd_proxy i (\<lambda>p. p\<lparr>p_fieldIn := p_fieldIn p + 1, p_recvCount := 0\<rparr>) w) = Ret v"
      by simp
    from complete_job_keeps [OF this] show ?thesis by (simp add: keeps_flag_def split: if_splits)
  next
    case 4
    with eq show ?thesis by (auto simp: keeps_flag_def)
  qed
qed

lemma SendFrame_address: "SendFrame d p = Ret q \<Longrightarrow> p_address q = p_address p"
  by (auto simp: SendFrame_def go_bind_eq_Ret_iff split: option.splits)

lemma log_in_address: "log_in name p = Ret q \<Longrightarrow> p_address q = p_address p"
proof -
  let ?p = "p\<lparr>p_Conn := Some (Start (NewConnection (p_ID p))), p_fieldOut := p_fieldOut p + 16\<rparr>"
  assume "log_in name p = Ret q"
  then obtain r where r: "SendFrame (login_frame ?p) ?p = Ret r"
      "q = r \<or> SendFrame (name_frame name) (r\<lparr>p_fieldOut := p_fieldOut r + 1\<rparr>) = Ret q"
    unfolding log_in_def Let_def go_bind_eq_Ret_iff by (metis go.inject)
  have "p_address r = p_address p" using SendFrame_address [OF r(1)] by simp
  with r(2) SendFrame_address [of "name_frame name" "r\<lparr>p_fieldOut := p_fieldOut r + 1\<rparr>" q] show ?thesis
    by auto
qed

lemma locked_val_keeps:
  assumes "locked_val i f w = Ret (r, v)"
    and "\<And>u u' r. f u = Ret (r, u') \<Longrightarrow> keeps_flag u u'"
  shows "keeps_flag w v"
proof -
  obtain u where u: "f (upd_proxy i (\<lambda>p. p\<lparr>p_connMu := True\<rparr>) w) = Ret (r, u)"
      "v = upd_proxy i (\<lambda>p. p\<lparr>p_connMu := False\<rparr>) u"
    using assms(1) by (auto simp: locked_val_def go_bind_eq_Ret_iff split: if_splits)
  from assms(2) [OF u(1)] show ?thesis by (simp add: u(2) keeps_flag_def)
qed

lemma connect_keeps: "connect cfg dial name i w = Ret (e, v) \<Longrightarrow> keeps_flag w v"
  unfolding connect_def
  by (erule locked_val_keeps)
    (auto simp: go_bind_eq_Ret_iff split: if_splits option.splits dest!: log_in_address intro!: keeps_flag_upd)

lemma pool_submit_address: "pool_submit now s p = Ret q \<Longrightarrow> p_address q = p_address p"
  by (auto simp: pool_submit_def Let_def go_bind_eq_Ret_iff split: if_splits dest!: SendFrame_address)

lemma count_share_address: "count_share conv now p = Ret q \<Longrightarrow> p_address q = p_address p"
  by (auto simp: count_share_def Let_def split: if_splits dest!: setTarget_address)

lemma judge_share_address: "judge_share cfg conv now s p = Ret (r, q) \<Longrightarrow> p_address q = p_address p"
  by (auto simp: judge_share_def go_bind_eq_Ret_iff split: if_splits option.splits
      dest!: pool_submit_address count_share_address)

lemma handleSubmit_keeps: "handleSubmit cfg conv now s i w = Ret (r, v) \<Longrightarrow> keeps_flag w v"
  unfolding handleSubmit_def
  by (erule locked_val_keeps)
    (auto simp: go_bind_eq_Ret_iff split: if_splits dest!: judge_share_address intro!: keeps_flag_upd)

text \<open>\<open>shutdown\<close> is the only operation that raises the flag.\<close>

definition raises_flag :: "world \<Rightarrow> world \<Rightarrow> bool" where
  "raises_flag w v \<longleftrightarrow> (\<forall>j. p_address (w_proxies v j) = p_address (w_proxies w j)) \<and>
     (w_poolIsDown v = w_poolIsDown w \<or> w_poolIsDown v = w_poolIsDown w + 1)"

lemma keeps_raises: "keeps_flag w v \<Longrightarrow> raises_flag w v"
  by (simp add: keeps_flag_def raises_flag_def)

lemma raises_keeps_trans: "raises_flag w v \<Longrightarrow> keeps_flag v u \<Longrightarrow> raises_flag w u"
  by (simp add: keeps_flag_def raises_flag_def)

lemma keeps_raises_trans: "keeps_flag w v \<Longrightarrow> raises_flag v u \<Longrightarrow> raises_flag w u"
  by (simp add: keeps_flag_def raises_flag_def)

lemma shutdown_raises: "shutdown cfg cl i w = Ret v \<Longrightarrow> raises_flag w v"
  by (auto simp: shutdown_def locked_def go_bind_eq_Ret_iff pool_down_def Let_def raises_flag_def
      keeps_flag_def split: if_splits option.splits dest!: dismantle_keeps close_conn_keeps)

subsection \<open>The system\<close>

definition no_detect :: "world \<Rightarrow> bool" where
  "no_detect w \<longleftrightarrow> (\<forall>j. p_address (w_proxies w j) \<noteq> detectProxy)"

lemma raises_no_detect: "raises_flag w v \<Longrightarrow> no_detect w \<Longrightarrow> no_detect v"
  by (simp add: raises_flag_def no_detect_def)

lemma set_worker_address_no_detect:
  "set_worker_address k a w = Ret (e, v) \<Longrightarrow> no_detect w \<Longrightarrow> no_detect v \<and> w_poolIsDown v = w_poolIsDown w"
proof -
  assume "set_worker_address k a w = Ret (e, v)" and w: "no_detect w"
  then have "v = w \<or> (\<exists>i q. SetAddress a (w_proxies w i) = (e, q) \<and> v = upd_proxy i (\<lambda>_. q) w)"
    unfolding set_worker_address_def
    by (cases "wk_p (w_workers w k)"; cases "fst (SetAddress a (NewProxy 0 0 []))") (auto split: prod.splits)
  then consider "v = w"
    | i q where "SetAddress a (w_proxies w i) = (e, q)" "v = upd_proxy i (\<lambda>_. q) w"
    by blast
  then show ?thesis
  proof cases
    case (2 i q)
    have "p_address q \<noteq> detectProxy"
    proof (cases e)
      case None
      with 2(1) show ?thesis using SetAddress_not_detect by blast
    next
      case (Some x)
      with 2(1) have "q = w_proxies w i" by (auto simp: SetAddress_def split: sum.splits if_splits)
      with w show ?thesis by (simp add: no_detect_def)
    qed
    with 2 w show ?thesis by (simp add: no_detect_def)
  qed (use w in simp)
qed

lemma Login_no_detect:
  assumes "Login fake k ps w = Ret (r, e, n, v)" and "no_detect w"
  shows "no_detect v \<and> w_poolIsDown v = w_poolIsDown w"
proof -
  have remove: "no_detect u' \<and> w_poolIsDown u' = w_poolIsDown u"
    if "worker_RemoveProxy j u = Ret u'" "no_detect u" for j u u'
    using worker_RemoveProxy_keeps [OF that(1)] that(2) by (simp add: keeps_flag_def no_detect_def)
  obtain k' where k': "getWorker k ps = Ret k'"
    using assms(1) by (auto simp: Login_def go_bind_eq_Ret_iff)
  show ?thesis
  proof (cases "0 < w_poolIsDown w")
    case True
    with assms k' show ?thesis by (auto simp: Login_def go_bind_eq_Ret_iff dest: remove)
  next
    case False
    then obtain err u where u: "(case ps ''login'' of
          Some a \<Rightarrow> go_bind (as_string a) (\<lambda>a. set_worker_address k' a w)
        | None \<Rightarrow> Ret (Some (ErrText ''no login param''), w)) = Ret (err, u)"
      and v: "worker_RemoveProxy k' u = Ret v \<or> v = u"
      using assms(1) k' by (auto simp: Login_def go_bind_eq_Ret_iff Let_def split: option.splits if_splits)
    have "no_detect u \<and> w_poolIsDown u = w_poolIsDown w"
      using u assms(2) set_worker_address_no_detect
      by (fastforce simp: go_bind_eq_Ret_iff split: option.splits)
    with v show ?thesis by (auto dest: remove)
  qed
qed

lemma SpawnWorker_no_detect:
  "SpawnWorker now prev w = (k, v) \<Longrightarrow> no_detect w \<Longrightarrow> no_detect v \<and> w_poolIsDown v = w_poolIsDown w"
  by (auto simp: SpawnWorker_def NextProxy_def addProxy_def nextProxyID_def proxy_Add_def Let_def
      no_detect_def NewProxy_def detectProxy_def upd_worker_def upd_proxy_def split: if_splits)

text \<open>Everything that can happen in the server, as far as the proxies are concerned.\<close>

inductive server_step :: "world \<Rightarrow> world \<Rightarrow> bool" where
  step_accept: "SpawnWorker now prev w = (k, v) \<Longrightarrow> server_step w v"
| step_login: "Login fake k ps w = Ret (r, e, n, v) \<Longrightarrow> server_step w v"
| step_getjob: "Getjob k ps w = Ret (j, v) \<Longrightarrow> server_step w v"
| step_connect: "connect cfg dial name i w = Ret (e, v) \<Longrightarrow> server_step w v"
| step_field: "handleNotification cfg conv now nonce jid d i w = Ret v \<Longrightarrow> server_step w v"
| step_share: "handleSubmit cfg conv now s i w = Ret (rep, v) \<Longrightarrow> server_step w v"
| step_shutdown: "shutdown cfg cl i w = Ret v \<Longrightarrow> server_step w v"
| step_disconnect: "worker_Disconnect k w = Ret v \<Longrightarrow> server_step w v"
| step_stats: "GetStats w = (st, v) \<Longrightarrow> server_step w v"
| step_detect: "detect_tick cfg w = Ret (b, v) \<Longrightarrow> server_step w v"

definition server_init :: "world \<Rightarrow> bool" where
  "server_init w \<longleftrightarrow> w_director w = newDirector \<and> w_poolIsDown w = 0
     \<and> (\<forall>j. \<exists>now prev. w_proxies w j = (if j = 0 then detect_proxy now prev else NewProxy 0 now prev))"

lemma server_init_no_detect: "server_init w \<Longrightarrow> no_detect w"
proof -
  assume "server_init w"
  then have "\<exists>now prev. w_proxies w j = (if j = 0 then detect_proxy now prev else NewProxy 0 now prev)" for j
    by (simp add: server_init_def)
  moreover have "p_address (detect_proxy now prev) = detectAddr" "p_address (NewProxy 0 now prev) = []" for now prev
    by (simp_all add: detect_proxy_def NewProxy_def)
  ultimately have "p_address (w_proxies w j) \<in> {detectAddr, []}" for j
    by (metis (full_types) insert_iff)
  moreover have "detectProxy \<notin> {detectAddr, []}" by (simp add: detectProxy_def detectAddr_def)
  ultimately show ?thesis unfolding no_detect_def by metis
qed

lemma server_step_flag:
  assumes "server_step w v" and "no_detect w"
  shows "no_detect v \<and> (w_poolIsDown v = w_poolIsDown w \<or> w_poolIsDown v = w_poolIsDown w + 1)"
  using assms
proof (cases rule: server_step.cases)
  case (step_accept now prev k)
  then show ?thesis using assms(2) SpawnWorker_no_detect by blast
next
  case (step_login fake k ps r e n)
  then show ?thesis using assms(2) Login_no_detect by blast
next
  case (step_getjob k ps j)
  then have "keeps_flag w v"
    by (auto simp: Getjob_def NextJob_def go_bind_eq_Ret_iff keeps_flag_def Let_def split: option.splits)
  then show ?thesis using assms(2) by (simp add: keeps_flag_def no_detect_def)
next
  case (step_connect cfg dial name i e)
  then show ?thesis using assms(2) connect_keeps by (fastforce simp: keeps_flag_def no_detect_def)
next
  case (step_field cfg conv now nonce jid d i)
  moreover have "p_address (w_proxies w i) \<noteq> detectProxy" using assms(2) by (simp add: no_detect_def)
  ultimately have "keeps_flag w v" using handleNotification_keeps by blast
  then show ?thesis using assms(2) by (simp add: keeps_flag_def no_detect_def)
next
  case (step_share cfg conv now s i rep)
  then show ?thesis using assms(2) handleSubmit_keeps by (fastforce simp: keeps_flag_def no_detect_def)
next
  case (step_shutdown cfg cl i)
  from shutdown_raises [OF this] assms(2) show ?thesis by (simp add: raises_flag_def no_detect_def)
next
  case (step_disconnect k)
  from worker_Disconnect_keeps [OF this] assms(2) show ?thesis by (simp add: keeps_flag_def no_detect_def)
next
  case (step_stats st)
  then have "keeps_flag w v" by (auto simp: GetStats_def Let_def keeps_flag_def split: prod.splits)
  then show ?thesis using assms(2) by (simp add: keeps_flag_def no_detect_def)
next
  case (step_detect cfg b)
  then have "keeps_flag w v" by (auto simp: detect_tick_def keeps_flag_def split: if_splits)
  then show ?thesis using assms(2) by (simp add: keeps_flag_def no_detect_def)
qed

interpretation server: invariant_system server_init server_step no_detect
  using server_init_no_detect server_step_flag by unfold_locales blast+

subsection \<open>Properties\<close>

text \<open>
  C24: Nothing the server does ever lowers the pool-down flag: in every state it can reach, every
  step leaves the flag as it is or adds one. The reset in \<open>handleNotification\<close> is for a proxy
  whose wallet address is the name of the detecting proxy, and there is none: that proxy has
  another address, and \<open>SetAddress\<close> cannot produce the name, which is not base58.
\<close>

theorem pool_down_stays:
  assumes "reach server_init server_step w" and "server_step w v"
  shows "w_poolIsDown v = w_poolIsDown w \<or> w_poolIsDown v = w_poolIsDown w + 1"
  using server.reach_inv [OF assms(1)] server_step_flag [OF assms(2)] by blast

theorem pool_down_stays_witness:
  "let w = demo_base\<lparr>w_proxies := (\<lambda>j. if j = 0 then detect_proxy 0 [] else NewProxy 0 0 [])\<rparr>;
       v = snd (SpawnWorker 0 [] w)
   in w_poolIsDown v = 0 \<or> w_poolIsDown v = 1"
proof -
  let ?w = "demo_base\<lparr>w_proxies := (\<lambda>j. if j = 0 then detect_proxy 0 [] else NewProxy 0 0 [])\<rparr>"
  have "reach server_init server_step ?w"
    by (rule reach_init) (auto simp: server_init_def demo_base_def)
  moreover have "server_step ?w (snd (SpawnWorker 0 [] ?w))"
    by (rule step_accept [of 0 "[]" _ "fst (SpawnWorker 0 [] ?w)"]) simp
  ultimately show ?thesis
    using pool_down_stays by (fastforce simp: Let_def demo_base_def)
qed

end
