(* ===== verification/WellFormed.thy ===== *)
theory WellFormed
  imports PoolDown
begin

text \<open>
  Well-formed worlds: every proxy has its buffers at their lengths, a target of eight hex digits, a
  job that is empty or complete and a connection in order, and knows only the miner that was made
  with it. Every step of the server (theory PoolDown) keeps this, and it is what keeps the two
  handlers of a proxy's goroutine from panicking.
\<close>

definition wf_proxy :: "proxy \<Rightarrow> bool" where
  "wf_proxy p \<longleftrightarrow> proxy_ok p \<and> (\<forall>c. p_Conn p = Some c \<longrightarrow> conn_inv c)"

definition wf_worker :: "world \<Rightarrow> u64 \<Rightarrow> bool" where
  "wf_worker w i \<longleftrightarrow> (\<forall>k. p_worker (w_proxies w i) = Some k \<longrightarrow>
     k = i \<and> (wk_p (w_workers w i) = None \<or> wk_p (w_workers w i) = Some i))"

definition wf_world :: "world \<Rightarrow> bool" where
  "wf_world w \<longleftrightarrow> (\<forall>i. wf_proxy (w_proxies w i) \<and> wf_worker w i)"

subsection \<open>Session fields\<close>

lemma wf_proxy_simps [simp]:
  "wf_proxy (p\<lparr>p_connMu := b\<rparr>) = wf_proxy p" "wf_proxy (p\<lparr>p_isClosed := b\<rparr>) = wf_proxy p"
  "wf_proxy (p\<lparr>p_SS := b\<rparr>) = wf_proxy p" "wf_proxy (p\<lparr>p_director := b\<rparr>) = wf_proxy p"
  "wf_proxy (p\<lparr>p_worker := x\<rparr>) = wf_proxy p" "wf_proxy (p\<lparr>p_done_closed := b\<rparr>) = wf_proxy p"
  "wf_proxy (p\<lparr>p_notify_closed := b\<rparr>) = wf_proxy p" "wf_proxy (p\<lparr>p_submissions_closed := b\<rparr>) = wf_proxy p"
  "wf_proxy (p\<lparr>p_fieldIn := n\<rparr>) = wf_proxy p" "wf_proxy (p\<lparr>p_fieldOut := n\<rparr>) = wf_proxy p"
  "wf_proxy (p\<lparr>p_shares := n\<rparr>) = wf_proxy p" "wf_proxy (p\<lparr>p_targetSince := t\<rparr>) = wf_proxy p"
  "wf_proxy (p\<lparr>p_targetShare := n\<rparr>) = wf_proxy p" "wf_proxy (p\<lparr>p_miniResult := n\<rparr>) = wf_proxy p"
  "wf_proxy (p\<lparr>p_miniNonce := m\<rparr>) = wf_proxy p" "wf_proxy (p\<lparr>p_lastSend := t\<rparr>) = wf_proxy p"
  by (simp_all add: wf_proxy_def proxy_ok_def)

lemma wf_proxy_conn [simp]:
  "wf_proxy (p\<lparr>p_Conn := c\<rparr>) \<longleftrightarrow> proxy_ok p \<and> (\<forall>d. c = Some d \<longrightarrow> conn_inv d)"
  by (simp add: wf_proxy_def proxy_ok_def)

lemma wf_proxy_ok: "wf_proxy p \<Longrightarrow> proxy_ok p"
  by (simp add: wf_proxy_def)

lemma wf_NewProxy [simp]: "wf_proxy (NewProxy n now prev)"
  by (simp add: wf_proxy_def proxy_ok_def NewProxy_def target_ok_def)

text \<open>Steps that change one proxy but not its miner, one miner, or neither.\<close>

lemma wf_worldD: "wf_world w \<Longrightarrow> wf_proxy (w_proxies w i)" "wf_world w \<Longrightarrow> wf_worker w i"
  by (simp_all add: wf_world_def)

lemma wf_upd_proxy:
  assumes "wf_world w" and "wf_proxy (f (w_proxies w i))"
    and "p_worker (f (w_proxies w i)) = p_worker (w_proxies w i) \<or> p_worker (f (w_proxies w i)) = None"
  shows "wf_world (upd_proxy i f w)"
  unfolding wf_world_def
proof (intro allI conjI)
  fix j
  show "wf_proxy (w_proxies (upd_proxy i f w) j)" using assms(1,2) by (simp add: wf_world_def)
  show "wf_worker (upd_proxy i f w) j"
    using wf_worldD(2) [OF assms(1), of j] assms(3) by (cases "j = i") (auto simp: wf_worker_def)
qed

lemma wf_upd_worker:
  assumes "wf_world w" and "wk_p (g (w_workers w k)) = wk_p (w_workers w k) \<or> wk_p (g (w_workers w k)) = None"
  shows "wf_world (upd_worker k g w)"
  unfolding wf_world_def
proof (intro allI conjI)
  fix j
  show "wf_proxy (w_proxies (upd_worker k g w) j)" using assms(1) by (simp add: wf_world_def)
  show "wf_worker (upd_worker k g w) j"
    using wf_worldD(2) [OF assms(1), of j] assms(2) by (cases "j = k") (auto simp: wf_worker_def)
qed

lemma wf_world_other:
  "wf_world w \<Longrightarrow> w_proxies v = w_proxies w \<Longrightarrow> w_workers v = w_workers w \<Longrightarrow> wf_world v"
  by (simp add: wf_world_def wf_worker_def)

lemma wf_removeProxy: "wf_world w \<Longrightarrow> wf_world (removeProxy i w)"
  by (rule wf_world_other) simp_all

lemma wf_close_worker_of: "wf_world w \<Longrightarrow> wf_world (close_worker_of i w)"
  by (auto simp: close_worker_of_def worker_Close_def intro: wf_upd_worker split: option.split)

lemma wf_conn_Close: "conn_inv c \<Longrightarrow> conn_Close c = Ret d \<Longrightarrow> conn_inv d"
  using conn.close_total [of c] by auto

subsection \<open>Operations\<close>

text \<open>Every outcome that is a world is well-formed; for operations with a result, the second part.\<close>

definition wf_out :: "world go \<Rightarrow> bool" where
  "wf_out m \<longleftrightarrow> (\<forall>v. m = Ret v \<longrightarrow> wf_world v)"

definition wf_val :: "('a \<times> world) go \<Rightarrow> bool" where
  "wf_val m \<longleftrightarrow> (\<forall>r v. m = Ret (r, v) \<longrightarrow> wf_world v)"

lemma wf_out_simps [simp]:
  "wf_out (Ret w) = wf_world w" "wf_out Panic" "wf_out Deadlock" "wf_out Exit"
  "wf_val (Ret (r, w)) = wf_world w" "wf_val Panic" "wf_val Deadlock" "wf_val Exit"
  by (simp_all add: wf_out_def wf_val_def)

lemma wf_bind: "wf_out m \<Longrightarrow> (\<And>u. wf_world u \<Longrightarrow> wf_out (f u)) \<Longrightarrow> wf_out (go_bind m f)"
  by (cases m) simp_all

lemma wf_bind_val: "wf_out m \<Longrightarrow> (\<And>u. wf_world u \<Longrightarrow> wf_val (f u)) \<Longrightarrow> wf_val (go_bind m f)"
  by (cases m) simp_all

lemma wf_val_bind: "wf_val m \<Longrightarrow> (\<And>r u. wf_world u \<Longrightarrow> wf_val (f (r, u))) \<Longrightarrow> wf_val (go_bind m f)"
  by (cases m) auto

lemma wf_pure_bind: "(\<And>x. m = Ret x \<Longrightarrow> wf_out (f x)) \<Longrightarrow> wf_out (go_bind m f)"
  by (cases m) simp_all

lemma wf_pure_bind_val: "(\<And>x. m = Ret x \<Longrightarrow> wf_val (f x)) \<Longrightarrow> wf_val (go_bind m f)"
  by (cases m) simp_all

lemma wf_close_conn: "wf_world w \<Longrightarrow> wf_out (close_conn_of i w)"
proof (cases "p_Conn (w_proxies w i)")
  case (Some c)
  assume w: "wf_world w"
  then have c: "conn_inv c" "proxy_ok (w_proxies w i)"
    using Some by (auto dest!: wf_worldD(1) [of _ i] simp: wf_proxy_def)
  then obtain d where "conn_Close c = Ret d" "conn_inv d" using conn.close_total by blast
  then show ?thesis using Some w c by (auto simp: close_conn_of_def intro!: wf_upd_proxy)
qed (simp add: close_conn_of_def)

lemma wf_steps:
  assumes "wf_world w"
  shows "wf_out (close_done i w)" "wf_out (close_notify i w)" "wf_out (close_submissions i w)"
    "wf_out (leave_director i w)" "wf_world (clear_pointers i w)"
    "wf_world (upd_proxy i (\<lambda>p. p\<lparr>p_Conn := None\<rparr>) w)" "wf_world (upd_proxy i (\<lambda>p. p\<lparr>p_isClosed := True\<rparr>) w)"
    "wf_world (upd_proxy i (\<lambda>p. p\<lparr>p_Conn := None, p_isClosed := True\<rparr>) w)"
  using wf_worldD(1) [OF assms, of i] wf_proxy_ok [OF wf_worldD(1) [OF assms, of i]]
  by (auto simp: close_done_def close_notify_def close_submissions_def leave_director_def clear_pointers_def
      intro!: wf_upd_proxy wf_removeProxy assms)

lemma wf_dismantle: "wf_world w \<Longrightarrow> wf_out (dismantle i w)"
  unfolding dismantle_def by (intro wf_bind) (auto intro!: wf_bind wf_steps)

lemma wf_connMu: "wf_world w \<Longrightarrow> wf_world (upd_proxy i (\<lambda>p. p\<lparr>p_connMu := b\<rparr>) w)"
  by (rule wf_upd_proxy) (auto dest: wf_worldD)

lemma wf_locked: "wf_world w \<Longrightarrow> (\<And>u. wf_world u \<Longrightarrow> wf_out (f u)) \<Longrightarrow> wf_out (locked i f w)"
  unfolding locked_def by (auto intro!: wf_bind wf_connMu)

lemma wf_locked_val: "wf_world w \<Longrightarrow> (\<And>u. wf_world u \<Longrightarrow> wf_val (f u)) \<Longrightarrow> wf_val (locked_val i f w)"
  unfolding locked_val_def by (auto intro!: wf_val_bind wf_connMu)

lemma wf_proxy_Close: "wf_world w \<Longrightarrow> wf_out (proxy_Close i w)"
  unfolding proxy_Close_def by (erule wf_locked) (auto intro!: wf_bind wf_close_conn wf_dismantle)

lemma wf_proxy_Remove: "wf_world w \<Longrightarrow> wf_out (proxy_Remove i w)"
  unfolding proxy_Remove_def Let_def
  by (erule wf_locked) (auto intro!: wf_bind wf_close_conn wf_steps)

lemma wf_pool_down: "wf_world w \<Longrightarrow> wf_out (pool_down cfg w)"
  by (simp add: pool_down_def)

lemma wf_counters:
  "wf_world w \<Longrightarrow> wf_world (w\<lparr>w_poolIsDown := n\<rparr>)" "wf_world w \<Longrightarrow> wf_world (w\<lparr>w_eofCount := n\<rparr>)"
  "wf_world w \<Longrightarrow> wf_world (w\<lparr>w_eofCount := n, w_poolIsDown := m\<rparr>)"
  by (erule wf_world_other; simp)+

lemma wf_shutdown: "wf_world w \<Longrightarrow> wf_out (shutdown cfg cl i w)"
  unfolding shutdown_def Let_def
  by (erule wf_locked)
    (auto intro!: wf_bind wf_close_conn wf_dismantle wf_pool_down wf_close_worker_of wf_counters split: option.split)

lemma wf_worker_Disconnect: "wf_world w \<Longrightarrow> wf_out (worker_Disconnect k w)"
  unfolding worker_Disconnect_def Let_def
  by (auto intro!: wf_bind wf_upd_worker wf_proxy_Remove split: option.split)

lemma wf_worker_RemoveProxy: "wf_world w \<Longrightarrow> wf_out (worker_RemoveProxy k w)"
  unfolding worker_RemoveProxy_def
  by (auto intro!: wf_bind wf_upd_worker wf_proxy_Close split: option.split)

lemma wf_broadcastJob: "wf_world w \<Longrightarrow> wf_out (broadcastJob i w)"
  unfolding broadcastJob_def
  by (erule wf_locked) (auto simp: worker_NewJob_def intro!: wf_upd_worker wf_worker_Disconnect split: option.split)

lemma wf_handleJob: "wf_world w \<Longrightarrow> job_wf j \<Longrightarrow> wf_out (handleJob j now i w)"
  unfolding handleJob_def
  by (intro wf_broadcastJob wf_upd_proxy) (auto dest!: wf_worldD(1) [of _ i] simp: wf_proxy_def proxy_ok_def adopt_job_def)

lemma broadcastJob_no_panic: "wf_world w \<Longrightarrow> broadcastJob i w \<noteq> Panic"
proof -
  assume w: "wf_world w"
  have "proxy_Remove i u = Deadlock" if "p_connMu (w_proxies u i)" for u
    using that by (simp add: proxy_Remove_def locked_def)
  then show ?thesis
    using wf_worldD(2) [OF w, of i]
    by (auto simp: broadcastJob_def locked_def go_bind_eq_Panic_iff worker_NewJob_def worker_Disconnect_def Let_def
        wf_worker_def split: option.splits if_splits)
qed

lemma handleJob_no_panic:
  assumes "wf_world w" and "job_wf j"
  shows "handleJob j now i w \<noteq> Panic"
  unfolding handleJob_def
  by (rule broadcastJob_no_panic, rule wf_upd_proxy)
    (use assms wf_worldD(1) [OF assms(1), of i] in \<open>auto simp: wf_proxy_def proxy_ok_def adopt_job_def\<close>)

lemma wf_complete_job:
  assumes "wf_world w" and "length d = 32"
  shows "wf_out (complete_job conv now nonce jid d i w)
    \<and> complete_job conv now nonce jid d i w \<noteq> Panic"
proof -
  have p: "wf_proxy (w_proxies w i)" using assms(1) by (rule wf_worldD)
  obtain t s m j where
    cj: "complete_job conv now nonce jid d i w =
      (let r = (w_proxies w i)\<lparr>p_recvByte := take 32 (p_recvByte (w_proxies w i)) @ d,
         p_target := t, p_targetSince := s, p_targetShare := m\<rparr>
       in if p_currentJob (w_proxies w i) = empty_job \<or>
             take 16 (j_currentBlob (p_currentJob (w_proxies w i))) \<noteq> take 16 (p_recvByte (w_proxies w i))
          then handleJob j now i (upd_proxy i (\<lambda>_. r) w) else Ret (upd_proxy i (\<lambda>_. r) w))"
    and j: "target_ok t" "job_wf j"
    using complete_job_eq [OF wf_proxy_ok [OF p] assms(2)] by blast
  let ?r = "(w_proxies w i)\<lparr>p_recvByte := take 32 (p_recvByte (w_proxies w i)) @ d,
      p_target := t, p_targetSince := s, p_targetShare := m\<rparr>"
  have "wf_proxy ?r" using p assms(2) j(1) by (simp add: wf_proxy_def proxy_ok_def)
  then have "wf_world (upd_proxy i (\<lambda>_. ?r) w)" using assms(1) by (intro wf_upd_proxy) simp_all
  then show ?thesis using wf_handleJob [OF _ j(2)] handleJob_no_panic [OF _ j(2)] by (auto simp: cj Let_def)
qed

lemma wf_handleNotification:
  assumes "wf_world w"
  shows "wf_out (handleNotification cfg conv now nonce jid d i w)"
    and "p_address (w_proxies w i) \<noteq> detectProxy \<Longrightarrow> handleNotification cfg conv now nonce jid d i w \<noteq> Panic"
proof -
  let ?h = "handleNotification cfg conv now nonce jid d i w"
  let ?p = "w_proxies w i"
  let ?d = "go_copy (replicate 32 0) d :: byte list"
  have p: "wf_proxy ?p" using assms by (rule wf_worldD)
  have len: "length ?d = 32" by simp
  have tail: "slice ?d 24 32 = Ret (drop 24 ?d)" "be_uint64 (drop 24 ?d) = Ret (be_get (drop 24 ?d))"
    using len field_tail [OF len] by (simp_all add: be_uint64_def)
  obtain a where a: "Hash2address ?d = Ret a" using address_of_field [OF len] by blast
  let ?w = "upd_proxy i (\<lambda>p. p\<lparr>p_fieldIn := p_fieldIn p + 1, p_recvCount := 0\<rparr>) w"
  have zero: "wf_world ?w"
    using assms p by (intro wf_upd_proxy) (simp_all add: wf_proxy_def proxy_ok_def)
  have skip: "wf_world (upd_proxy i (\<lambda>p. p\<lparr>p_fieldIn := p_fieldIn p + 1\<rparr>) w)"
    using assms p by (intro wf_upd_proxy) simp_all
  consider "a = p_address ?p" | "a \<noteq> p_address ?p" "p_recvCount ?p = 0" | "a \<noteq> p_address ?p" "p_recvCount ?p = 1"
    using p by (force simp: wf_proxy_def proxy_ok_def)
  then have "wf_out ?h \<and> (p_address ?p \<noteq> detectProxy \<longrightarrow> ?h \<noteq> Panic)"
  proof cases
    case 1
    with a zero show ?thesis by (simp add: handleNotification_def Let_def)
  next
    case 2
    have "wf_world (upd_proxy i (\<lambda>p. p\<lparr>p_fieldIn := p_fieldIn p + 1, p_recvCount := Suc (p_recvCount p),
        p_recvByte := copy_at 0 32 (p_recvByte p) ?d\<rparr>) w)"
      using assms p 2(2) by (intro wf_upd_proxy) (simp_all add: wf_proxy_def proxy_ok_def)
    with 2 a tail skip show ?thesis by (auto simp: handleNotification_def Let_def)
  next
    case 3
    then have "?h = (if p_address ?p = detectProxy then shutdown cfg (-1) i (?w\<lparr>w_poolIsDown := 0\<rparr>)
        else complete_job conv now nonce jid ?d i ?w)"
      using a by (simp add: handleNotification_def Let_def)
    then show ?thesis
      using wf_complete_job [OF zero len, of conv now nonce jid i] wf_shutdown wf_counters(1) [OF zero] by auto
  qed
  then show "wf_out ?h" "p_address ?p \<noteq> detectProxy \<Longrightarrow> ?h \<noteq> Panic" by blast+
qed

subsection \<open>Shares\<close>

text \<open>What becomes of a proxy's well-formedness and miner.\<close>

definition same_miner :: "proxy \<Rightarrow> proxy \<Rightarrow> bool" where
  "same_miner p q \<longleftrightarrow> wf_proxy q \<and> p_worker q = p_worker p \<and> p_currentJob q = p_currentJob p"

lemma wf_upd_same_miner: "wf_world w \<Longrightarrow> same_miner (w_proxies w i) q \<Longrightarrow> wf_world (upd_proxy i (\<lambda>_. q) w)"
  by (rule wf_upd_proxy) (simp_all add: same_miner_def)

lemma SendFrame_wf:
  assumes "wf_proxy p"
  shows "SendFrame d p = Ret q \<Longrightarrow> same_miner p q" and "p_Conn p \<noteq> None \<Longrightarrow> SendFrame d p \<noteq> Panic"
  using assms wf_proxy_ok [OF assms]
  by (auto simp: SendFrame_def SendBuffMsg_cases same_miner_def wf_proxy_def proxy_ok_def split: option.splits if_splits)

lemma share_bytes_ok:
  assumes "length (j_currentBlob (p_currentJob p)) = 64"
  shows "CreateShare s p \<noteq> Panic" "MakeShare r n p \<noteq> Panic"
  using assms by (simp_all add: CreateShare_def MakeShare_def slice_def Let_def)

lemma pool_submit_wf:
  assumes "wf_proxy p" and "pool_submit now s p = Ret q"
  shows "same_miner p q"
proof -
  have send: "same_miner p (r\<lparr>p_miniResult := x, p_lastSend := t\<rparr>)"
    if "SendFrame d (p\<lparr>p_fieldOut := n\<rparr>) = Ret r" for d n r x t
    using SendFrame_wf(1) [OF _ that] assms(1) by (simp add: same_miner_def)
  show ?thesis
    using assms send by (auto simp: pool_submit_def Let_def go_bind_eq_Ret_iff same_miner_def split: if_splits)
qed

lemma pool_submit_no_panic:
  assumes "wf_proxy p" and "well_formed_share s" and "p_Conn p \<noteq> None"
    and "length (j_currentBlob (p_currentJob p)) = 64"
  shows "pool_submit now s p \<noteq> Panic"
proof -
  let ?r = "fst (hex_decode (s_Result s))" and ?n = "fst (hex_decode (s_Nonce s))"
  have len: "length ?r = 32" "length ?n = 4" using assms(2) by (simp_all add: well_formed_share_def)
  have r: "slice ?r (int (length ?r) - 8) (int (length ?r)) = Ret (drop 24 ?r)"
    using len by (simp add: slice_def)
  have lr: "le_uint64 (drop 24 ?r) = Ret (le_get (drop 24 ?r))" using len by (simp add: le_uint64_def)
  have ln: "le_uint32 ?n = Ret (le_get ?n)" using len by (simp add: le_uint32_def)
  have "SendFrame d (p\<lparr>p_fieldOut := n\<rparr>) \<noteq> Panic" for d n
    using SendFrame_wf(2) [of "p\<lparr>p_fieldOut := n\<rparr>"] assms(1,3) by simp
  then show ?thesis
    using share_bytes_ok [OF assms(4)] by (auto simp: pool_submit_def Let_def r lr ln go_bind_eq_Panic_iff)
qed

lemma count_share_wf:
  assumes "wf_proxy p"
  shows "\<exists>q. count_share conv now p = Ret q \<and> same_miner p q"
proof -
  have "target_ok (p_target p)" using assms by (simp add: wf_proxy_def proxy_ok_def)
  from count_share_eq [OF this] obtain t s m where "count_share conv now p =
      Ret (p\<lparr>p_shares := p_shares p + 1, p_target := t, p_targetSince := s, p_targetShare := m\<rparr>)" "target_ok t"
    by blast
  then show ?thesis using assms by (auto simp: same_miner_def wf_proxy_def proxy_ok_def)
qed

lemma same_miner_trans: "same_miner p q \<Longrightarrow> same_miner q r \<Longrightarrow> same_miner p r"
  by (simp add: same_miner_def)

lemma judge_share_wf:
  assumes "wf_proxy p"
  shows "judge_share cfg conv now s p = Ret (r, q) \<Longrightarrow> same_miner p q"
    and "2 \<le> ShareValidation cfg \<Longrightarrow> s_JobID s \<noteq> [] \<Longrightarrow> judge_share cfg conv now s p \<noteq> Panic"
proof -
  have refl: "same_miner p p" using assms by (simp add: same_miner_def)
  obtain q0 where q0: "count_share conv now p = Ret q0" "same_miner p q0" using count_share_wf [OF assms] by blast
  have two: "same_miner p y" if "pool_submit now s p = Ret x" "count_share conv now x = Ret y" for x y
  proof -
    have x: "same_miner p x" by (rule pool_submit_wf [OF assms that(1)])
    then obtain z where "count_share conv now x = Ret z" "same_miner x z"
      using count_share_wf [of x] by (auto simp: same_miner_def)
    with that(2) x same_miner_trans show ?thesis by auto
  qed
  show "judge_share cfg conv now s p = Ret (r, q) \<Longrightarrow> same_miner p q"
    using refl q0 two by (auto simp: judge_share_def go_bind_eq_Ret_iff split: if_splits option.splits)
  assume level: "2 \<le> ShareValidation cfg" and jid: "s_JobID s \<noteq> []"
  show "judge_share cfg conv now s p \<noteq> Panic"
  proof (cases "p_Conn p \<noteq> None \<and> \<not> has_prefix fakePrefix (s_JobID s) \<and> s_JobID s = j_ID (p_currentJob p)
      \<and> validateShare cfg s p = None")
    case False
    with q0 show ?thesis by (auto simp: judge_share_def split: option.split)
  next
    case True
    then have "p_currentJob p \<noteq> empty_job" using jid by (auto simp: empty_job_def)
    then have blob: "length (j_currentBlob (p_currentJob p)) = 64" by (rule proxy_ok_blob [OF wf_proxy_ok [OF assms]])
    have "validateFormat s = None" using True level by (auto simp: validateShare_def share_validate_eq split: if_splits)
    then have "well_formed_share s" by (simp add: validateFormat_iff)
    then have np: "pool_submit now s p \<noteq> Panic" using pool_submit_no_panic [OF assms _ _ blob] True by blast
    have "count_share conv now x \<noteq> Panic" if "pool_submit now s p = Ret x" for x
      using count_share_wf [of x conv now] pool_submit_wf [OF assms that] by (auto simp: same_miner_def)
    with np q0 show ?thesis by (auto simp: judge_share_def go_bind_eq_Panic_iff split: option.split)
  qed
qed

lemma wf_handleSubmit:
  assumes "wf_world w"
  shows "wf_val (handleSubmit cfg conv now s i w)"
    and "2 \<le> ShareValidation cfg \<Longrightarrow> s_JobID s \<noteq> [] \<Longrightarrow> handleSubmit cfg conv now s i w \<noteq> Panic"
proof -
  show "wf_val (handleSubmit cfg conv now s i w)"
    unfolding handleSubmit_def
    by (rule wf_locked_val [OF assms])
      (auto intro!: wf_pure_bind_val wf_upd_same_miner dest: judge_share_wf(1) [OF wf_worldD(1)])
  have "wf_proxy ((w_proxies w i)\<lparr>p_connMu := True\<rparr>)" using wf_worldD(1) [OF assms] by simp
  from judge_share_wf(2) [OF this]
  show "2 \<le> ShareValidation cfg \<Longrightarrow> s_JobID s \<noteq> [] \<Longrightarrow> handleSubmit cfg conv now s i w \<noteq> Panic"
    by (auto simp: handleSubmit_def locked_val_def go_bind_eq_Panic_iff)
qed

subsection \<open>The server\<close>

lemma wf_connect: "wf_world w \<Longrightarrow> wf_val (connect cfg dial name i w)"
  unfolding connect_def
proof (erule wf_locked_val)
  fix u assume u: "wf_world u"
  have "same_miner (w_proxies u i) q" if "log_in name (w_proxies u i) = Ret q" for q
    using log_in_eq [of "w_proxies u i" name] wf_worldD(1) [OF u, of i] that
    by (auto simp: same_miner_def wf_proxy_def proxy_ok_def)
  then show "wf_val (if p_isClosed (w_proxies u i) then Ret (Some (ErrText ''using closed proxy error''), u)
     else
       case dial (if 11 < length (Socks5 cfg) then ViaSocks5 (Socks5 cfg) (PoolAddr cfg)
                  else DialDirect (PoolAddr cfg)) of
         Some err \<Rightarrow> Ret (Some err, u)
       | None \<Rightarrow> go_bind (log_in name (w_proxies u i)) (\<lambda>p. Ret (None, upd_proxy i (\<lambda>_. p) u)))"
    using u by (auto intro!: wf_pure_bind_val wf_upd_same_miner split: option.split)
qed

lemma SetAddress_wf: "SetAddress a p = (e, q) \<Longrightarrow> wf_proxy p \<Longrightarrow> same_miner p q"
  by (auto simp: SetAddress_def same_miner_def wf_proxy_def proxy_ok_def split: sum.splits if_splits)

lemma wf_set_worker_address: "wf_world w \<Longrightarrow> wf_val (set_worker_address k a w)"
  by (auto simp: set_worker_address_def intro!: wf_upd_same_miner dest: SetAddress_wf wf_worldD(1)
      split: option.split prod.split)

lemma wf_Login:
  assumes "wf_world w" and "Login fake k ps w = Ret (r, e, n, v)"
  shows "wf_world v"
proof -
  obtain k' where k': "getWorker k ps = Ret k'"
    using assms(2) by (auto simp: Login_def go_bind_eq_Ret_iff)
  have remove: "wf_world u'" if "worker_RemoveProxy k' u = Ret u'" "wf_world u" for u u'
    using wf_worker_RemoveProxy [OF that(2), of k'] that(1) by (simp add: wf_out_def)
  show ?thesis
  proof (cases "0 < w_poolIsDown w")
    case True
    with assms k' show ?thesis by (auto simp: Login_def go_bind_eq_Ret_iff dest: remove)
  next
    case False
    then obtain err u where u: "(case ps ''login'' of
          Some a \<Rightarrow> go_bind (as_string a) (\<lambda>a. set_worker_address k' a w)
        | None \<Rightarrow> Ret (Some (ErrText ''no login param''), w)) = Ret (err, u)"
      and v: "worker_RemoveProxy k' u = Ret v \<or> v = u"
      using assms k' by (auto simp: Login_def go_bind_eq_Ret_iff Let_def split: option.splits if_splits)
    have "wf_world u"
      using u assms(1) wf_set_worker_address [OF assms(1), of k']
      by (auto simp: go_bind_eq_Ret_iff wf_val_def split: option.splits)
    with v show ?thesis by (auto dest: remove)
  qed
qed

lemma wf_Getjob:
  assumes "wf_world w" and "Getjob k ps w = Ret (j, v)"
  shows "wf_world v"
proof -
  have "same_miner (w_proxies w i) (snd (NextJob (w_proxies w i))\<lparr>p_currentJob := p_currentJob (w_proxies w i)\<rparr>)"
    and "wf_proxy (snd (NextJob (w_proxies w i)))" for i
    using wf_worldD(1) [OF assms(1), of i]
    by (auto simp: NextJob_def Let_def same_miner_def wf_proxy_def proxy_ok_def job_Next_wf)
  then show ?thesis
    using assms by (auto simp: Getjob_def go_bind_eq_Ret_iff NextJob_def Let_def intro!: wf_upd_proxy split: option.splits)
qed

lemma wf_SpawnWorker:
  assumes "wf_world w" and "SpawnWorker now prev w = (k, v)"
  shows "wf_world v"
  unfolding wf_world_def
proof (intro allI conjI)
  fix j
  note defs = SpawnWorker_def NextProxy_def addProxy_def nextProxyID_def proxy_Add_def Let_def upd_worker_def upd_proxy_def
  have "wf_proxy ((NewProxy n now prev)\<lparr>p_director := True, p_worker := x\<rparr>)" for n x by simp
  then show "wf_proxy (w_proxies v j)"
    using assms wf_worldD(1) [OF assms(1), of j] by (auto simp: defs)
  show "wf_worker v j"
    using assms(2) wf_worldD(2) [OF assms(1), of j] by (auto simp: defs wf_worker_def split: if_splits)
qed

lemma wf_server_init: "server_init w \<Longrightarrow> wf_world w"
proof -
  assume "server_init w"
  then have "\<exists>now prev. w_proxies w j = (if j = 0 then detect_proxy now prev else NewProxy 0 now prev)" for j
    by (simp add: server_init_def)
  moreover have "wf_proxy (detect_proxy now prev)" "p_worker (detect_proxy now prev) = None"
      "p_worker (NewProxy 0 now prev) = None" for now prev
    using wf_NewProxy [of 0 now prev]
    by (simp_all add: detect_proxy_def wf_proxy_def proxy_ok_def) (simp_all add: NewProxy_def)
  ultimately have "wf_proxy (w_proxies w j) \<and> p_worker (w_proxies w j) = None" for j
    by (metis (full_types) wf_NewProxy)
  then show ?thesis by (simp add: wf_world_def wf_worker_def)
qed

lemma wf_server_step:
  assumes "server_step w v" and w: "wf_world w"
  shows "wf_world v"
  using assms(1)
proof cases
  case (step_accept now prev k)
  then show ?thesis by (rule wf_SpawnWorker [OF w])
next
  case (step_login fake k ps r e n)
  then show ?thesis by (rule wf_Login [OF w])
next
  case (step_getjob k ps j)
  then show ?thesis by (rule wf_Getjob [OF w])
next
  case (step_connect cfg dial name i e)
  then show ?thesis using wf_connect [OF w] by (simp add: wf_val_def)
next
  case (step_field cfg conv now nonce jid d i)
  then show ?thesis using wf_handleNotification(1) [OF w] by (simp add: wf_out_def)
next
  case (step_share cfg conv now s i rep)
  then show ?thesis using wf_handleSubmit(1) [OF w] by (simp add: wf_val_def)
next
  case (step_shutdown cfg cl i)
  then show ?thesis using wf_shutdown [OF w] by (simp add: wf_out_def)
next
  case (step_disconnect k)
  then show ?thesis using wf_worker_Disconnect [OF w] by (simp add: wf_out_def)
next
  case (step_stats st)
  then show ?thesis by (intro wf_world_other [OF w]) (auto simp: GetStats_def Let_def split: prod.splits)
next
  case (step_detect cfg b)
  have "wf_proxy (w_proxies w 0)" by (rule wf_worldD [OF w])
  then have "wf_world (upd_proxy 0 (\<lambda>p. p\<lparr>p_fieldIn := 0, p_fieldOut := 0, p_recvCount := 0, p_isClosed := False\<rparr>)
      (w\<lparr>w_eofCount := 0, w_PoolDown := 0\<rparr>))"
    by (intro wf_upd_proxy wf_world_other [OF w]) (simp_all add: wf_proxy_def proxy_ok_def)
  with step_detect w show ?thesis by (auto simp: detect_tick_def split: if_splits)
qed

interpretation well_formed: invariant_system server_init server_step wf_world
  using wf_server_init wf_server_step by unfold_locales

subsection \<open>Properties\<close>

text \<open>
  C5: In every state the server can reach, every proxy is well-formed: its account hash has 24 bytes,
  its field buffer 64, its target is empty or eight hex digits, its job is empty or has a 64-byte
  blob whose hex form and nonce are those it announces. Therefore no field of the pool, of whatever
  length, makes \<open>handleNotification\<close> panic; and no share whose job id is not empty makes
  \<open>handleSubmit\<close> panic, provided shares are validated at level 2 or more, as by default.
\<close>

theorem handlers_never_panic:
  assumes "reach server_init server_step w"
  shows "proxy_ok (w_proxies w i)
    \<and> handleNotification cfg conv now nonce jid d i w \<noteq> Panic
    \<and> (2 \<le> ShareValidation cfg \<and> s_JobID s \<noteq> [] \<longrightarrow> handleSubmit cfg conv now s i w \<noteq> Panic)"
proof -
  have wf: "wf_world w" by (rule well_formed.reach_inv [OF assms])
  have "p_address (w_proxies w i) \<noteq> detectProxy"
    using server.reach_inv [OF assms] by (simp add: no_detect_def)
  then show ?thesis
    using wf_handleNotification(2) [OF wf] wf_handleSubmit(2) [OF wf] wf_proxy_ok [OF wf_worldD(1) [OF wf]] by blast
qed

theorem handlers_never_panic_witness:
  "handleSubmit default_config (\<lambda>_. 0) 0 (demo_share ''job1'' 5 11) 0
     (demo_base\<lparr>w_proxies := (\<lambda>j. if j = 0 then detect_proxy 0 [] else NewProxy 0 0 [])\<rparr>) \<noteq> Panic"
proof -
  let ?w = "demo_base\<lparr>w_proxies := (\<lambda>j. if j = 0 then detect_proxy 0 [] else NewProxy 0 0 [])\<rparr>"
  have "reach server_init server_step ?w"
    by (rule reach_init) (auto simp: server_init_def demo_base_def)
  from handlers_never_panic [OF this] show ?thesis
    by (simp add: default_config_def zero_config_def)
qed

end
