(* ===== verification/ProxyConc.thy ===== *)
theory ProxyConc
  imports Session
begin

text \<open>
  The goroutines of one proxy (\<open>server/proxy/proxy.go\<close>): \<open>Run\<close>, one for each login of the miner, the
  miner's requests in \<open>Submit\<close>, and \<open>Close\<close> and \<open>Remove\<close> from elsewhere, as a step relation. \<open>Submit\<close> takes \<open>connMu\<close>,
  hands its share to \<open>Run\<close> over the channel \<open>submissions\<close>, which has no buffer, and waits for the
  response with the mutex held. \<open>Run\<close> handles what it receives by the operations of theory Proxy; one
  that returns \<open>Deadlock\<close> is a goroutine that waits for the mutex, and has no step.

  The response and error channels of a share have room for one value each, so answering never waits.
\<close>

subsection \<open>The system\<close>

datatype submitter = SIdle | SSending share | SWaiting share | SReplied reply

datatype runner = RSelect | RShare nat share | RField "byte list" | RDone int | RGone

record conc =
  cc_world :: world
  cc_sub :: "nat \<Rightarrow> submitter"
  cc_run :: "nat \<Rightarrow> runner"

definition lock_proxy :: "u64 \<Rightarrow> world \<Rightarrow> world" where
  "lock_proxy i w = upd_proxy i (\<lambda>p. p\<lparr>p_connMu := True\<rparr>) w"

definition unlock_proxy :: "u64 \<Rightarrow> world \<Rightarrow> world" where
  "unlock_proxy i w = upd_proxy i (\<lambda>p. p\<lparr>p_connMu := False\<rparr>) w"

text \<open>
  \<open>Submit\<close> of request \<open>n\<close> in three steps: its checks under the mutex, after which it has been
  refused or is about to send; the send, which needs \<open>Run\<close> to receive; and the response.
\<close>

inductive conc_step :: "config \<Rightarrow> (f64 \<Rightarrow> u64) \<Rightarrow> u64 \<Rightarrow> conc \<Rightarrow> conc \<Rightarrow> bool" for cfg conv i where
  conc_refuse: "cc_sub s n = SIdle \<Longrightarrow> \<not> p_connMu (w_proxies (cc_world s) i) \<Longrightarrow>
     submit_request ps (w_proxies (cc_world s) i) = Ret (Inl e) \<Longrightarrow>
     conc_step cfg conv i s (s\<lparr>cc_sub := (cc_sub s)(n := SReplied (ReplyError e))\<rparr>)"
| conc_lock: "cc_sub s n = SIdle \<Longrightarrow> \<not> p_connMu (w_proxies (cc_world s) i) \<Longrightarrow>
     submit_request ps (w_proxies (cc_world s) i) = Ret (Inr sh) \<Longrightarrow>
     conc_step cfg conv i s (s\<lparr>cc_world := lock_proxy i (cc_world s), cc_sub := (cc_sub s)(n := SSending sh)\<rparr>)"
| conc_send: "cc_sub s n = SSending sh \<Longrightarrow> cc_run s g = RSelect \<Longrightarrow>
     conc_step cfg conv i s (s\<lparr>cc_sub := (cc_sub s)(n := SWaiting sh), cc_run := (cc_run s)(g := RShare n sh)\<rparr>)"
| conc_share: "cc_run s g = RShare n sh \<Longrightarrow> handleSubmit cfg conv now sh i (cc_world s) = Ret (NoReply, v) \<Longrightarrow>
     conc_step cfg conv i s (s\<lparr>cc_world := v, cc_run := (cc_run s)(g := RSelect)\<rparr>)"
| conc_answer: "cc_run s g = RShare n sh \<Longrightarrow> handleSubmit cfg conv now sh i (cc_world s) = Ret (r, v) \<Longrightarrow>
     r \<noteq> NoReply \<Longrightarrow> cc_sub s n = SWaiting sh \<Longrightarrow>
     conc_step cfg conv i s (s\<lparr>cc_world := unlock_proxy i v,
       cc_sub := (cc_sub s)(n := SReplied r), cc_run := (cc_run s)(g := RSelect)\<rparr>)"
| conc_receive: "cc_run s g = RSelect \<Longrightarrow> conc_step cfg conv i s (s\<lparr>cc_run := (cc_run s)(g := RField d)\<rparr>)"
| conc_field: "cc_run s g = RField d \<Longrightarrow>
     handleNotification cfg conv now nonce jid d i (cc_world s) = Ret v \<Longrightarrow>
     conc_step cfg conv i s (s\<lparr>cc_world := v, cc_run := (cc_run s)(g := RSelect)\<rparr>)"
| conc_done: "cc_run s g = RSelect \<Longrightarrow> conc_step cfg conv i s (s\<lparr>cc_run := (cc_run s)(g := RDone cl)\<rparr>)"
| conc_shutdown: "cc_run s g = RDone cl \<Longrightarrow> shutdown cfg cl i (cc_world s) = Ret v \<Longrightarrow>
     conc_step cfg conv i s (s\<lparr>cc_world := v, cc_run := (cc_run s)(g := RGone)\<rparr>)"
| conc_getjob: "conc_step cfg conv i s
     (s\<lparr>cc_world := upd_proxy i (\<lambda>p. snd (NextJob p)) (cc_world s)\<rparr>)"
| conc_close: "proxy_Close i (cc_world s) = Ret v \<Longrightarrow> conc_step cfg conv i s (s\<lparr>cc_world := v\<rparr>)"
| conc_remove: "proxy_Remove i (cc_world s) = Ret v \<Longrightarrow> conc_step cfg conv i s (s\<lparr>cc_world := v\<rparr>)"

definition conc_init :: "u64 \<Rightarrow> conc \<Rightarrow> bool" where
  "conc_init i s \<longleftrightarrow> (\<forall>n. cc_sub s n = SIdle) \<and> (\<forall>g. cc_run s g \<in> {RSelect, RGone}) \<and> \<not> p_connMu (w_proxies (cc_world s) i)"

subsection \<open>Who holds the mutex\<close>

text \<open>The request that holds the mutex is sending or waiting; \<open>Run\<close> has a share only from one that waits.\<close>

definition holds_mutex :: "submitter \<Rightarrow> bool" where
  "holds_mutex x \<longleftrightarrow> (\<exists>sh. x = SSending sh \<or> x = SWaiting sh)"

definition conc_inv :: "u64 \<Rightarrow> conc \<Rightarrow> bool" where
  "conc_inv i s \<longleftrightarrow>
     (p_connMu (w_proxies (cc_world s) i) \<longleftrightarrow> (\<exists>n. holds_mutex (cc_sub s n))) \<and>
     (\<forall>m n. holds_mutex (cc_sub s m) \<longrightarrow> holds_mutex (cc_sub s n) \<longrightarrow> m = n) \<and>
     (\<forall>n sh. (\<exists>g. cc_run s g = RShare n sh) \<longleftrightarrow> cc_sub s n = SWaiting sh) \<and>
     (\<forall>n r. cc_sub s n = SReplied r \<longrightarrow> (\<exists>e. r = ReplyError e))"

lemma holds_mutex_simps [simp]:
  "\<not> holds_mutex SIdle" "holds_mutex (SSending sh)" "holds_mutex (SWaiting sh)" "\<not> holds_mutex (SReplied r)"
  by (simp_all add: holds_mutex_def)

lemma NextJob_connMu [simp]: "p_connMu (snd (NextJob p)) = p_connMu p"
  by (simp add: NextJob_def Let_def)

lemma lock_simps [simp]:
  "p_connMu (w_proxies (lock_proxy i w) i)" "\<not> p_connMu (w_proxies (unlock_proxy i w) i)"
  by (simp_all add: lock_proxy_def unlock_proxy_def)

text \<open>What takes the mutex waits while it is held, and gives it back.\<close>

lemma mutex_waits:
  assumes "p_connMu (w_proxies w i)"
  shows "handleSubmit cfg conv now sh i w = Deadlock" "shutdown cfg cl i w = Deadlock"
    "proxy_Close i w = Deadlock" "proxy_Remove i w = Deadlock" "broadcastJob i w = Deadlock"
  using assms
  by (simp_all add: handleSubmit_def locked_val_def shutdown_def locked_def proxy_Close_def
      proxy_Remove_def broadcastJob_def)

lemma locked_released: "locked i f w = Ret v \<Longrightarrow> \<not> p_connMu (w_proxies v i)"
  by (auto simp: locked_def go_bind_eq_Ret_iff split: if_splits)

lemma ending_released:
  "shutdown cfg cl i w = Ret v \<Longrightarrow> \<not> p_connMu (w_proxies v i)"
  "proxy_Close i w = Ret v \<Longrightarrow> \<not> p_connMu (w_proxies v i)"
  "proxy_Remove i w = Ret v \<Longrightarrow> \<not> p_connMu (w_proxies v i)"
  "broadcastJob i w = Ret v \<Longrightarrow> \<not> p_connMu (w_proxies v i)"
  unfolding shutdown_def proxy_Close_def proxy_Remove_def broadcastJob_def by (rule locked_released; assumption)+

lemma ending_free:
  "shutdown cfg cl i w = Ret v \<Longrightarrow> \<not> p_connMu (w_proxies w i)"
  "proxy_Close i w = Ret v \<Longrightarrow> \<not> p_connMu (w_proxies w i)"
  "proxy_Remove i w = Ret v \<Longrightarrow> \<not> p_connMu (w_proxies w i)"
  "broadcastJob i w = Ret v \<Longrightarrow> \<not> p_connMu (w_proxies w i)"
  using mutex_waits [of w i] by auto

lemma setTarget_connMu: "setTarget conv now n p = Ret q \<Longrightarrow> p_connMu q = p_connMu p"
  by (auto simp: setTarget_def go_bind_eq_Ret_iff split: option.splits)

lemma handleJob_connMu: "handleJob j now i w = Ret v \<Longrightarrow> p_connMu (w_proxies v i) = p_connMu (w_proxies w i)"
  using ending_free(4) [of i _ v] ending_released(4) [of i _ v]
  by (fastforce simp: handleJob_def adopt_job_def)

lemma complete_job_connMu:
  assumes "complete_job conv now nonce jid d i w = Ret v"
  shows "p_connMu (w_proxies v i) = p_connMu (w_proxies w i)"
proof -
  let ?p = "(w_proxies w i)\<lparr>p_recvByte := copy_at 32 64 (p_recvByte (w_proxies w i)) d\<rparr>"
  obtain q job where q: "(if of_nat (initDiffCount + 1) < p_shares ?p \<and> refreshDiffInterval \<le> now - p_targetSince ?p
        then setTarget conv now (p_shares ?p) ?p else Ret ?p) = Ret q"
    and v: "v = upd_proxy i (\<lambda>_. q) w \<or> handleJob job now i (upd_proxy i (\<lambda>_. q) w) = Ret v"
    using assms unfolding complete_job_def Let_def go_bind_eq_Ret_iff by (auto simp: go_bind_eq_Ret_iff split: if_splits)
  have "p_connMu q = p_connMu (w_proxies w i)"
    using q by (auto split: if_splits dest: setTarget_connMu)
  with v show ?thesis by (auto dest: handleJob_connMu)
qed

lemma handleNotification_connMu:
  assumes "handleNotification cfg conv now nonce jid d i w = Ret v"
  shows "p_connMu (w_proxies v i) = p_connMu (w_proxies w i)"
proof -
  let ?d = "go_copy (replicate 32 0) d"
  let ?w = "upd_proxy i (\<lambda>p. p\<lparr>p_fieldIn := p_fieldIn p + 1, p_recvCount := 0\<rparr>) w"
  obtain a where a: "Hash2address ?d = Ret a"
    using assms by (auto simp: handleNotification_def Let_def go_bind_eq_Ret_iff)
  note eq = assms [unfolded handleNotification_def Let_def a go_bind.simps]
  consider "a = p_address (w_proxies w i)" | "a \<noteq> p_address (w_proxies w i)" "p_recvCount (w_proxies w i) = 0"
    | "a \<noteq> p_address (w_proxies w i)" "p_recvCount (w_proxies w i) = 1" "p_address (w_proxies w i) = detectProxy"
    | "a \<noteq> p_address (w_proxies w i)" "p_recvCount (w_proxies w i) = 1" "p_address (w_proxies w i) \<noteq> detectProxy"
    | "a \<noteq> p_address (w_proxies w i)" "1 < p_recvCount (w_proxies w i)"
    by linarith
  then show ?thesis
  proof cases
    case 1
    with eq show ?thesis by auto
  next
    case 2
    with eq show ?thesis by (auto simp: go_bind_eq_Ret_iff split: if_splits)
  next
    case 3
    with eq have "shutdown cfg (-1) i (?w\<lparr>w_poolIsDown := 0\<rparr>) = Ret v" by simp
    from ending_free(1) [OF this] ending_released(1) [OF this] show ?thesis by simp
  next
    case 4
    with eq have "complete_job conv now nonce jid ?d i ?w = Ret v" by simp
    from complete_job_connMu [OF this] show ?thesis by simp
  next
    case 5
    with eq show ?thesis by auto
  qed
qed

lemma conc_inv_init: "conc_init i s \<Longrightarrow> conc_inv i s"
proof -
  assume ini: "conc_init i s"
  then have "cc_run s g = RSelect \<or> cc_run s g = RGone" for g by (simp add: conc_init_def)
  from this have "cc_run s g \<noteq> RShare n sh" for g n sh by (rule disjE [of "cc_run s g = RSelect"]) simp_all
  with ini show "conc_inv i s" by (auto simp: conc_init_def conc_inv_def)
qed

text \<open>A goroutine that has no share takes a turn.\<close>

lemma same_shares:
  assumes "\<And>n sh. f g \<noteq> RShare n sh" and "\<And>n sh. x \<noteq> RShare n sh"
  shows "(\<exists>h. (f(g := x)) h = RShare n sh) \<longleftrightarrow> (\<exists>h. f h = RShare n sh)"
  using assms by (metis fun_upd_other fun_upd_same)

lemma conc_inv_same_subs:
  assumes "conc_inv i s" and "cc_sub t = cc_sub s" and "\<And>n sh. (\<exists>g. cc_run t g = RShare n sh) \<longleftrightarrow> (\<exists>g. cc_run s g = RShare n sh)"
    and "p_connMu (w_proxies (cc_world t) i) = p_connMu (w_proxies (cc_world s) i)"
  shows "conc_inv i t"
  using assms(1) by (simp add: conc_inv_def assms(2-4))

lemma conc_invD:
  assumes "conc_inv i s"
  shows "holds_mutex (cc_sub s n) \<Longrightarrow> p_connMu (w_proxies (cc_world s) i)"
    and "holds_mutex (cc_sub s m) \<Longrightarrow> holds_mutex (cc_sub s n) \<Longrightarrow> m = n"
    and "(\<exists>g. cc_run s g = RShare n sh) \<longleftrightarrow> cc_sub s n = SWaiting sh"
    and "cc_sub s n = SReplied r \<Longrightarrow> \<exists>e. r = ReplyError e"
  using assms unfolding conc_inv_def by blast+

lemma conc_inv_waiting:
  "conc_inv i s \<Longrightarrow> cc_sub s n = SWaiting sh \<Longrightarrow> p_connMu (w_proxies (cc_world s) i)"
  by (rule conc_invD(1) [of i s n]) simp_all

lemma conc_inv_turn:
  assumes "conc_inv i s" and "\<And>n sh. cc_run s g \<noteq> RShare n sh" and "\<And>n sh. x \<noteq> RShare n sh"
    and "p_connMu (w_proxies v i) = p_connMu (w_proxies (cc_world s) i)"
  shows "conc_inv i (s\<lparr>cc_world := v, cc_run := (cc_run s)(g := x)\<rparr>)"
  by (rule conc_inv_same_subs [OF assms(1)])
    (simp_all add: same_shares [of "cc_run s", OF assms(2,3)] assms(4) del: fun_upd_apply)

lemma conc_inv_step:
  assumes "conc_inv i s" and "conc_step cfg conv i s t"
  shows "conc_inv i t"
  using assms(2)
proof cases
  case (conc_refuse n ps e)
  with assms(1) show ?thesis by (auto simp: conc_inv_def)
next
  case (conc_lock n ps sh)
  with assms(1) have "\<not> holds_mutex (cc_sub s m)" for m by (auto simp: conc_inv_def)
  with conc_lock assms(1) show ?thesis by (auto simp: conc_inv_def)
next
  case (conc_send n sh g)
  have held: "holds_mutex (cc_sub s n)" using conc_send(2) by simp
  have none: "cc_sub s m \<noteq> SWaiting x" for m x
    using conc_invD(2) [OF assms(1) _ held, of m] conc_send(2) by (metis holds_mutex_simps(3) submitter.distinct(7))
  then have norun: "cc_run s h \<noteq> RShare m x" for h m x using conc_invD(3) [OF assms(1)] by blast
  have "p_connMu (w_proxies (cc_world s) i)" by (rule conc_invD(1) [OF assms(1) held])
  moreover have "holds_mutex (cc_sub t m) \<longleftrightarrow> m = n" for m
    using conc_invD(2) [OF assms(1) _ held, of m] conc_send(1) by auto
  moreover have "(\<exists>g. cc_run t g = RShare m x) \<longleftrightarrow> cc_sub t m = SWaiting x" for m x
    using none norun conc_send(1) by auto
  moreover have "cc_sub t m = SReplied r \<Longrightarrow> \<exists>e. r = ReplyError e" for m r
    using conc_invD(4) [OF assms(1), of m r] conc_send(1) by (auto split: if_splits)
  ultimately show ?thesis using conc_send(1) by (simp add: conc_inv_def)
next
  case (conc_share g n sh now v)
  then have "p_connMu (w_proxies (cc_world s) i)"
    using conc_invD(3) [OF assms(1), of n sh] conc_inv_waiting [OF assms(1)] by blast
  with conc_share show ?thesis by (simp add: mutex_waits)
next
  case (conc_answer g n sh now r v)
  then have "p_connMu (w_proxies (cc_world s) i)" using conc_inv_waiting [OF assms(1)] by blast
  with conc_answer show ?thesis by (simp add: mutex_waits)
next
  case (conc_receive g d)
  with conc_inv_turn [OF assms(1), of g "RField d" "cc_world s"] show ?thesis by simp
next
  case (conc_field g d now nonce jid v)
  with conc_inv_turn [OF assms(1), of g RSelect v] handleNotification_connMu show ?thesis by simp
next
  case (conc_done g cl)
  with conc_inv_turn [OF assms(1), of g "RDone cl" "cc_world s"] show ?thesis by simp
next
  case (conc_shutdown g cl v)
  with conc_inv_turn [OF assms(1), of g RGone v] ending_free(1) ending_released(1) show ?thesis by simp
next
  case conc_getjob
  with assms(1) show ?thesis by (intro conc_inv_same_subs [OF assms(1)]) auto
next
  case (conc_close v)
  with ending_free(2) ending_released(2) show ?thesis
    by (intro conc_inv_same_subs [OF assms(1)]) auto
next
  case (conc_remove v)
  with ending_free(3) ending_released(3) show ?thesis
    by (intro conc_inv_same_subs [OF assms(1)]) auto
qed

interpretation goroutines: invariant_system "conc_init i" "conc_step cfg conv i" "conc_inv i"
  using conc_inv_init conc_inv_step by unfold_locales

text \<open>A share that has been handed over stays there.\<close>

definition handed_over :: "u64 \<Rightarrow> nat \<Rightarrow> share \<Rightarrow> conc \<Rightarrow> bool" where
  "handed_over i n sh s \<longleftrightarrow> (\<exists>g. cc_run s g = RShare n sh) \<and> cc_sub s n = SWaiting sh \<and> p_connMu (w_proxies (cc_world s) i)"

lemma handed_over_step:
  assumes inv: "conc_inv i s" and h: "handed_over i n sh s" and "conc_step cfg conv i s t"
  shows "handed_over i n sh t \<and> cc_sub t = cc_sub s"
proof -
  have mu: "p_connMu (w_proxies (cc_world s) i)" and hold: "holds_mutex (cc_sub s n)"
    using h by (simp_all add: handed_over_def)
  from assms(3) show ?thesis
  proof cases
    case (conc_send m sh' g)
    then have "m = n" using conc_invD(2) [OF inv _ hold, of m] by simp
    with conc_send h show ?thesis by (simp add: handed_over_def)
  next
    case (conc_field g d now nonce jid v)
    with h mu same_shares [of "cc_run s" g RSelect] handleNotification_connMu show ?thesis
      by (simp add: handed_over_def)
  qed (use h mu same_shares [of "cc_run s"] in \<open>auto simp: handed_over_def mutex_waits\<close>)
qed

lemma handed_over_steps:
  "(conc_step cfg conv i)\<^sup>*\<^sup>* s t \<Longrightarrow> conc_inv i s \<Longrightarrow> handed_over i n sh s \<Longrightarrow> handed_over i n sh t \<and> cc_sub t = cc_sub s"
proof (induction rule: rtranclp_induct)
  case (step u v)
  then have "conc_inv i u" by (blast intro: goroutines.steps_inv)
  from handed_over_step [OF this _ step.hyps(2)] step show ?case by metis
qed simp

subsection \<open>Properties\<close>

text \<open>
  C3: No share that passes the checks of \<open>Submit\<close> is ever answered. At most one request holds
  \<open>connMu\<close>; once \<open>Run\<close> has received its share, the goroutine waits in \<open>handleSubmit\<close> for the mutex
  that the request holds until it gets the response, so that neither they nor any later request,
  \<open>Close\<close> or \<open>Remove\<close> of this proxy proceeds; and whatever the order of events, the only replies
  a miner gets are the errors of the checks.
\<close>

theorem accepted_share_deadlocks:
  assumes "reach (conc_init i) (conc_step cfg conv i) s"
  shows "(cc_sub s n = SReplied r \<longrightarrow> (\<exists>e. r = ReplyError e))
    \<and> (holds_mutex (cc_sub s m) \<and> holds_mutex (cc_sub s n) \<longrightarrow> m = n)
    \<and> (cc_sub s n = SWaiting sh \<and> (conc_step cfg conv i)\<^sup>*\<^sup>* s t \<longrightarrow>
        cc_sub t = cc_sub s \<and> (\<exists>g. cc_run t g = RShare n sh)
        \<and> handleSubmit cfg conv now sh i (cc_world t) = Deadlock
        \<and> proxy_Close i (cc_world t) = Deadlock \<and> proxy_Remove i (cc_world t) = Deadlock)"
proof -
  have inv: "conc_inv i s" by (rule goroutines.reach_inv [OF assms])
  have "handed_over i n sh s" if "cc_sub s n = SWaiting sh"
    using conc_invD(3) [OF inv, of n sh] conc_inv_waiting [OF inv that] that by (simp add: handed_over_def)
  then have later: "handed_over i n sh t" "cc_sub t = cc_sub s"
    if "cc_sub s n = SWaiting sh \<and> (conc_step cfg conv i)\<^sup>*\<^sup>* s t"
    using handed_over_steps [OF _ inv] that by blast+
  show ?thesis
    using conc_invD(2,4) [OF inv] later mutex_waits [of "cc_world t" i]
    by (auto simp: handed_over_def)
qed

definition demo_conc :: conc where
  "demo_conc = \<lparr>cc_world = demo_base\<lparr>w_proxies := (\<lambda>_. demo_proxy)\<rparr>, cc_sub = (\<lambda>_. SIdle), cc_run = (\<lambda>_. RSelect)\<rparr>"

definition demo_request :: params where
  "demo_request = map_of [(''job_id'', PJson (JStr ''job1'')), (''nonce'', PJson (JStr ''00''))]"

lemma demo_request_sends:
  "submit_request demo_request demo_proxy
     = Ret (Inr \<lparr>s_AuthID = [], s_JobID = ''job1'', s_Nonce = ''00'', s_Result = []\<rparr>)"
  by (simp add: submit_request_def demo_request_def newShare_def opt_string_def demo_proxy_def demo_job_def
      NewProxy_def)

theorem accepted_share_deadlocks_witness:
  "\<exists>s sh. reach (conc_init 1) (conc_step default_config (\<lambda>_. 0) 1) s \<and> cc_sub s 0 = SWaiting sh
     \<and> handleSubmit default_config (\<lambda>_. 0) 0 sh 1 (cc_world s) = Deadlock"
proof -
  let ?sh = "\<lparr>s_AuthID = [], s_JobID = ''job1'', s_Nonce = ''00'', s_Result = []\<rparr>"
  let ?s = "demo_conc\<lparr>cc_world := lock_proxy 1 (cc_world demo_conc), cc_sub := (cc_sub demo_conc)(0 := SSending ?sh)\<rparr>"
  let ?t = "?s\<lparr>cc_sub := (cc_sub ?s)(0 := SWaiting ?sh), cc_run := (cc_run ?s)(0 := RShare 0 ?sh)\<rparr>"
  have open_proxy: "\<not> p_connMu demo_proxy" by (simp add: demo_proxy_def NewProxy_def)
  have "reach (conc_init 1) (conc_step default_config (\<lambda>_. 0) 1) demo_conc"
    by (rule reach_init) (simp add: conc_init_def demo_conc_def open_proxy)
  moreover have "conc_step default_config (\<lambda>_. 0) 1 demo_conc ?s"
    by (rule conc_lock [where ps = demo_request]) (simp_all add: demo_conc_def open_proxy demo_request_sends)
  moreover have "conc_step default_config (\<lambda>_. 0) 1 ?s ?t"
    by (rule conc_send) (simp_all add: demo_conc_def)
  ultimately have t: "reach (conc_init 1) (conc_step default_config (\<lambda>_. 0) 1) ?t" by (blast intro: reach_step)
  have "cc_sub ?t 0 = SWaiting ?sh" by simp
  with t accepted_share_deadlocks [OF t, of 0 _ 0 ?sh ?t 0] show ?thesis by blast
qed

text \<open>
  C32: When a new job cannot be written to the miner, the proxy's goroutine locks itself out: it
  holds \<open>connMu\<close> to broadcast, and disconnecting the miner removes the proxy, which takes
  \<open>connMu\<close> again.
\<close>

theorem broadcast_to_lost_miner_deadlocks:
  assumes "\<not> p_isClosed (w_proxies w i)" and "p_worker (w_proxies w i) = Some k"
    and "wk_p (w_workers w k) = Some i" and "\<not> (wk_write_ok (w_workers w k) \<and> wk_conn_open (w_workers w k))"
  shows "handleJob j now i w = Deadlock"
  using assms
  by (auto simp: handleJob_def broadcastJob_def locked_def adopt_job_def worker_NewJob_def worker_Disconnect_def
      proxy_Remove_def Let_def)

theorem broadcast_to_lost_miner_deadlocks_witness:
  "handleJob empty_job 0 1 (upd_worker 1 (\<lambda>x. x\<lparr>wk_write_ok := False\<rparr>) demo_session) = Deadlock"
proof -
  let ?w = "upd_worker 1 (\<lambda>x. x\<lparr>wk_write_ok := False\<rparr>) demo_session"
  have "\<not> p_isClosed (w_proxies ?w 1)" "p_worker (w_proxies ?w 1) = Some 1" "wk_p (w_workers ?w 1) = Some 1"
    "\<not> (wk_write_ok (w_workers ?w 1) \<and> wk_conn_open (w_workers ?w 1))"
    using demo_session_fields by (simp_all add: NewProxy_def)
  then show ?thesis by (rule broadcast_to_lost_miner_deadlocks)
qed

lemma complete_job_closed:
  assumes "proxy_ok (w_proxies w i)" and "length d = 32"
    and "\<not> p_connMu (w_proxies w i)" "p_isClosed (w_proxies w i)"
  shows "\<exists>q. complete_job conv now nonce jid d i w = Ret (upd_proxy i (\<lambda>_. q) w) \<and> proxy_ok q
    \<and> p_ID q = p_ID (w_proxies w i) \<and> \<not> p_connMu q \<and> p_isClosed q"
proof -
  obtain t s m j where
    cj: "complete_job conv now nonce jid d i w =
      (let r = (w_proxies w i)\<lparr>p_recvByte := take 32 (p_recvByte (w_proxies w i)) @ d,
         p_target := t, p_targetSince := s, p_targetShare := m\<rparr>
       in if p_currentJob (w_proxies w i) = empty_job \<or>
             take 16 (j_currentBlob (p_currentJob (w_proxies w i))) \<noteq> take 16 (p_recvByte (w_proxies w i))
          then handleJob j now i (upd_proxy i (\<lambda>_. r) w) else Ret (upd_proxy i (\<lambda>_. r) w))"
    and j: "target_ok t" "job_wf j"
    using complete_job_eq [OF assms(1,2)] by blast
  let ?r = "(w_proxies w i)\<lparr>p_recvByte := take 32 (p_recvByte (w_proxies w i)) @ d,
      p_target := t, p_targetSince := s, p_targetShare := m\<rparr>"
  have r: "proxy_ok ?r" using assms(1,2) j(1) by (simp add: proxy_ok_def)
  have "handleJob j now i (upd_proxy i (\<lambda>_. ?r) w) = Ret (upd_proxy i (\<lambda>_. adopt_job j now ?r) w)"
    using assms(3,4)
    by (simp add: handleJob_def broadcastJob_def locked_def adopt_job_def) (rule upd_proxy_cong, simp)
  moreover have "proxy_ok (adopt_job j now ?r)" using r j(2) by (simp add: proxy_ok_def adopt_job_def)
  ultimately have "complete_job conv now nonce jid d i w = Ret (upd_proxy i (\<lambda>_. ?r) w)
      \<or> complete_job conv now nonce jid d i w = Ret (upd_proxy i (\<lambda>_. adopt_job j now ?r) w)"
    by (simp add: cj Let_def)
  moreover have "p_ID (adopt_job j now ?r) = p_ID (w_proxies w i)" "\<not> p_connMu (adopt_job j now ?r)"
    "p_isClosed (adopt_job j now ?r)"
    using assms(3,4) by (simp_all add: adopt_job_def)
  ultimately show ?thesis using r \<open>proxy_ok (adopt_job j now ?r)\<close> assms(3,4) by (elim disjE) auto
qed

lemma handleNotification_closed:
  assumes "proxy_ok (w_proxies w i)" and "\<not> p_connMu (w_proxies w i)" "p_isClosed (w_proxies w i)"
    and "p_address (w_proxies w i) \<noteq> detectProxy"
  shows "\<exists>q. handleNotification cfg conv now nonce jid d i w = Ret (upd_proxy i (\<lambda>_. q) w) \<and> proxy_ok q
    \<and> p_ID q = p_ID (w_proxies w i) \<and> \<not> p_connMu q \<and> p_isClosed q"
proof -
  let ?p = "w_proxies w i"
  let ?d = "go_copy (replicate 32 0) d :: byte list"
  have len: "length ?d = 32" by simp
  then obtain a where a: "Hash2address ?d = Ret a" using address_of_field by blast
  have same: "handleNotification cfg conv now nonce jid d i w = handleNotification cfg conv now nonce jid ?d i w"
    by (simp add: handleNotification_def go_copy_field [OF len])
  let ?q0 = "?p\<lparr>p_fieldIn := p_fieldIn ?p + 1, p_recvCount := 0\<rparr>"
  have q0: "proxy_ok ?q0" "p_ID ?q0 = p_ID ?p" "\<not> p_connMu ?q0" "p_isClosed ?q0"
    using assms by (simp_all add: proxy_ok_def)
  have recv: "length (p_recvByte ?p) = 64" using assms(1) by (simp add: proxy_ok_def)
  consider "a = p_address ?p" | "a \<noteq> p_address ?p" "p_recvCount ?p = 0" | "a \<noteq> p_address ?p" "p_recvCount ?p = 1"
    using assms(1) by (force simp: proxy_ok_def)
  then show ?thesis
  proof cases
    case 1
    then have "handleNotification cfg conv now nonce jid d i w = Ret (upd_proxy i (\<lambda>_. ?q0) w)"
      using a by (auto simp: handleNotification_def Let_def intro!: upd_proxy_cong)
    with q0 show ?thesis by blast
  next
    case 2
    let ?q = "if (be_get (drop 24 ?d) :: u64) = 0 then ?p\<lparr>p_fieldIn := p_fieldIn ?p + 1\<rparr>
      else ?p\<lparr>p_fieldIn := p_fieldIn ?p + 1, p_recvCount := 1, p_recvByte := ?d @ drop 32 (p_recvByte ?p)\<rparr>"
    have "Hash2address ?d \<noteq> Ret (p_address ?p)" using 2(1) a by simp
    then have "handleNotification cfg conv now nonce jid ?d i w = Ret (upd_proxy i (\<lambda>_. ?q) w)"
      using notify_first [OF len _ 2(2) recv] by (auto intro!: upd_proxy_cong)
    moreover have "proxy_ok ?q" "p_ID ?q = p_ID ?p" "\<not> p_connMu ?q" "p_isClosed ?q"
      using assms by (simp_all add: proxy_ok_def)
    ultimately show ?thesis unfolding same by blast
  next
    case 3
    let ?w = "upd_proxy i (\<lambda>p. p\<lparr>p_fieldIn := p_fieldIn p + 1, p_recvCount := 0\<rparr>) w"
    have "Hash2address ?d \<noteq> Ret (p_address ?p)" using 3(1) a by simp
    then have eq: "handleNotification cfg conv now nonce jid ?d i w = complete_job conv now nonce jid ?d i ?w"
      by (rule notify_second [OF len _ 3(2) assms(4)])
    have "proxy_ok (w_proxies ?w i)" "\<not> p_connMu (w_proxies ?w i)" "p_isClosed (w_proxies ?w i)"
      using q0 by simp_all
    then obtain q where "complete_job conv now nonce jid ?d i ?w = Ret (upd_proxy i (\<lambda>_. q) ?w)" "proxy_ok q"
        "p_ID q = p_ID (w_proxies ?w i)" "\<not> p_connMu q" "p_isClosed q"
      using complete_job_closed [of ?w i ?d conv now nonce jid, OF _ len] by blast
    then show ?thesis unfolding same eq by auto
  qed
qed

text \<open>
  C27: After its session has ended, the goroutine of a miner's proxy does no harm on its way out,
  whatever it takes first from the three closed channels: a share is dropped, a field (32 zero
  bytes from a closed channel) reaches neither the miner nor the director nor another proxy, and
  the third ends the loop.
\<close>

theorem closed_proxy_quiet:
  assumes ok: "session_ok w i" "p_isClosed (w_proxies w i)" "proxy_ok (w_proxies w i)"
    and nodetect: "name \<noteq> detectProxy" "p_address (w_proxies w i) \<noteq> detectProxy"
  shows "run_event cfg conv hexmsg now nonce jid name i (EvSubmit sh) w = Ret (True, NoReply, w)
    \<and> run_event cfg conv hexmsg now nonce jid name i (EvDone cl) w = Ret (False, NoReply, w)
    \<and> (\<exists>v. run_event cfg conv hexmsg now nonce jid name i (EvNotify d) w = Ret (True, NoReply, v)
      \<and> w_workers v = w_workers w \<and> w_director v = w_director w \<and> w_poolIsDown v = w_poolIsDown w
      \<and> (\<forall>j. j \<noteq> i \<longrightarrow> w_proxies v j = w_proxies w j)
      \<and> session_ok v i \<and> p_isClosed (w_proxies v i) \<and> proxy_ok (w_proxies v i))"
proof -
  have mu: "\<not> p_connMu (w_proxies w i)" using ok(1) by (simp add: session_ok_def Let_def)
  have "run_event cfg conv hexmsg now nonce jid name i (EvSubmit sh) w = Ret (True, NoReply, w)"
    using mu ok(2) nodetect(1) by (simp add: run_event_def handleSubmit_def locked_val_def unlock_lock)
  moreover have "run_event cfg conv hexmsg now nonce jid name i (EvDone cl) w = Ret (False, NoReply, w)"
    using nodetect(1) closed_noop(3) [OF ok(1,2)] by (simp add: run_event_def)
  moreover obtain q where q: "handleNotification cfg conv now nonce jid d i w = Ret (upd_proxy i (\<lambda>_. q) w)"
      "proxy_ok q" "p_ID q = p_ID (w_proxies w i)" "\<not> p_connMu q" "p_isClosed q"
    using handleNotification_closed [OF ok(3) mu ok(2) nodetect(2)] by blast
  moreover have "run_event cfg conv hexmsg now nonce jid name i (EvNotify d) w = Ret (True, NoReply, upd_proxy i (\<lambda>_. q) w)"
    using nodetect(1) q(1) by (simp add: run_event_def)
  moreover have "session_ok (upd_proxy i (\<lambda>_. q) w) i"
    using ok(1,2) q(3-5) by (simp add: session_ok_def Let_def)
  ultimately show ?thesis by auto
qed

theorem closed_proxy_quiet_witness:
  "\<exists>v. run_event default_config (\<lambda>_. 0) (\<lambda>_. []) 0 0 [] [] 1 (EvNotify []) (session_end 1 demo_session) = Ret (True, NoReply, v)
     \<and> w_workers v = w_workers demo_session"
proof -
  let ?w = "session_end 1 demo_session"
  have "\<not> p_isClosed (w_proxies demo_session 1)" by (simp add: demo_session_fields NewProxy_def)
  then have "world_inv ?w" "live_id ?w 1"
    using session_end_inv [OF demo_session_inv(1,2)] demo_session_inv(2) by (simp_all add: live_id_def)
  then have "session_ok ?w 1" by (rule world_invD(1))
  moreover have "p_isClosed (w_proxies ?w 1)" "proxy_ok (w_proxies ?w 1)" "p_address (w_proxies ?w 1) \<noteq> detectProxy"
    using demo_session_ok by (simp_all add: ended_def proxy_ok_def demo_session_fields NewProxy_def detectProxy_def)
  moreover have "[] \<noteq> detectProxy" by (simp add: detectProxy_def)
  ultimately show ?thesis
    using closed_proxy_quiet [of ?w 1 "[]" default_config "\<lambda>_. 0" "\<lambda>_. []" 0 0 "[]" _ 0 "[]"] by auto
qed

end
