(* ===== verification/Teardown.thy ===== *)
theory Teardown
  imports JobStream Connect
begin

text \<open>
  The end of a session, lock by lock, for a miner that logs in once (a second login: theory Relogin). It begins
  when \<open>connect\<close> has returned. Five kinds of goroutine meet: the reader and the writer of the
  pool connection (\<open>StartReader\<close>, \<open>StartWriter\<close> of \<open>server/xdag/connect.go\<close>), of which the first holds the
  connection's lock for reading while it waits for room in the channel \<open>notify\<close>, and both take it to stop; the
  proxy's \<open>Run\<close> (\<open>server/proxy/proxy.go\<close>), which empties the channel and takes \<open>connMu\<close> to broadcast a job and to
  handle a share; the requests in \<open>Submit\<close>, one of which holds \<open>connMu\<close> until \<open>Run\<close> answers; and \<open>SpawnWorker\<close> after
  the miner has hung up, which waits for the requests and removes the proxy, with \<open>connMu\<close> and the connection's
  lock. The theories Connect and ProxyConc take one side each, with the waiting as a guard; here
  every wait is a state. The theorem says in which states nothing moves any more.

  After \<open>connect\<close> only \<open>handleSubmit\<close> sends to the pool, which no share gets to (theory ProxyConc; here
  \<open>RnShare\<close> does not move), so the buffer of the connection only empties. The proxy that detects the pool is
  left out.
\<close>

subsection \<open>sync.RWMutex\<close>

text \<open>
  A writer first keeps out new readers, then waits for those inside. \<open>None\<close> is to wait.
\<close>

record rwmutex =
  rw_readers :: nat
  rw_writer :: bool

definition rw_free :: rwmutex where
  "rw_free = \<lparr>rw_readers = 0, rw_writer = False\<rparr>"

definition rw_RLock :: "rwmutex \<Rightarrow> rwmutex option" where
  "rw_RLock m = (if rw_writer m then None else Some (m\<lparr>rw_readers := rw_readers m + 1\<rparr>))"

definition rw_RUnlock :: "rwmutex \<Rightarrow> rwmutex" where
  "rw_RUnlock m = m\<lparr>rw_readers := rw_readers m - 1\<rparr>"

definition rw_announce :: "rwmutex \<Rightarrow> rwmutex option" where
  "rw_announce m = (if rw_writer m then None else Some (m\<lparr>rw_writer := True\<rparr>))"

definition rw_granted :: "rwmutex \<Rightarrow> bool" where
  "rw_granted m \<longleftrightarrow> rw_writer m \<and> rw_readers m = 0"

definition rw_Unlock :: "rwmutex \<Rightarrow> rwmutex" where
  "rw_Unlock m = m\<lparr>rw_writer := False\<rparr>"

lemma rw_RLock_Some: "rw_RLock m = Some n \<longleftrightarrow> \<not> rw_writer m \<and> n = m\<lparr>rw_readers := rw_readers m + 1\<rparr>"
  by (auto simp: rw_RLock_def)

lemma rw_announce_Some: "rw_announce m = Some n \<longleftrightarrow> \<not> rw_writer m \<and> n = m\<lparr>rw_writer := True\<rparr>"
  by (auto simp: rw_announce_def)

lemmas rw_defs = rw_free_def rw_RLock_Some rw_announce_Some rw_RUnlock_def rw_granted_def rw_Unlock_def

subsection \<open>The goroutines\<close>

text \<open>Where each of them stands; a want is a wait for a lock, \<open>RdSend\<close> the wait for room in \<open>notify\<close>.\<close>

datatype reading = RdRead | RdWantR "byte list" | RdSend "byte list" | RdWantW | RdStop | RdGone
datatype writing = WrTop | WrSelect | WrWantW | WrStop | WrGone
datatype running = RnSelect | RnBroadcast | RnLocked | RnShare | RnNil | RnShutdown | RnGone
datatype holding = HNone | HSend | HWait
datatype removing = RmIdle | RmDrain | RmWantMu | RmWantW | RmClose | RmTail | RmGone

text \<open>
  \<open>td_conn\<close> and its lock \<open>td_rw\<close>; the channels \<open>notify\<close> and \<open>done\<close>; of the proxy \<open>connMu\<close>, \<open>isClosed\<close> and the
  state of the stream of fields (theory JobStream); whether the miner can still be written to; how many
  requests wait in \<open>Submit\<close> for \<open>connMu\<close>, and how far the one is that has it.
\<close>

record teardown =
  td_conn :: connection
  td_rw :: rwmutex
  td_notify :: "byte list list"
  td_notify_closed :: bool
  td_done_closed :: bool
  td_connMu :: bool
  td_closed :: bool
  td_stream :: "byte list option \<times> byte list option"
  td_miner_open :: bool
  td_panicked :: bool
  td_reader :: reading
  td_writer :: writing
  td_run :: running
  td_want :: nat
  td_holder :: holding
  td_remover :: removing

definition down_init :: "teardown \<Rightarrow> bool" where
  "down_init s \<longleftrightarrow> (\<exists>n ms. s =
     \<lparr>td_conn = (Start (NewConnection n))\<lparr>c_msgs := ms\<rparr>, td_rw = rw_free, td_notify = [], td_notify_closed = False,
      td_done_closed = False, td_connMu = False, td_closed = False, td_stream = (None, None),
      td_miner_open = True, td_panicked = False, td_reader = RdRead, td_writer = WrTop,
      td_run = RnSelect, td_want = 0, td_holder = HNone, td_remover = RmIdle\<rparr>)"

text \<open>
  \<open>StartReader\<close>: a frame is read and delivered under the read lock, unless the connection is
  closed; the loop can end at any time (an error, a timeout, \<open>PoolDown\<close>, the context), and \<open>Stop\<close> follows.
\<close>

inductive reader_moves :: "teardown \<Rightarrow> teardown \<Rightarrow> bool" where
  rd_frame: "td_reader s = RdRead \<Longrightarrow> \<not> c_done (td_conn s) \<Longrightarrow> length d = 32 \<Longrightarrow>
     reader_moves s (s\<lparr>td_reader := RdWantR d\<rparr>)"
| rd_end: "td_reader s = RdRead \<Longrightarrow> reader_moves s (s\<lparr>td_reader := RdWantW\<rparr>)"
| rd_skip: "td_reader s = RdWantR d \<Longrightarrow> rw_RLock (td_rw s) = Some m \<Longrightarrow> c_isClosed (td_conn s) \<Longrightarrow>
     reader_moves s (s\<lparr>td_rw := rw_RUnlock m, td_reader := RdRead\<rparr>)"
| rd_lock: "td_reader s = RdWantR d \<Longrightarrow> rw_RLock (td_rw s) = Some m \<Longrightarrow> \<not> c_isClosed (td_conn s) \<Longrightarrow>
     reader_moves s (s\<lparr>td_rw := m, td_reader := RdSend d\<rparr>)"
| rd_send: "td_reader s = RdSend d \<Longrightarrow> \<not> td_notify_closed s \<Longrightarrow> length (td_notify s) < notifyCap \<Longrightarrow>
     reader_moves s (s\<lparr>td_notify := td_notify s @ [d], td_rw := rw_RUnlock (td_rw s), td_reader := RdRead\<rparr>)"
| rd_panic: "td_reader s = RdSend d \<Longrightarrow> td_notify_closed s \<Longrightarrow> reader_moves s (s\<lparr>td_panicked := True\<rparr>)"
| rd_announce: "td_reader s = RdWantW \<Longrightarrow> rw_announce (td_rw s) = Some m \<Longrightarrow>
     reader_moves s (s\<lparr>td_rw := m, td_reader := RdStop\<rparr>)"
| rd_stop: "td_reader s = RdStop \<Longrightarrow> rw_granted (td_rw s) \<Longrightarrow> conn_Stop (td_conn s) = Ret c \<Longrightarrow>
     reader_moves s (s\<lparr>td_conn := c, td_rw := rw_Unlock (td_rw s), td_reader := RdGone\<rparr>)"

text \<open>
  \<open>StartWriter\<close>: it leaves its loop when \<open>PoolDown\<close> is up, when a write fails or when the context is done, and
  \<open>Stop\<close> follows. On the open connection it waits for a message, for as long as it takes.
\<close>

inductive writer_moves :: "teardown \<Rightarrow> teardown \<Rightarrow> bool" where
  wr_go: "td_writer s = WrTop \<Longrightarrow> writer_moves s (s\<lparr>td_writer := WrSelect\<rparr>)"
| wr_down: "td_writer s = WrTop \<Longrightarrow> writer_moves s (s\<lparr>td_writer := WrWantW\<rparr>)"
| wr_msg: "td_writer s = WrSelect \<Longrightarrow> c_msgs (td_conn s) = m # ms \<Longrightarrow>
     writer_moves s (s\<lparr>td_conn := (td_conn s)\<lparr>c_msgs := ms\<rparr>, td_writer := WrTop\<rparr>)"
| wr_fail: "td_writer s = WrSelect \<Longrightarrow> c_msgs (td_conn s) = m # ms \<Longrightarrow>
     writer_moves s (s\<lparr>td_conn := (td_conn s)\<lparr>c_msgs := ms\<rparr>, td_writer := WrWantW\<rparr>)"
| wr_closed: "td_writer s = WrSelect \<Longrightarrow> c_msgs (td_conn s) = [] \<Longrightarrow> c_msgs_closed (td_conn s) \<Longrightarrow>
     writer_moves s (s\<lparr>td_writer := WrTop\<rparr>)"
| wr_done: "td_writer s = WrSelect \<Longrightarrow> c_done (td_conn s) \<Longrightarrow> writer_moves s (s\<lparr>td_writer := WrWantW\<rparr>)"
| wr_announce: "td_writer s = WrWantW \<Longrightarrow> rw_announce (td_rw s) = Some m \<Longrightarrow>
     writer_moves s (s\<lparr>td_rw := m, td_writer := WrStop\<rparr>)"
| wr_stop: "td_writer s = WrStop \<Longrightarrow> rw_granted (td_rw s) \<Longrightarrow> conn_Stop (td_conn s) = Ret c \<Longrightarrow>
     writer_moves s (s\<lparr>td_conn := c, td_rw := rw_Unlock (td_rw s), td_writer := WrGone\<rparr>)"

text \<open>
  \<open>Run\<close>: a field, or the nil of the closed channel, changes the stream and may make a job, which
  \<open>broadcastJob\<close> hands to the miner under \<open>connMu\<close>. When the miner cannot be written to, \<open>NewJob\<close>
  disconnects it and \<open>Remove\<close> waits for \<open>connMu\<close>, which its own goroutine holds: \<open>RnLocked\<close>. A
  share is handled under \<open>connMu\<close>, which the request that sent it holds: \<open>RnShare\<close>. The closed channel \<open>submissions\<close>
  gives nil shares, for which \<open>handleSubmit\<close> finds the proxy closed, and the closed channel \<open>done\<close> leads to
  \<open>shutdown(0)\<close>, which does too.
\<close>

definition take_field :: "string \<Rightarrow> byte list \<Rightarrow> teardown \<Rightarrow> teardown" where
  "take_field own d s =
     (case field_step own (td_stream s) d of
        (st, js) \<Rightarrow> s\<lparr>td_stream := st, td_run := (if js = [] then RnSelect else RnBroadcast)\<rparr>)"

inductive run_moves :: "string \<Rightarrow> teardown \<Rightarrow> teardown \<Rightarrow> bool" for own where
  rn_field: "td_run s = RnSelect \<Longrightarrow> td_notify s = d # ds \<Longrightarrow>
     run_moves own s (take_field own d (s\<lparr>td_notify := ds\<rparr>))"
| rn_nil: "td_run s = RnSelect \<Longrightarrow> td_notify s = [] \<Longrightarrow> td_notify_closed s \<Longrightarrow>
     run_moves own s (take_field own (replicate 32 0) s)"
| rn_sent: "td_run s = RnBroadcast \<Longrightarrow> \<not> td_connMu s \<Longrightarrow> td_closed s \<or> td_miner_open s \<Longrightarrow>
     run_moves own s (s\<lparr>td_run := RnSelect\<rparr>)"
| rn_lost: "td_run s = RnBroadcast \<Longrightarrow> \<not> td_connMu s \<Longrightarrow> \<not> td_closed s \<Longrightarrow>
     run_moves own s (s\<lparr>td_connMu := True, td_miner_open := False, td_run := RnLocked\<rparr>)"
| rn_answer: "td_run s = RnShare \<Longrightarrow> \<not> td_connMu s \<Longrightarrow> run_moves own s (s\<lparr>td_holder := HNone, td_run := RnSelect\<rparr>)"
| rn_nil_share: "td_run s = RnSelect \<Longrightarrow> td_closed s \<Longrightarrow> run_moves own s (s\<lparr>td_run := RnNil\<rparr>)"
| rn_nil_end: "td_run s = RnNil \<Longrightarrow> \<not> td_connMu s \<Longrightarrow> td_closed s \<Longrightarrow> run_moves own s (s\<lparr>td_run := RnSelect\<rparr>)"
| rn_done: "td_run s = RnSelect \<Longrightarrow> td_done_closed s \<Longrightarrow> run_moves own s (s\<lparr>td_run := RnShutdown\<rparr>)"
| rn_end: "td_run s = RnShutdown \<Longrightarrow> \<not> td_connMu s \<Longrightarrow> td_closed s \<Longrightarrow> run_moves own s (s\<lparr>td_run := RnGone\<rparr>)"

text \<open>
  \<open>Submit\<close>: a request that takes \<open>connMu\<close> is refused (the proxy is closed, or the share is malformed or for an
  unknown job), or sends its share to \<open>Run\<close> and waits for the response, still with \<open>connMu\<close>.
\<close>

inductive submit_moves :: "teardown \<Rightarrow> teardown \<Rightarrow> bool" where
  sb_request: "td_remover s = RmIdle \<Longrightarrow> submit_moves s (s\<lparr>td_want := td_want s + 1\<rparr>)"
| sb_refuse: "0 < td_want s \<Longrightarrow> \<not> td_connMu s \<Longrightarrow> submit_moves s (s\<lparr>td_want := td_want s - 1\<rparr>)"
| sb_lock: "0 < td_want s \<Longrightarrow> \<not> td_connMu s \<Longrightarrow> \<not> td_closed s \<Longrightarrow>
     submit_moves s (s\<lparr>td_connMu := True, td_want := td_want s - 1, td_holder := HSend\<rparr>)"
| sb_send: "td_holder s = HSend \<Longrightarrow> td_run s = RnSelect \<Longrightarrow>
     submit_moves s (s\<lparr>td_holder := HWait, td_run := RnShare\<rparr>)"

text \<open>
  The miner hangs up, or its connection was closed after a failed write: \<open>ServeCodec\<close> reads no more
  requests, waits for those that run and returns, and \<open>Disconnect\<close> calls \<open>Remove\<close>.
\<close>

inductive remover_moves :: "teardown \<Rightarrow> teardown \<Rightarrow> bool" where
  rm_hang_up: "td_remover s = RmIdle \<Longrightarrow> remover_moves s (s\<lparr>td_miner_open := False, td_remover := RmDrain\<rparr>)"
| rm_drained: "td_remover s = RmDrain \<Longrightarrow> td_want s = 0 \<Longrightarrow> td_holder s = HNone \<Longrightarrow>
     remover_moves s (s\<lparr>td_remover := RmWantMu\<rparr>)"
| rm_noop: "td_remover s = RmWantMu \<Longrightarrow> \<not> td_connMu s \<Longrightarrow> td_closed s \<Longrightarrow>
     remover_moves s (s\<lparr>td_remover := RmGone\<rparr>)"
| rm_lock: "td_remover s = RmWantMu \<Longrightarrow> \<not> td_connMu s \<Longrightarrow> \<not> td_closed s \<Longrightarrow>
     remover_moves s (s\<lparr>td_connMu := True, td_remover := RmWantW\<rparr>)"
| rm_announce: "td_remover s = RmWantW \<Longrightarrow> rw_announce (td_rw s) = Some m \<Longrightarrow>
     remover_moves s (s\<lparr>td_rw := m, td_remover := RmClose\<rparr>)"
| rm_close: "td_remover s = RmClose \<Longrightarrow> rw_granted (td_rw s) \<Longrightarrow> conn_Close (td_conn s) = Ret c \<Longrightarrow>
     remover_moves s (s\<lparr>td_conn := c, td_rw := rw_Unlock (td_rw s), td_remover := RmTail\<rparr>)"
| rm_tail: "td_remover s = RmTail \<Longrightarrow>
     remover_moves s (s\<lparr>td_done_closed := True, td_notify_closed := True, td_closed := True, td_connMu := False,
       td_remover := RmGone\<rparr>)"

definition down_step :: "string \<Rightarrow> teardown \<Rightarrow> teardown \<Rightarrow> bool" where
  "down_step own s t \<longleftrightarrow> reader_moves s t \<or> writer_moves s t \<or> run_moves own s t \<or> submit_moves s t \<or> remover_moves s t"

subsection \<open>Invariant\<close>

text \<open>Who holds which lock, and what has been closed by whom.\<close>

fun sending :: "reading \<Rightarrow> bool" where
  "sending (RdSend _) = True"
| "sending _ = False"

fun holds_mu :: "removing \<Rightarrow> bool" where
  "holds_mu RmWantW = True"
| "holds_mu RmClose = True"
| "holds_mu RmTail = True"
| "holds_mu _ = False"

fun drained :: "removing \<Rightarrow> bool" where
  "drained RmIdle = False"
| "drained RmDrain = False"
| "drained _ = True"

fun ending :: "running \<Rightarrow> bool" where
  "ending RnNil = True"
| "ending RnShutdown = True"
| "ending RnGone = True"
| "ending _ = False"

lemma sending_iff: "sending r \<longleftrightarrow> (\<exists>d. r = RdSend d)"
  by (cases r) auto

definition lock_inv :: "teardown \<Rightarrow> bool" where
  "lock_inv s \<longleftrightarrow>
     rw_readers (td_rw s) = of_bool (sending (td_reader s))
     \<and> rw_writer (td_rw s) = (td_reader s = RdStop \<or> td_writer s = WrStop \<or> td_remover s = RmClose)
     \<and> (td_reader s = RdStop \<longrightarrow> td_remover s \<noteq> RmClose \<and> td_writer s \<noteq> WrStop)
     \<and> (td_writer s = WrStop \<longrightarrow> td_remover s \<noteq> RmClose)
     \<and> td_connMu s = (td_run s = RnLocked \<or> td_holder s \<noteq> HNone \<or> holds_mu (td_remover s))
     \<and> (td_run s = RnLocked \<longrightarrow> td_holder s = HNone \<and> \<not> holds_mu (td_remover s) \<and> td_remover s \<noteq> RmGone)
     \<and> (td_run s = RnShare \<longleftrightarrow> td_holder s = HWait)
     \<and> (drained (td_remover s) \<longrightarrow> td_want s = 0 \<and> td_holder s = HNone)"

definition end_inv :: "teardown \<Rightarrow> bool" where
  "end_inv s \<longleftrightarrow>
     conn_inv (td_conn s) \<and> c_done (td_conn s) = c_isClosed (td_conn s) \<and> \<not> td_panicked s
     \<and> length (td_notify s) \<le> notifyCap \<and> (sending (td_reader s) \<longrightarrow> \<not> c_isClosed (td_conn s))
     \<and> (td_reader s = RdGone \<longrightarrow> c_isClosed (td_conn s)) \<and> (td_writer s = WrGone \<longrightarrow> c_isClosed (td_conn s))
     \<and> (td_remover s = RmTail \<longrightarrow> c_isClosed (td_conn s)) \<and> (td_remover s = RmGone \<longrightarrow> c_isClosed (td_conn s))
     \<and> (td_closed s \<longleftrightarrow> td_remover s = RmGone) \<and> td_notify_closed s = td_closed s \<and> td_done_closed s = td_closed s
     \<and> (ending (td_run s) \<longrightarrow> td_remover s = RmGone)"

definition down_inv :: "teardown \<Rightarrow> bool" where
  "down_inv s \<longleftrightarrow> lock_inv s \<and> end_inv s"

lemmas down_inv_defs = down_inv_def lock_inv_def end_inv_def

lemma conn_close_inv:
  "conn_inv c \<Longrightarrow> conn_Close c = Ret d \<Longrightarrow> conn_inv d \<and> c_isClosed d \<and> c_done d"
  using conn.close_total [of c] by (auto simp: conn_inv_def)

lemma take_field_simps [simp]:
  "td_conn (take_field own d s) = td_conn s" "td_rw (take_field own d s) = td_rw s"
  "td_notify (take_field own d s) = td_notify s" "td_notify_closed (take_field own d s) = td_notify_closed s"
  "td_done_closed (take_field own d s) = td_done_closed s" "td_connMu (take_field own d s) = td_connMu s"
  "td_closed (take_field own d s) = td_closed s" "td_panicked (take_field own d s) = td_panicked s"
  "td_miner_open (take_field own d s) = td_miner_open s"
  "td_reader (take_field own d s) = td_reader s" "td_writer (take_field own d s) = td_writer s"
  "td_want (take_field own d s) = td_want s" "td_holder (take_field own d s) = td_holder s" "td_remover (take_field own d s) = td_remover s"
  "td_run (take_field own d s) \<noteq> RnLocked" "td_run (take_field own d s) \<noteq> RnShare" "\<not> ending (td_run (take_field own d s))"
  by (simp_all add: take_field_def split: prod.split)

lemma stop_ends: "conn_inv c \<Longrightarrow> conn_Stop c = Ret d \<Longrightarrow> conn_inv d \<and> c_isClosed d \<and> c_done d"
  unfolding conn_Stop_Close by (rule conn_close_inv)

lemma not_sending: "rw_granted (td_rw s) \<Longrightarrow> down_inv s \<Longrightarrow> \<not> sending (td_reader s)"
  by (auto simp: rw_granted_def down_inv_def lock_inv_def)

lemma reader_inv: "reader_moves s t \<Longrightarrow> down_inv s \<Longrightarrow> down_inv t"
proof (induction rule: reader_moves.induct)
  case (rd_stop s c)
  then show ?case using stop_ends [of "td_conn s" c] by (simp add: down_inv_defs rw_Unlock_def)
qed (simp_all add: down_inv_defs rw_defs, blast+)

lemma writer_inv: "writer_moves s t \<Longrightarrow> down_inv s \<Longrightarrow> down_inv t"
proof (induction rule: writer_moves.induct)
  case (wr_stop s c)
  then show ?case
    using stop_ends [of "td_conn s" c] not_sending [OF wr_stop(2,4)] by (simp add: down_inv_defs rw_Unlock_def)
qed (simp_all add: down_inv_defs rw_defs, blast+)

lemma submit_inv: "submit_moves s t \<Longrightarrow> down_inv s \<Longrightarrow> down_inv t"
  by (induction rule: submit_moves.induct) (simp_all add: down_inv_defs)

lemma run_inv: "run_moves own s t \<Longrightarrow> down_inv s \<Longrightarrow> down_inv t"
  by (induction rule: run_moves.induct) (simp_all add: down_inv_defs, blast+)

lemma remover_inv: "remover_moves s t \<Longrightarrow> down_inv s \<Longrightarrow> down_inv t"
proof (induction rule: remover_moves.induct)
  case (rm_close s c)
  then show ?case
    using conn_close_inv [of "td_conn s" c] not_sending [OF rm_close(2,4)] by (simp add: down_inv_defs rw_Unlock_def)
qed (simp_all add: down_inv_defs rw_defs, blast+)

lemma init_down_inv: "down_init s \<Longrightarrow> down_inv s"
  by (auto simp: down_init_def down_inv_defs rw_defs) (simp_all add: Start_def NewConnection_def)

interpretation down: invariant_system down_init "down_step own" down_inv for own
  by unfold_locales (auto simp: down_step_def init_down_inv
      intro: reader_inv writer_inv run_inv submit_inv remover_inv)

subsection \<open>States in which nothing moves\<close>

text \<open>The session is over: all goroutines have returned.\<close>

definition torn_down :: "teardown \<Rightarrow> bool" where
  "torn_down s \<longleftrightarrow> td_reader s = RdGone \<and> td_writer s = WrGone \<and> td_run s = RnGone \<and> td_remover s = RmGone
     \<and> td_want s = 0 \<and> td_holder s = HNone"

text \<open>\<open>notify\<close> is full, and the reader waits for \<open>Run\<close> to take a field, with the connection's lock for reading.\<close>

definition reader_full :: "teardown \<Rightarrow> bool" where
  "reader_full s \<longleftrightarrow> (\<exists>d. td_reader s = RdSend d) \<and> length (td_notify s) = notifyCap"

text \<open>The writer has no message, and the connection is open.\<close>

definition writer_idle :: "teardown \<Rightarrow> bool" where
  "writer_idle s \<longleftrightarrow> td_writer s = WrSelect \<and> c_msgs (td_conn s) = [] \<and> \<not> c_isClosed (td_conn s)"

text \<open>
  The connection's goroutines while \<open>Run\<close> takes no more fields: they have left, or the reader waits and the
  writer has nothing to do or waits for the reader to let go of the lock.
\<close>

definition link_rests :: "teardown \<Rightarrow> bool" where
  "link_rests s \<longleftrightarrow> td_reader s = RdGone \<and> td_writer s = WrGone
     \<or> reader_full s \<and> (writer_idle s \<or> td_writer s = WrStop)"

text \<open>
  The circle: the reader waits for room in \<open>notify\<close>, which \<open>Run\<close> would make; \<open>Run\<close> waits for \<open>connMu\<close>, which
  the remover holds; the remover waits for the reader to leave its lock, or for the writer, which waits
  for the reader.
\<close>

definition waits_in_circle :: "teardown \<Rightarrow> bool" where
  "waits_in_circle s \<longleftrightarrow> reader_full s \<and> td_run s = RnBroadcast
     \<and> (td_remover s = RmClose \<and> (writer_idle s \<or> td_writer s = WrWantW)
        \<or> td_remover s = RmWantW \<and> td_writer s = WrStop)"

text \<open>\<open>Run\<close> waits for itself; the remover waits for \<open>Run\<close>, or for a request in \<open>Submit\<close> that waits for it.\<close>

definition waits_for_itself :: "teardown \<Rightarrow> bool" where
  "waits_for_itself s \<longleftrightarrow> td_run s = RnLocked \<and> link_rests s
     \<and> (td_remover s = RmWantMu \<or> td_remover s = RmDrain \<and> 0 < td_want s)"

text \<open>
  A request in \<open>Submit\<close> holds \<open>connMu\<close> and waits for \<open>Run\<close> to take its share or to answer; \<open>Run\<close> waits for
  \<open>connMu\<close>, to broadcast a job or to handle the share; the remover waits for the request.
\<close>

definition waits_for_share :: "teardown \<Rightarrow> bool" where
  "waits_for_share s \<longleftrightarrow> td_remover s = RmDrain \<and> link_rests s
     \<and> (td_holder s = HSend \<and> td_run s = RnBroadcast \<or> td_holder s = HWait \<and> td_run s = RnShare)"

definition stuck :: "string \<Rightarrow> teardown \<Rightarrow> bool" where
  "stuck own s \<longleftrightarrow> \<not> (\<exists>t. down_step own s t)"

inductive_simps reader_moves_iff: "reader_moves s t"
inductive_simps writer_moves_iff: "writer_moves s t"
inductive_simps run_moves_iff: "run_moves own s t"
inductive_simps submit_moves_iff: "submit_moves s t"
inductive_simps remover_moves_iff: "remover_moves s t"

lemma stuck_parts:
  "stuck own s \<longleftrightarrow> \<not> (\<exists>t. reader_moves s t) \<and> \<not> (\<exists>t. writer_moves s t) \<and> \<not> (\<exists>t. run_moves own s t)
     \<and> \<not> (\<exists>t. submit_moves s t) \<and> \<not> (\<exists>t. remover_moves s t)"
  by (auto simp: stuck_def down_step_def)

text \<open>When each of them cannot move.\<close>

lemma inv_link:
  assumes "down_inv s"
  shows "conn_inv (td_conn s)" "c_done (td_conn s) = c_isClosed (td_conn s)"
    "c_msgs_closed (td_conn s) = c_isClosed (td_conn s)"
    "rw_readers (td_rw s) = of_bool (sending (td_reader s))"
    "rw_writer (td_rw s) \<longleftrightarrow> td_reader s = RdStop \<or> td_writer s = WrStop \<or> td_remover s = RmClose"
    "sending (td_reader s) \<Longrightarrow> \<not> c_isClosed (td_conn s)" "length (td_notify s) \<le> notifyCap"
    "\<exists>c. conn_Stop (td_conn s) = Ret c"
proof -
  show inv: "conn_inv (td_conn s)" using assms by (simp add: down_inv_def end_inv_def)
  from conn.close_total [OF this] show "\<exists>c. conn_Stop (td_conn s) = Ret c" by (auto simp: conn_Stop_Close)
  from inv show "c_msgs_closed (td_conn s) = c_isClosed (td_conn s)" by (simp add: conn_inv_def)
qed (use assms in \<open>simp_all add: down_inv_def end_inv_def lock_inv_def\<close>)

lemma reader_waits:
  assumes "down_inv s"
  shows "\<not> (\<exists>t. reader_moves s t) \<longleftrightarrow> td_reader s = RdGone
    \<or> (\<exists>d. td_reader s = RdSend d) \<and> length (td_notify s) = notifyCap \<and> \<not> td_notify_closed s
    \<or> (td_reader s = RdWantW \<or> (\<exists>d. td_reader s = RdWantR d)) \<and> (td_writer s = WrStop \<or> td_remover s = RmClose)"
  using inv_link [OF assms]
  by (cases "td_reader s") (auto simp: reader_moves_iff rw_defs)

lemma writer_waits:
  assumes "down_inv s"
  shows "\<not> (\<exists>t. writer_moves s t) \<longleftrightarrow> td_writer s = WrGone \<or> writer_idle s
    \<or> td_writer s = WrWantW \<and> (td_reader s = RdStop \<or> td_remover s = RmClose)
    \<or> td_writer s = WrStop \<and> (\<exists>d. td_reader s = RdSend d)"
proof (cases "td_writer s")
  case WrSelect
  then show ?thesis using inv_link(2,3) [OF assms]
    by (cases "c_msgs (td_conn s)") (auto simp: writer_moves_iff writer_idle_def)
qed (use inv_link [OF assms] in \<open>auto simp: writer_moves_iff writer_idle_def rw_defs sending_iff\<close>)

lemma inv_proxy:
  assumes "down_inv s"
  shows "td_connMu s \<longleftrightarrow> td_run s = RnLocked \<or> td_holder s \<noteq> HNone \<or> holds_mu (td_remover s)"
    "td_run s = RnLocked \<Longrightarrow> td_holder s = HNone \<and> \<not> holds_mu (td_remover s) \<and> td_remover s \<noteq> RmGone"
    "td_run s = RnShare \<longleftrightarrow> td_holder s = HWait"
    "drained (td_remover s) \<Longrightarrow> td_want s = 0 \<and> td_holder s = HNone"
    "td_closed s \<longleftrightarrow> td_remover s = RmGone" "td_notify_closed s = td_closed s" "td_done_closed s = td_closed s"
    "ending (td_run s) \<Longrightarrow> td_remover s = RmGone"
  using assms by (simp_all add: down_inv_defs)

lemma run_waits:
  assumes "down_inv s"
  shows "\<not> (\<exists>t. run_moves own s t) \<longleftrightarrow> td_run s \<in> {RnGone, RnLocked}
    \<or> td_run s = RnSelect \<and> td_notify s = [] \<and> \<not> td_closed s
    \<or> td_run s \<in> {RnBroadcast, RnShare} \<and> td_connMu s"
  using inv_proxy [OF assms]
  by (cases "td_run s"; cases "td_notify s") (auto simp: run_moves_iff)

lemma submit_waits:
  "\<not> (\<exists>t. submit_moves s t) \<longleftrightarrow> td_remover s \<noteq> RmIdle \<and> (td_want s = 0 \<or> td_connMu s)
    \<and> \<not> (td_holder s = HSend \<and> td_run s = RnSelect)"
  by (auto simp: submit_moves_iff)

lemma remover_waits:
  assumes "down_inv s"
  shows "\<not> (\<exists>t. remover_moves s t) \<longleftrightarrow> td_remover s = RmGone
    \<or> td_remover s = RmDrain \<and> (0 < td_want s \<or> td_holder s \<noteq> HNone) \<or> td_remover s = RmWantMu \<and> td_connMu s
    \<or> td_remover s = RmWantW \<and> (td_reader s = RdStop \<or> td_writer s = WrStop)
    \<or> td_remover s = RmClose \<and> (\<exists>d. td_reader s = RdSend d)"
  using inv_link [OF assms] inv_proxy(5) [OF assms]
  by (cases "td_remover s") (auto simp: remover_moves_iff rw_defs sending_iff conn_Stop_Close)

text \<open>What that leaves, for each of the places where the remover waits.\<close>

lemma link_waits:
  assumes "down_inv s" "\<not> holds_mu (td_remover s)" "\<not> (\<exists>t. reader_moves s t)" "\<not> (\<exists>t. writer_moves s t)"
  shows "link_rests s \<and> (td_reader s = RdGone \<or> td_notify s \<noteq> [] \<and> \<not> td_closed s)"
proof -
  have closed: "td_reader s = RdGone \<Longrightarrow> c_isClosed (td_conn s)" using assms(1) by (simp add: down_inv_def end_inv_def)
  have gone: "td_writer s = WrGone \<Longrightarrow> c_isClosed (td_conn s)" using assms(1) by (simp add: down_inv_def end_inv_def)
  have no_close: "td_remover s \<noteq> RmClose" using assms(2) by auto
  note r = assms(3) [unfolded reader_waits [OF assms(1)]] and w = assms(4) [unfolded writer_waits [OF assms(1)]]
  consider "td_reader s = RdGone" | d where "td_reader s = RdSend d" "length (td_notify s) = notifyCap" "\<not> td_notify_closed s"
    using r w no_close by (auto simp: writer_idle_def)
  then show ?thesis
  proof cases
    case 1
    then have "td_writer s = WrGone" using w closed no_close by (auto simp: writer_idle_def)
    with 1 show ?thesis by (simp add: link_rests_def)
  next
    case (2 d)
    then have "writer_idle s \<or> td_writer s = WrStop" using w gone no_close inv_link(6) [OF assms(1)] by auto
    with 2 inv_proxy(6) [OF assms(1)] show ?thesis by (auto simp: link_rests_def reader_full_def notifyCap_def)
  qed
qed

lemma stuckD:
  assumes "down_inv s" "stuck own s"
  shows "\<not> (\<exists>t. reader_moves s t)" "\<not> (\<exists>t. writer_moves s t)"
    "td_run s \<in> {RnGone, RnLocked} \<or> td_run s = RnSelect \<and> td_notify s = [] \<and> \<not> td_closed s
      \<or> td_run s \<in> {RnBroadcast, RnShare} \<and> td_connMu s"
    "td_remover s \<noteq> RmIdle" "td_want s = 0 \<or> td_connMu s" "\<not> (td_holder s = HSend \<and> td_run s = RnSelect)"
    "td_remover s = RmGone
      \<or> td_remover s = RmDrain \<and> (0 < td_want s \<or> td_holder s \<noteq> HNone) \<or> td_remover s = RmWantMu \<and> td_connMu s
      \<or> td_remover s = RmWantW \<and> (td_reader s = RdStop \<or> td_writer s = WrStop)
      \<or> td_remover s = RmClose \<and> (\<exists>d. td_reader s = RdSend d)"
  using assms(2) run_waits [OF assms(1), of own] submit_waits [of s] remover_waits [OF assms(1)]
  unfolding stuck_parts by blast+

lemma stuck_closing:
  assumes "down_inv s" "stuck own s" "holds_mu (td_remover s)"
  shows "waits_in_circle s"
proof -
  note px = inv_proxy [OF assms(1)] and st = stuckD [OF assms(1,2)]
  note rr = st(1) [unfolded reader_waits [OF assms(1)]] and ww = st(2) [unfolded writer_waits [OF assms(1)]]
  from st(7) assms(3) have "td_remover s = RmClose \<and> (\<exists>d. td_reader s = RdSend d)
      \<or> td_remover s = RmWantW \<and> (td_reader s = RdStop \<or> td_writer s = WrStop)"
    by auto
  then obtain d where d: "td_reader s = RdSend d" "td_remover s = RmClose \<or> td_remover s = RmWantW \<and> td_writer s = WrStop"
    using rr ww by (auto simp: writer_idle_def)
  then have "reader_full s" using rr by (auto simp: reader_full_def)
  moreover have "td_run s = RnBroadcast" using st(3) px(2-4,8) assms(3) d rr by (auto simp: notifyCap_def)
  moreover have "writer_idle s \<or> td_writer s = WrWantW" if "td_remover s = RmClose"
    using ww that d(1) assms(1) by (auto simp: down_inv_defs)
  ultimately show ?thesis using d(2) by (auto simp: waits_in_circle_def)
qed

lemma stuck_not_closing:
  assumes "down_inv s" "stuck own s" "\<not> holds_mu (td_remover s)"
  shows "torn_down s \<or> waits_for_itself s \<or> waits_for_share s"
proof -
  note px = inv_proxy [OF assms(1)] and st = stuckD [OF assms(1,2)]
  from link_waits [OF assms(1,3) st(1,2)]
  have link: "link_rests s" "td_reader s = RdGone \<or> td_notify s \<noteq> [] \<and> \<not> td_closed s" by blast+
  consider "td_remover s = RmGone" | "td_remover s = RmDrain" "0 < td_want s \<or> td_holder s \<noteq> HNone"
    | "td_remover s = RmWantMu" "td_connMu s"
    using st(7) assms(3) by auto
  then show ?thesis
  proof cases
    case 1
    with px have "td_want s = 0" "td_holder s = HNone" "\<not> td_connMu s" "td_closed s" by auto
    with 1 st(3) px(2) link have "torn_down s" by (auto simp: torn_down_def link_rests_def reader_full_def)
    then show ?thesis by simp
  next
    case 2
    with st(5) px(1) have "td_run s = RnLocked \<or> td_holder s \<noteq> HNone" by auto
    then show ?thesis
      using 2 link(1) st(3,6) px(2,3,8) by (cases "td_holder s") (auto simp: waits_for_itself_def waits_for_share_def)
  next
    case 3
    with px(1,4) have "td_run s = RnLocked" by auto
    with 3 link show ?thesis by (simp add: waits_for_itself_def)
  qed
qed

lemma waits_stuck:
  assumes "down_inv s" and waits: "torn_down s \<or> waits_in_circle s \<or> waits_for_itself s \<or> waits_for_share s"
  shows "stuck own s"
proof -
  note px = inv_proxy [OF assms(1)]
  note waits_eq = reader_waits [OF assms(1)] writer_waits [OF assms(1)] run_waits [OF assms(1)] submit_waits
    remover_waits [OF assms(1)]
  have link: "\<not> (\<exists>t. reader_moves s t)" "\<not> (\<exists>t. writer_moves s t)" if "link_rests s" "\<not> td_closed s"
    using that px(6) unfolding waits_eq(1,2) by (auto simp: link_rests_def reader_full_def)
  from waits consider "torn_down s" | "waits_in_circle s" | "waits_for_itself s" | "waits_for_share s" by blast
  then show "stuck own s"
  proof cases
    case 1
    then show ?thesis unfolding stuck_parts waits_eq by (simp add: torn_down_def)
  next
    case 2
    then show ?thesis using px unfolding stuck_parts waits_eq by (auto simp: waits_in_circle_def reader_full_def)
  next
    case 3
    with px have "\<not> td_closed s" "link_rests s" "td_connMu s" by (auto simp: waits_for_itself_def)
    with 3 link px show ?thesis unfolding stuck_parts waits_eq(3-5) by (auto simp: waits_for_itself_def)
  next
    case 4
    with px have "\<not> td_closed s" "link_rests s" "td_connMu s" by (auto simp: waits_for_share_def)
    with 4 link px show ?thesis unfolding stuck_parts waits_eq(3-5) by (auto simp: waits_for_share_def)
  qed
qed

lemma stuck_iff:
  assumes "down_inv s"
  shows "stuck own s \<longleftrightarrow> torn_down s \<or> waits_in_circle s \<or> waits_for_itself s \<or> waits_for_share s"
  using stuck_closing [OF assms] stuck_not_closing [OF assms] waits_stuck [OF assms] by blast

subsection \<open>How a session gets there\<close>

text \<open>States of a session whose connection is still open.\<close>

definition down_at :: "byte list list \<Rightarrow> byte list option \<times> byte list option \<Rightarrow> reading \<Rightarrow> running \<Rightarrow> nat \<Rightarrow> holding
    \<Rightarrow> removing \<Rightarrow> teardown" where
  "down_at ns st rd rn n h rm =
     \<lparr>td_conn = Start (NewConnection 1), td_rw = \<lparr>rw_readers = of_bool (sending rd), rw_writer = (rm = RmClose)\<rparr>,
      td_notify = ns, td_notify_closed = False, td_done_closed = False,
      td_connMu = (rn = RnLocked \<or> h \<noteq> HNone \<or> holds_mu rm), td_closed = False, td_stream = st,
      td_miner_open = (rm = RmIdle \<and> rn \<noteq> RnLocked), td_panicked = False,
      td_reader = rd, td_writer = WrSelect, td_run = rn, td_want = n, td_holder = h, td_remover = rm\<rparr>"

abbreviation down_reach :: "string \<Rightarrow> teardown \<Rightarrow> bool" where
  "down_reach own \<equiv> reach down_init (down_step own)"

lemma reach_move: "down_reach own s \<Longrightarrow> down_step own s t \<Longrightarrow> down_reach own t"
  by (rule reach_step)

lemma reach_start: "down_reach own (down_at [] (None, None) RdRead RnSelect 0 HNone RmIdle)"
proof -
  let ?s = "(down_at [] (None, None) RdRead RnSelect 0 HNone RmIdle)\<lparr>td_writer := WrTop\<rparr>"
  have "down_init ?s" unfolding down_init_def
    by (intro exI [of _ 1] exI [of _ "[]"]) (simp add: down_at_def rw_free_def Start_def NewConnection_def)
  moreover have "down_step own ?s (down_at [] (None, None) RdRead RnSelect 0 HNone RmIdle)"
    by (simp add: down_step_def writer_moves_iff down_at_def)
  ultimately show ?thesis by (blast intro: reach_init reach_move)
qed

lemma at_frame: "length d = 32 \<Longrightarrow> down_step own (down_at ns st RdRead rn n h rm) (down_at ns st (RdWantR d) rn n h rm)"
  by (simp add: down_step_def reader_moves_iff down_at_def Start_def)

lemma at_lock: "rm \<noteq> RmClose \<Longrightarrow> down_step own (down_at ns st (RdWantR d) rn n h rm) (down_at ns st (RdSend d) rn n h rm)"
  by (simp add: down_step_def reader_moves_iff down_at_def Start_def NewConnection_def rw_RLock_def)

lemma at_send: "length ns < notifyCap \<Longrightarrow>
   down_step own (down_at ns st (RdSend d) rn n h rm) (down_at (ns @ [d]) st RdRead rn n h rm)"
  by (simp add: down_step_def reader_moves_iff down_at_def rw_RUnlock_def)

lemma at_field: "field_step own st d = (st', js) \<Longrightarrow>
   down_step own (down_at (d # ns) st rd RnSelect n h rm)
     (down_at ns st' rd (if js = [] then RnSelect else RnBroadcast) n h rm)"
  by (simp add: down_step_def run_moves_iff take_field_def down_at_def)

lemma at_lost: "down_step own (down_at ns st rd RnBroadcast n HNone RmIdle) (down_at ns st rd RnLocked n HNone RmIdle)"
  by (simp add: down_step_def run_moves_iff down_at_def)

lemma at_share:
  "down_step own (down_at ns st rd RnSelect n HNone RmIdle) (down_at ns st rd RnSelect (n + 1) HNone RmIdle)"
  "down_step own (down_at ns st rd RnSelect (n + 1) HNone RmIdle) (down_at ns st rd RnSelect n HSend RmIdle)"
  "down_step own (down_at ns st rd RnSelect n HSend RmIdle) (down_at ns st rd RnShare n HWait RmIdle)"
  by (simp_all add: down_step_def submit_moves_iff down_at_def)

lemma at_hang_up: "down_step own (down_at ns st rd rn n h RmIdle) (down_at ns st rd rn n h RmDrain)"
  by (simp add: down_step_def remover_moves_iff down_at_def)

lemma at_drained: "down_step own (down_at ns st rd rn 0 HNone RmDrain) (down_at ns st rd rn 0 HNone RmWantMu)"
  by (simp add: down_step_def remover_moves_iff down_at_def)

lemma at_mutex: "rn \<noteq> RnLocked \<Longrightarrow>
   down_step own (down_at ns st rd rn n HNone RmWantMu) (down_at ns st rd rn n HNone RmWantW)"
  by (simp add: down_step_def remover_moves_iff down_at_def)

lemma at_close: "down_step own (down_at ns st rd rn n h RmWantW) (down_at ns st rd rn n h RmClose)"
  by (simp add: down_step_def remover_moves_iff down_at_def rw_announce_def)

lemma reach_send:
  assumes "down_reach own (down_at ns st RdRead rn n h rm)" and "length d = 32" and "rm \<noteq> RmClose"
  shows "down_reach own (down_at ns st (RdSend d) rn n h rm)"
  by (rule reach_move [OF reach_move [OF assms(1) at_frame [OF assms(2)]] at_lock [OF assms(3)]])

lemma reach_deliver:
  assumes "down_reach own (down_at ns st RdRead rn n h rm)" and "length d = 32" and "rm \<noteq> RmClose"
    and "length ns < notifyCap"
  shows "down_reach own (down_at (ns @ [d]) st RdRead rn n h rm)"
  by (rule reach_move [OF reach_send [OF assms(1-3)] at_send [OF assms(4)]])

text \<open>Three frames that \<open>Run\<close> does not take: two fill the channel, and the reader waits with the third.\<close>

lemma reach_full:
  assumes "down_reach own (down_at [] st RdRead rn n h rm)" and "length d = 32" and "rm \<noteq> RmClose"
  shows "down_reach own (down_at [d, d] st (RdSend d) rn n h rm)"
proof -
  have "down_reach own (down_at [d] st RdRead rn n h rm)"
    using reach_deliver [OF assms] by (simp add: notifyCap_def)
  from reach_deliver [OF this assms(2,3)] have "down_reach own (down_at [d, d] st RdRead rn n h rm)"
    by (simp add: notifyCap_def)
  then show ?thesis using assms(2,3) by (rule reach_send)
qed

lemma at_full:
  "reader_full (down_at [d, d] st (RdSend d) rn n h rm)" "writer_idle (down_at ns st rd rn n h rm)"
  by (simp_all add: reader_full_def writer_idle_def down_at_def notifyCap_def Start_def NewConnection_def)

text \<open>A task and its seed have arrived, and the job waits to be broadcast.\<close>

lemma reach_broadcast:
  "down_reach [] (down_at [] (None, Some (replicate 16 1)) RdRead RnBroadcast 0 HNone RmIdle)"
proof -
  let ?d = "replicate 32 (1 :: byte)"
  have "drop 24 ?d \<noteq> replicate 8 0" by (simp add: numeral_eq_Suc)
  then have task: "field_step [] (None, None) ?d = ((Some ?d, None), [])"
    and seed: "field_step [] (Some ?d, None) ?d = ((None, Some (replicate 16 1)), [(?d, ?d)])"
    using address_not_empty [of ?d] by (simp_all add: field_step_def)
  have "down_reach [] (down_at [?d] (None, None) RdRead RnSelect 0 HNone RmIdle)"
    using reach_deliver [OF reach_start, of ?d] by (simp add: notifyCap_def)
  from reach_move [OF this at_field [OF task]]
  have "down_reach [] (down_at [?d] (Some ?d, None) RdRead RnSelect 0 HNone RmIdle)"
    using reach_deliver [of "[]" "[]" "(Some ?d, None)" RnSelect 0 HNone RmIdle ?d] by (simp add: notifyCap_def)
  from reach_move [OF this at_field [OF seed]] show ?thesis by simp
qed

lemma circle_reached: "\<exists>s. down_reach [] s \<and> waits_in_circle s"
proof -
  let ?d = "replicate 32 (1 :: byte)" and ?st = "(None, Some (replicate 16 (1 :: byte)))"
  have "down_reach [] (down_at [?d, ?d] ?st (RdSend ?d) RnBroadcast 0 HNone RmIdle)"
    by (rule reach_full [OF reach_broadcast]) simp_all
  from reach_move [OF reach_move [OF this at_hang_up] at_drained]
  have "down_reach [] (down_at [?d, ?d] ?st (RdSend ?d) RnBroadcast 0 HNone RmWantMu)" .
  from reach_move [OF reach_move [OF this at_mutex] at_close]
  have "down_reach [] (down_at [?d, ?d] ?st (RdSend ?d) RnBroadcast 0 HNone RmClose)" by simp
  moreover have "waits_in_circle (down_at [?d, ?d] ?st (RdSend ?d) RnBroadcast 0 HNone RmClose)"
    using at_full by (simp add: waits_in_circle_def) (simp add: down_at_def)
  ultimately show ?thesis by blast
qed

lemma self_reached: "\<exists>s. down_reach [] s \<and> waits_for_itself s"
proof -
  let ?d = "replicate 32 (1 :: byte)" and ?st = "(None, Some (replicate 16 (1 :: byte)))"
  have "down_reach [] (down_at [?d, ?d] ?st (RdSend ?d) RnLocked 0 HNone RmIdle)"
    by (rule reach_full [OF reach_move [OF reach_broadcast at_lost]]) simp_all
  from reach_move [OF reach_move [OF this at_hang_up] at_drained]
  have "down_reach [] (down_at [?d, ?d] ?st (RdSend ?d) RnLocked 0 HNone RmWantMu)" .
  moreover have "waits_for_itself (down_at [?d, ?d] ?st (RdSend ?d) RnLocked 0 HNone RmWantMu)"
    using at_full by (simp add: waits_for_itself_def link_rests_def) (simp add: down_at_def)
  ultimately show ?thesis by blast
qed

lemma share_reached: "\<exists>s. down_reach [] s \<and> waits_for_share s"
proof -
  let ?d = "replicate 32 (1 :: byte)" and ?st = "(None, None)"
  have "down_reach [] (down_at [] ?st RdRead RnShare 0 HWait RmIdle)"
    by (rule reach_move [OF reach_move [OF reach_move [OF reach_start at_share(1)] at_share(2)] at_share(3)])
  from reach_full [OF this, of ?d] have "down_reach [] (down_at [?d, ?d] ?st (RdSend ?d) RnShare 0 HWait RmIdle)"
    by simp
  from reach_move [OF this at_hang_up] have "down_reach [] (down_at [?d, ?d] ?st (RdSend ?d) RnShare 0 HWait RmDrain)" .
  moreover have "waits_for_share (down_at [?d, ?d] ?st (RdSend ?d) RnShare 0 HWait RmDrain)"
    using at_full by (simp add: waits_for_share_def link_rests_def) (simp add: down_at_def)
  ultimately show ?thesis by blast
qed

subsection \<open>Property\<close>

text \<open>
  C29: In which states the session of a miner that logs in once comes to a standstill, from when its
  \<open>connect\<close> has returned. Nothing moves exactly when all goroutines have returned, the connection and the proxy
  closed, or in one of three deadlocks: the circle of the reader, \<open>Run\<close> and the remover, with the writer in it or not;
  \<open>Run\<close> waiting for itself after a failed write to the miner; or a request in \<open>Submit\<close> and \<open>Run\<close> waiting for each
  other over a share. All three are reached. No reader ever sends on the closed channel.
\<close>

theorem teardown_standstill:
  "(down_reach own s \<longrightarrow>
      (stuck own s \<longleftrightarrow> torn_down s \<and> c_isClosed (td_conn s) \<and> td_closed s
         \<or> waits_in_circle s \<or> waits_for_itself s \<or> waits_for_share s)
      \<and> \<not> td_panicked s)
   \<and> (\<exists>s. down_reach [] s \<and> waits_in_circle s) \<and> (\<exists>s. down_reach [] s \<and> waits_for_itself s)
   \<and> (\<exists>s. down_reach [] s \<and> waits_for_share s)"
proof (intro conjI impI circle_reached self_reached share_reached)
  assume "down_reach own s"
  then have inv: "down_inv s" by (rule down.reach_inv)
  then show "\<not> td_panicked s" by (simp add: down_inv_def end_inv_def)
  have "torn_down s \<longleftrightarrow> torn_down s \<and> c_isClosed (td_conn s) \<and> td_closed s"
    using inv by (auto simp: torn_down_def down_inv_def end_inv_def)
  with stuck_iff [OF inv]
  show "stuck own s \<longleftrightarrow> torn_down s \<and> c_isClosed (td_conn s) \<and> td_closed s
      \<or> waits_in_circle s \<or> waits_for_itself s \<or> waits_for_share s"
    by blast
qed

theorem teardown_standstill_witness:
  "(\<exists>s. down_reach [] s \<and> waits_in_circle s \<and> stuck [] s \<and> \<not> torn_down s)
   \<and> (\<exists>s. down_reach [] s \<and> waits_for_share s \<and> stuck [] s \<and> \<not> torn_down s)"
proof
  obtain s where s: "down_reach [] s" "waits_in_circle s" using circle_reached by blast
  then have "\<not> torn_down s" by (auto simp: torn_down_def waits_in_circle_def)
  with s show "\<exists>s. down_reach [] s \<and> waits_in_circle s \<and> stuck [] s \<and> \<not> torn_down s"
    using teardown_standstill [of "[]" s] by blast
next
  obtain s where s: "down_reach [] s" "waits_for_share s" using share_reached by blast
  then have "\<not> torn_down s" by (auto simp: torn_down_def waits_for_share_def)
  with s show "\<exists>s. down_reach [] s \<and> waits_for_share s \<and> stuck [] s \<and> \<not> torn_down s"
    using teardown_standstill [of "[]" s] by blast
qed

end
