(* ===== verification/Codec.thy ===== *)
theory Codec
  imports Session
begin

text \<open>
  The server's side of the stratum protocol: \<open>server/stratum/codec.go\<close> and the request type in
  \<open>server/stratum/server.go\<close>, with what \<open>net/rpc\<close> makes of the method name. JSON text is parsed
  elsewhere (theory Json): what is read is a JSON value, or nothing when reading fails, and what is
  written is a list of JSON values.

  \<open>mk_error\<close> is how an error of package \<open>jsonrpc2\<close> with a code and a message looks in JSON, and
  \<open>title\<close> is \<open>strings.Title\<close> on names that are not ASCII.
\<close>

subsection \<open>Requests\<close>

text \<open>A \<open>*json.RawMessage\<close> is \<open>None\<close> when it is nil.\<close>

record server_request =
  rq_Version :: string
  rq_Method :: string
  rq_Params :: "json option"
  rq_ID :: "json option"

definition empty_request :: server_request where
  "empty_request = \<lparr>rq_Version = [], rq_Method = [], rq_Params = None, rq_ID = None\<rparr>"

definition request_reset :: "server_request \<Rightarrow> server_request" where
  "request_reset r = empty_request"

definition request_names :: "string list" where
  "request_names = [''jsonrpc'', ''method'', ''params'', ''id'']"

text \<open>A string field: \<open>null\<close> leaves it, a string sets it, anything else is an error.\<close>

fun string_field :: "string \<Rightarrow> json \<Rightarrow> string option" where
  "string_field s JNull = Some s"
| "string_field s (JStr t) = Some t"
| "string_field s _ = None"

definition request_member :: "server_request \<times> bool \<Rightarrow> string \<times> json \<Rightarrow> server_request \<times> bool" where
  "request_member st m =
     (case st of (r, ok) \<Rightarrow> case m of (k, j) \<Rightarrow>
        case find_field request_names k of
          None \<Rightarrow> (r, ok)
        | Some i \<Rightarrow>
            if i = 0 then
              (case string_field (rq_Version r) j of None \<Rightarrow> (r, False) | Some s \<Rightarrow> (r\<lparr>rq_Version := s\<rparr>, ok))
            else if i = 1 then
              (case string_field (rq_Method r) j of None \<Rightarrow> (r, False) | Some s \<Rightarrow> (r\<lparr>rq_Method := s\<rparr>, ok))
            else if i = 2 then (r\<lparr>rq_Params := raw_pointer j\<rparr>, ok)
            else (r\<lparr>rq_ID := raw_pointer j\<rparr>, ok))"

definition unmarshal_request :: "server_request \<Rightarrow> json \<Rightarrow> server_request \<times> bool" where
  "unmarshal_request r raw =
     (case raw of JNull \<Rightarrow> (r, True) | JObj kvs \<Rightarrow> foldl request_member (r, True) kvs | _ \<Rightarrow> (r, False))"

fun raw_members :: "json \<Rightarrow> string \<rightharpoonup> json option" where
  "raw_members (JObj kvs) = raw_map kvs"
| "raw_members _ = Map.empty"

fun is_container :: "json option \<Rightarrow> bool" where
  "is_container (Some (JArr _)) = True"
| "is_container (Some (JObj _)) = True"
| "is_container _ = False"

text \<open>The first byte of an id must not be that of \<open>true\<close>, \<open>false\<close>, an object or an array.\<close>

fun bad_id :: "json option \<Rightarrow> bool" where
  "bad_id (Some (JBool _)) = True"
| "bad_id (Some (JArr _)) = True"
| "bad_id (Some (JObj _)) = True"
| "bad_id _ = False"

text \<open>\<open>serverRequest.UnmarshalJSON\<close>; every error is "bad request".\<close>

definition request_UnmarshalJSON :: "server_request \<Rightarrow> json \<Rightarrow> server_request option" where
  "request_UnmarshalJSON r raw =
     (case unmarshal_request (request_reset r) raw of (r, ok) \<Rightarrow>
        if \<not> ok then None
        else
          let o' = raw_members raw; okID = o' ''id'' \<noteq> None; okParams = o' ''params'' \<noteq> None in
          if okParams \<and> \<not> is_container (rq_Params r) then None
          else
            let r = (if okID \<and> rq_ID r = None then r\<lparr>rq_ID := Some JNull\<rparr> else r) in
            if okID \<and> bad_id (rq_ID r) then None else Some r)"

subsection \<open>Errors\<close>

text \<open>The errors of \<open>errors.go\<close>: code and message.\<close>

definition errParse :: "int \<times> string" where [simp]: "errParse = (-32700, ''parse error'')"
definition errRequest :: "int \<times> string" where [simp]: "errRequest = (-32600, ''invalid request'')"
definition errMethod :: "int \<times> string" where "errMethod = (-32601, ''method not found'')"
definition errParams :: "int \<times> string" where "errParams = (-32602, ''invalid params'')"
definition errInternal :: "int \<times> string" where [simp]: "errInternal = (-32603, ''internal error'')"
definition errServer :: "int \<times> string" where "errServer = (-32000, ''server error'')"
definition errServerError :: "int \<times> string" where
  "errServerError = (-32001, ''jsonrpc2.Error: json.Marshal failed'')"

subsection \<open>Method names\<close>

definition is_ascii :: "string \<Rightarrow> bool" where
  "is_ascii s = list_all (\<lambda>c. (of_char c :: nat) < 128) s"

definition is_lower :: "char \<Rightarrow> bool" where
  "is_lower c \<longleftrightarrow> 97 \<le> (of_char c :: nat) \<and> (of_char c :: nat) \<le> 122"

definition upper_char :: "char \<Rightarrow> char" where
  "upper_char c = (if is_lower c then char_of ((of_char c :: nat) - 32) else c)"

text \<open>Letters, digits and the underscore make words; a letter that begins one is capitalised.\<close>

definition is_separator :: "char \<Rightarrow> bool" where
  "is_separator c \<longleftrightarrow> (let n = of_char c :: nat in
     \<not> (48 \<le> n \<and> n \<le> 57) \<and> \<not> (97 \<le> n \<and> n \<le> 122) \<and> \<not> (65 \<le> n \<and> n \<le> 90) \<and> n \<noteq> 95)"

fun title_from :: "char \<Rightarrow> string \<Rightarrow> string" where
  "title_from prev [] = []"
| "title_from prev (c # s) = (if is_separator prev then upper_char c else c) # title_from c s"

definition strings_Title :: "(string \<Rightarrow> string) \<Rightarrow> string \<Rightarrow> string" where
  "strings_Title title s = (if is_ascii s then title_from (CHR '' '') s else title s)"

definition service_method :: "(string \<Rightarrow> string) \<Rightarrow> string \<Rightarrow> string" where
  "service_method title m =
     (let sm = strings_Title title m in if str_contains ''mining'' sm then sm else ''mining.'' @ sm)"

text \<open>
  What \<open>net/rpc\<close> does with the name, for the one service \<open>mining\<close> and the methods of \<open>Mining\<close>
  that \<open>NewProxy\<close> registers: the method is what follows the last dot.
\<close>

datatype rpc_target = IllFormed | NoService | NoMethod | CallLogin | CallGetjob | CallSubmit | CallKeepalived

definition rpc_lookup :: "string \<Rightarrow> rpc_target" where
  "rpc_lookup sm =
     (if CHR ''.'' \<notin> set sm then IllFormed
      else
        let meth = rev (takeWhile (\<lambda>c. c \<noteq> CHR ''.'') (rev sm));
            service = take (length sm - length meth - 1) sm
        in if service \<noteq> ''mining'' then NoService
           else if meth = ''Login'' then CallLogin else if meth = ''Getjob'' then CallGetjob
           else if meth = ''Submit'' then CallSubmit else if meth = ''Keepalived'' then CallKeepalived
           else NoMethod)"

subsection \<open>The codec\<close>

record codec =
  cd_seq :: u64
  cd_pending :: "json option safemap"
  cd_req :: server_request
  cd_out :: "json list"

definition NewDefaultServerCodec :: codec where
  "NewDefaultServerCodec = \<lparr>cd_seq = 0, cd_pending = NewSafeMap, cd_req = empty_request, cd_out = []\<rparr>"

definition json_id :: "json option \<Rightarrow> json" where
  "json_id i = (case i of None \<Rightarrow> JNull | Some j \<Rightarrow> j)"

text \<open>\<open>serverResponse\<close> in JSON: a nil \<open>Result\<close> or \<open>Error\<close> is left out.\<close>

definition server_response :: "json option \<Rightarrow> json option \<Rightarrow> json option \<Rightarrow> json" where
  "server_response i result err =
     JObj ([(''jsonrpc'', JStr ''2.0''), (''id'', json_id i)]
       @ (case result of None \<Rightarrow> [] | Some r \<Rightarrow> [(''result'', r)])
       @ (case err of None \<Rightarrow> [] | Some e \<Rightarrow> [(''error'', e)]))"

definition send :: "json \<Rightarrow> codec \<Rightarrow> codec" where
  "send j c = c\<lparr>cd_out := cd_out c @ [j]\<rparr>"

text \<open>\<open>ReadRequestHeader\<close>: the service method and the sequence number for \<open>net/rpc\<close>, or an error.\<close>

definition ReadRequestHeader :: "(int \<Rightarrow> string \<Rightarrow> json) \<Rightarrow> (string \<Rightarrow> string) \<Rightarrow> json option \<Rightarrow> codec
    \<Rightarrow> (string \<times> u64) option \<times> codec" where
  "ReadRequestHeader mk_error title raw c =
     (case raw of
        None \<Rightarrow> (None, send (server_response (Some JNull) None (Some (mk_error (fst errParse) (snd errParse)))) c)
      | Some raw \<Rightarrow>
          (case request_UnmarshalJSON (cd_req c) raw of
             None \<Rightarrow> (None, send (server_response (Some JNull) None (Some (mk_error (fst errRequest) (snd errRequest)))) c)
           | Some r \<Rightarrow>
               let sm = service_method title (rq_Method r);
                   c = c\<lparr>cd_req := r, cd_seq := cd_seq c + 1\<rparr>;
                   c = c\<lparr>cd_pending := sm_set (cd_pending c) (cd_seq c) (rq_ID r)\<rparr>;
                   c = c\<lparr>cd_req := r\<lparr>rq_ID := None\<rparr>\<rparr>
               in (Some (sm, cd_seq c), c)))"

text \<open>
  \<open>ReadRequestBody\<close> into a \<open>PassThruParams\<close> is \<open>ReadParams\<close> of theory Session on the params of the
  request last read; an error has the code of \<open>errParams\<close> and the text of the JSON package.
\<close>

definition ReadRequestBody :: "codec \<Rightarrow> params option" where
  "ReadRequestBody c = ReadParams (rq_Params (cd_req c))"

text \<open>
  \<open>WriteResponse\<close>: \<open>False\<close> is an error, for an unknown sequence number or from \<open>Encode\<close>; \<open>wr\<close> says
  whether \<open>Encode\<close> can write, which it can not when the miner is gone. What \<open>pending\<close> returns is
  an interface that holds a pointer, which is not the nil interface even when the pointer is nil.
\<close>

definition interface_nil :: "json option \<Rightarrow> bool" where
  "interface_nil b = False"

definition WriteResponse :: "bool \<Rightarrow> (int \<Rightarrow> string \<Rightarrow> json) \<Rightarrow> u64 \<Rightarrow> string \<Rightarrow> json option \<Rightarrow> codec \<Rightarrow> bool \<times> codec" where
  "WriteResponse wr mk_error seq err x c =
     (case sm_get (cd_pending c) seq of
        None \<Rightarrow> (False, c)
      | Some b \<Rightarrow>
          let c = c\<lparr>cd_pending := sm_del (cd_pending c) seq\<rparr> in
          if interface_nil b then (True, c)
          else if \<not> wr then (False, c)
          else (True, send
            (if err = [] then server_response b (Some (case x of None \<Rightarrow> JNull | Some x \<Rightarrow> x)) None
             else server_response b None (Some (mk_error (fst errInternal) err))) c))"

definition Notify :: "string \<Rightarrow> json \<Rightarrow> codec \<Rightarrow> codec" where
  "Notify meth args c = send (JObj [(''method'', JStr meth), (''params'', args)]) c"

subsection \<open>The codec at work\<close>

text \<open>
  Reading and answering, in any order: \<open>cs_asked\<close> records the id of the request with each
  sequence number, \<open>cs_answered\<close> the numbers that have been answered and \<open>cs_lost\<close> those whose
  response could not be written. Sequence numbers run out
  after 2^64 requests.
\<close>

record codec_sys =
  cs_codec :: codec
  cs_asked :: "u64 \<rightharpoonup> json option"
  cs_answered :: "u64 list"
  cs_lost :: "u64 list"

definition note_response :: "u64 \<Rightarrow> bool \<Rightarrow> codec \<Rightarrow> codec_sys \<Rightarrow> codec_sys" where
  "note_response n ok c s = s\<lparr>cs_codec := c, cs_answered := cs_answered s @ (if ok then [n] else []),
     cs_lost := cs_lost s @ (if \<not> ok \<and> sm_get (cd_pending (cs_codec s)) n \<noteq> None then [n] else [])\<rparr>"

abbreviation responded :: "codec_sys \<Rightarrow> u64 set" where
  "responded s \<equiv> set (cs_answered s) \<union> set (cs_lost s)"

inductive codec_step :: "(int \<Rightarrow> string \<Rightarrow> json) \<Rightarrow> (string \<Rightarrow> string) \<Rightarrow> codec_sys \<Rightarrow> codec_sys \<Rightarrow> bool"
  for mk_error title where
  codec_read: "cd_seq (cs_codec s) \<noteq> MaxUint64 \<Longrightarrow>
     request_UnmarshalJSON (cd_req (cs_codec s)) raw = Some r \<Longrightarrow>
     ReadRequestHeader mk_error title (Some raw) (cs_codec s) = (Some (sm, n), c) \<Longrightarrow>
     codec_step mk_error title s (s\<lparr>cs_codec := c, cs_asked := (cs_asked s)(n \<mapsto> rq_ID r)\<rparr>)"
| codec_refuse: "ReadRequestHeader mk_error title raw (cs_codec s) = (None, c) \<Longrightarrow>
     codec_step mk_error title s (s\<lparr>cs_codec := c\<rparr>)"
| codec_write: "WriteResponse wr mk_error n err x (cs_codec s) = (ok, c) \<Longrightarrow>
     codec_step mk_error title s (note_response n ok c s)"
| codec_notify: "codec_step mk_error title s (s\<lparr>cs_codec := Notify meth args (cs_codec s)\<rparr>)"

definition codec_init :: "codec_sys \<Rightarrow> bool" where
  "codec_init s \<longleftrightarrow> s = \<lparr>cs_codec = NewDefaultServerCodec, cs_asked = Map.empty, cs_answered = [], cs_lost = []\<rparr>"

definition codec_inv :: "codec_sys \<Rightarrow> bool" where
  "codec_inv s \<longleftrightarrow> sm_inv (cd_pending (cs_codec s)) \<and>
     sm_get (cd_pending (cs_codec s)) = (cs_asked s) |` (- responded s) \<and>
     distinct (cs_answered s @ cs_lost s) \<and> responded s \<subseteq> dom (cs_asked s) \<and>
     dom (cs_asked s) = {n. 0 < n \<and> n \<le> cd_seq (cs_codec s)}"

lemma send_simps [simp]:
  "cd_seq (send j c) = cd_seq c" "cd_pending (send j c) = cd_pending c" "cd_req (send j c) = cd_req c"
  "cd_out (send j c) = cd_out c @ [j]"
  by (simp_all add: send_def)

lemma Notify_simps [simp]: "cd_seq (Notify m a c) = cd_seq c" "cd_pending (Notify m a c) = cd_pending c"
  by (simp_all add: Notify_def)

lemma ReadRequestHeader_Some:
  "request_UnmarshalJSON (cd_req c) raw = Some r \<Longrightarrow>
   ReadRequestHeader mk_error title (Some raw) c =
     (Some (service_method title (rq_Method r), cd_seq c + 1),
      c\<lparr>cd_req := r\<lparr>rq_ID := None\<rparr>, cd_seq := cd_seq c + 1,
        cd_pending := sm_set (cd_pending c) (cd_seq c + 1) (rq_ID r)\<rparr>)"
  by (simp add: ReadRequestHeader_def Let_def)

lemma ReadRequestHeader_None:
  "ReadRequestHeader mk_error title raw c = (None, d) \<Longrightarrow> \<exists>j. d = send j c"
  by (auto simp: ReadRequestHeader_def Let_def split: option.splits)

lemma WriteResponse_eq:
  "WriteResponse wr mk_error n err x c =
     (case sm_get (cd_pending c) n of
        None \<Rightarrow> (False, c)
      | Some b \<Rightarrow> if wr then (True, send
          (if err = [] then server_response b (Some (json_id x)) None
           else server_response b None (Some (mk_error (-32603) err)))
          (c\<lparr>cd_pending := sm_del (cd_pending c) n\<rparr>))
        else (False, c\<lparr>cd_pending := sm_del (cd_pending c) n\<rparr>))"
  by (simp add: WriteResponse_def interface_nil_def json_id_def Let_def split: option.split)

lemma codec_inv_init: "codec_init s \<Longrightarrow> codec_inv s"
  using sm.inv_empty sm.get_empty by (simp add: codec_init_def codec_inv_def NewDefaultServerCodec_def)

lemma codec_inv_step:
  assumes inv: "codec_inv s" and "codec_step mk_error title s t"
  shows "codec_inv t"
  using assms(2)
proof cases
  case (codec_read raw r sm n c)
  let ?c = "cs_codec s"
  have "MaxUint64 = - 1" by (simp add: MaxUint64_def)
  then have room: "cd_seq ?c \<noteq> - 1" using codec_read(2) by metis
  have n: "n = cd_seq ?c + 1" and c: "cd_seq c = n" "cd_pending c = sm_set (cd_pending ?c) n (rq_ID r)"
    using codec_read(4) unfolding ReadRequestHeader_Some [OF codec_read(3)] by auto
  have fresh: "n \<notin> dom (cs_asked s)" using next_word(3) [OF room] inv n by (auto simp: codec_inv_def)
  have "sm_inv (cd_pending ?c)" using inv by (simp add: codec_inv_def)
  note get = sm.inv_put [OF this, of n "rq_ID r"] sm.get_put [OF this, of n "rq_ID r"]
  have "((cs_asked s) |` (- responded s))(n \<mapsto> rq_ID r) = ((cs_asked s)(n \<mapsto> rq_ID r)) |` (- responded s)"
    using fresh inv by (auto simp: codec_inv_def restrict_map_def fun_eq_iff)
  moreover have "insert n {m. 0 < m \<and> m \<le> cd_seq ?c} = {m. 0 < m \<and> m \<le> n}"
    using next_word(1,2) [OF room] by (auto simp: n)
  ultimately show ?thesis using inv get c codec_read(1) by (auto simp: codec_inv_def)
next
  case (codec_refuse raw c)
  with ReadRequestHeader_None [OF codec_refuse(2)] inv show ?thesis by (auto simp: codec_inv_def)
next
  case (codec_write wr n err x ok c)
  show ?thesis
  proof (cases "sm_get (cd_pending (cs_codec s)) n")
    case None
    with codec_write have "t = s" by (simp add: WriteResponse_eq note_response_def)
    with inv show ?thesis by simp
  next
    case (Some b)
    have n: "n \<notin> responded s" "n \<in> dom (cs_asked s)"
      using Some inv by (auto simp: codec_inv_def restrict_map_def split: if_splits)
    have "sm_inv (cd_pending (cs_codec s))" using inv by (simp add: codec_inv_def)
    note del = sm.inv_del [OF this, of n] sm.get_del [OF this, of n]
    have "((cs_asked s) |` (- responded s))(n := None) = (cs_asked s) |` (- insert n (responded s))"
      by (auto simp: restrict_map_def fun_eq_iff)
    with codec_write Some n del inv show ?thesis
      by (cases wr) (auto simp: codec_inv_def WriteResponse_eq note_response_def)
  qed
next
  case (codec_notify meth args)
  with inv show ?thesis by (auto simp: codec_inv_def)
qed

interpretation codec: invariant_system codec_init "codec_step mk_error title" codec_inv
  using codec_inv_init codec_inv_step by unfold_locales

lemmas name_simps = service_method_def strings_Title_def is_ascii_def is_separator_def upper_char_def
  is_lower_def char_of_def bit_0 has_prefix_def Let_def

subsection \<open>Properties\<close>

text \<open>
  C13: Whatever the order in which requests are read and answered, the sequence numbers given out
  are 1, 2, 3 and so on, each is answered at most once, and the answer is one response that carries the
  id of the very request the number was given to. A request without an id is answered like the
  others, with the id \<open>null\<close>. A response that cannot be written is lost: it is not tried again.
\<close>

theorem codec_answers_once:
  assumes "reach codec_init (codec_step mk_error title) s"
  shows "dom (cs_asked s) = {n. 0 < n \<and> n \<le> cd_seq (cs_codec s)} \<and> distinct (cs_answered s @ cs_lost s)
    \<and> WriteResponse wr mk_error n err x (cs_codec s) =
      (case cs_asked s n of
         Some i \<Rightarrow> if n \<in> set (cs_answered s) \<union> set (cs_lost s) then (False, cs_codec s)
           else if \<not> wr then (False, (cs_codec s)\<lparr>cd_pending := sm_del (cd_pending (cs_codec s)) n\<rparr>)
           else (True, (cs_codec s)\<lparr>cd_pending := sm_del (cd_pending (cs_codec s)) n,
             cd_out := cd_out (cs_codec s) @
               [server_response i (if err = [] then Some (json_id x) else None)
                  (if err = [] then None else Some (mk_error (-32603) err))]\<rparr>)
       | None \<Rightarrow> (False, cs_codec s))"
proof -
  have inv: "codec_inv s" by (rule codec.reach_inv [OF assms])
  then have "sm_get (cd_pending (cs_codec s)) n = (if n \<in> responded s then None else cs_asked s n)"
    by (simp add: codec_inv_def restrict_map_def)
  with inv show ?thesis
    by (auto simp: codec_inv_def WriteResponse_eq send_def split: option.split)
qed

theorem codec_answers_once_witness:
  "\<exists>c. ReadRequestHeader (\<lambda>c m. JStr m) id (Some (JObj [(''method'', JStr ''login'')])) NewDefaultServerCodec
       = (Some (''mining.Login'', 1), c)
     \<and> cd_out (snd (WriteResponse True (\<lambda>c m. JStr m) 1 [] None c))
       = [JObj [(''jsonrpc'', JStr ''2.0''), (''id'', JNull), (''result'', JNull)]]"
proof -
  let ?raw = "JObj [(''method'', JStr ''login'')]"
  let ?r = "empty_request\<lparr>rq_Method := ''login''\<rparr>"
  let ?s = "\<lparr>cs_codec = NewDefaultServerCodec, cs_asked = Map.empty, cs_answered = [], cs_lost = []\<rparr>"
  have req: "request_UnmarshalJSON (cd_req NewDefaultServerCodec) ?raw = Some ?r"
    by (simp add: request_UnmarshalJSON_def unmarshal_request_def request_member_def request_names_def
        request_reset_def find_field_def empty_request_def raw_map_def Let_def)
  have name: "service_method id ''login'' = ''mining.Login''"
    by (simp add: name_simps)
  define c where "c = snd (ReadRequestHeader (\<lambda>c m. JStr m) id (Some ?raw) NewDefaultServerCodec)"
  have c: "ReadRequestHeader (\<lambda>c m. JStr m) id (Some ?raw) NewDefaultServerCodec = (Some (''mining.Login'', 1), c)"
    unfolding c_def ReadRequestHeader_Some [OF req] by (simp add: name NewDefaultServerCodec_def empty_request_def)
  have "reach codec_init (codec_step (\<lambda>c m. JStr m) id) ?s"
    by (rule reach_init) (simp add: codec_init_def)
  moreover have "codec_step (\<lambda>c m. JStr m) id ?s (?s\<lparr>cs_codec := c, cs_asked := (cs_asked ?s)(1 \<mapsto> rq_ID ?r)\<rparr>)"
    by (rule codec_read [OF _ _ , where raw = ?raw])
      (use req c in \<open>simp_all add: NewDefaultServerCodec_def MaxUint64_def\<close>)
  ultimately have r: "reach codec_init (codec_step (\<lambda>c m. JStr m) id)
      (?s\<lparr>cs_codec := c, cs_asked := (cs_asked ?s)(1 \<mapsto> rq_ID ?r)\<rparr>)"
    by (rule reach_step)
  have "cd_out c = []"
    unfolding c_def ReadRequestHeader_Some [OF req] by (simp add: NewDefaultServerCodec_def)
  then show ?thesis
    using c codec_answers_once [OF r, of True 1 "[]" None]
    by (intro exI [of _ c]) (simp add: server_response_def json_id_def empty_request_def)
qed

subsection \<open>Which handler a request reaches\<close>

lemma takeWhile_stop: "\<not> P y \<Longrightarrow> length (takeWhile P (xs @ y # ys)) \<le> length xs"
  by (induction xs) auto

lemma take_service:
  assumes "sm = x @ CHR ''.'' # t"
  shows "take (length x) (take (length sm - length (rev (takeWhile (\<lambda>c. c \<noteq> CHR ''.'') (rev sm))) - 1) sm) = x"
proof -
  have "length (takeWhile (\<lambda>c. c \<noteq> CHR ''.'') (rev t @ CHR ''.'' # rev x)) \<le> length t"
    using takeWhile_stop [of "\<lambda>c. c \<noteq> CHR ''.''" "CHR ''.''" "rev t" "rev x"] by simp
  then have "length x \<le> length sm - length (rev (takeWhile (\<lambda>c. c \<noteq> CHR ''.'') (rev sm))) - 1"
    using assms by simp
  then show ?thesis using assms by (simp add: min_absorb1)
qed

lemma rpc_lookup_other:
  assumes "sm = x @ CHR ''.'' # t" and "take (length x) ''mining'' \<noteq> x"
  shows "rpc_lookup sm = NoService"
proof -
  have "take (length sm - length (rev (takeWhile (\<lambda>c. c \<noteq> CHR ''.'') (rev sm))) - 1) sm \<noteq> ''mining''"
    using take_service [OF assms(1)] assms(2) by metis
  then show ?thesis using assms(1) by (simp add: rpc_lookup_def Let_def)
qed

lemma rpc_lookup_head: "CHR ''.'' \<in> set sm \<Longrightarrow> hd sm \<noteq> CHR ''m'' \<Longrightarrow> rpc_lookup sm = NoService"
proof -
  assume dot: "CHR ''.'' \<in> set sm" and head: "hd sm \<noteq> CHR ''m''"
  have "take n sm \<noteq> ''mining''" for n using dot head by (cases sm; cases n) auto
  with dot show ?thesis by (simp add: rpc_lookup_def Let_def)
qed

lemma rpc_lookup_mining:
  assumes "CHR ''.'' \<notin> set t"
  shows "rpc_lookup (''mining.'' @ t) =
    (if t = ''Login'' then CallLogin else if t = ''Getjob'' then CallGetjob
     else if t = ''Submit'' then CallSubmit else if t = ''Keepalived'' then CallKeepalived else NoMethod)"
proof -
  have "takeWhile (\<lambda>c. c \<noteq> CHR ''.'') (rev t @ CHR ''.'' # rev ''mining'') = rev t"
    using assms by (subst takeWhile_append2) auto
  then have "rev (takeWhile (\<lambda>c. c \<noteq> CHR ''.'') (rev (''mining.'' @ t))) = t" by simp
  then show ?thesis by (simp add: rpc_lookup_def Let_def)
qed

text \<open>Capitals, and names of letters only.\<close>

lemma upper_char_cases:
  "upper_char c = C \<Longrightarrow> c = C \<or> is_lower c \<and> (of_char C :: nat) + 32 = of_char c"
proof (cases "is_lower c")
  case True
  assume "upper_char c = C"
  with True have "of_char C = ((of_char c :: nat) - 32) mod 256" by (auto simp: upper_char_def)
  moreover have "(of_char c :: nat) - 32 < 256" "32 \<le> (of_char c :: nat)" using True by (auto simp: is_lower_def)
  ultimately have "(of_char C :: nat) + 32 = of_char c" by simp
  with True show ?thesis by blast
qed (simp add: upper_char_def)

lemma upper_char_dot [simp]: "upper_char c = CHR ''.'' \<longleftrightarrow> c = CHR ''.''" "CHR ''.'' = upper_char c \<longleftrightarrow> c = CHR ''.''"
  using upper_char_cases [of c "CHR ''.''"] by (auto simp: is_lower_def upper_char_def)

lemma upper_char_not_m: "upper_char c \<noteq> CHR ''m''"
proof
  assume m: "upper_char c = CHR ''m''"
  then have "c = CHR ''m''" using upper_char_cases [OF m] by (auto simp: is_lower_def)
  with m show False by (simp add: upper_char_def is_lower_def char_of_def bit_0)
qed

lemma title_from_dot: "CHR ''.'' \<in> set (title_from p s) \<longleftrightarrow> CHR ''.'' \<in> set s"
  by (induction p s rule: title_from.induct) auto

lemma title_from_word:
  "\<not> is_separator p \<Longrightarrow> list_all (\<lambda>c. \<not> is_separator c) w \<Longrightarrow> title_from p s = w \<longleftrightarrow> s = w"
  by (induction w arbitrary: p s) (case_tac s; auto)+

lemma char_of_code: "(of_char c :: nat) = n \<Longrightarrow> c = char_of n"
  by auto

lemma title_name:
  assumes "list_all (\<lambda>c. \<not> is_separator c) w" and "\<not> is_separator C" "\<not> is_separator (char_of ((of_char C :: nat) + 32))"
    and "upper_char C = C" "upper_char (char_of ((of_char C :: nat) + 32)) = C"
  shows "title_from (CHR '' '') m = C # w \<longleftrightarrow> m = C # w \<or> m = char_of ((of_char C :: nat) + 32) # w"
proof (cases m)
  case (Cons c s)
  have space: "is_separator (CHR '' '')" by (simp add: is_separator_def)
  have "upper_char c = C \<longleftrightarrow> c = C \<or> c = char_of ((of_char C :: nat) + 32)"
    using upper_char_cases [of c C] char_of_code [of c "of_char C + 32"] assms(4,5) by metis
  with title_from_word [OF _ assms(1), of c s] assms(2,3) Cons space show ?thesis by auto
qed simp

lemmas letter_simps = is_separator_def upper_char_def is_lower_def char_of_def bit_0 Let_def

lemma title_names:
  "title_from (CHR '' '') m = ''Login'' \<longleftrightarrow> m = ''Login'' \<or> m = ''login''"
  "title_from (CHR '' '') m = ''Getjob'' \<longleftrightarrow> m = ''Getjob'' \<or> m = ''getjob''"
  "title_from (CHR '' '') m = ''Submit'' \<longleftrightarrow> m = ''Submit'' \<or> m = ''submit''"
  "title_from (CHR '' '') m = ''Keepalived'' \<longleftrightarrow> m = ''Keepalived'' \<or> m = ''keepalived''"
  using title_name [of "''ogin''" "CHR ''L''" m] title_name [of "''etjob''" "CHR ''G''" m]
    title_name [of "''ubmit''" "CHR ''S''" m] title_name [of "''eepalived''" "CHR ''K''" m]
  by (simp_all add: letter_simps)

text \<open>
  C40: Where a request with an ASCII method name goes. With no dot in it the name reaches a handler
  exactly when it is \<open>login\<close>, \<open>getjob\<close>, \<open>submit\<close> or \<open>keepalived\<close>, in lower case or with a capital; any
  other one names no method, unless its capitalised form contains \<open>mining\<close> and is left without a
  service. A name with a dot reaches no handler, not even \<open>mining.submit\<close>: capitalising comes first,
  so that the service is not recognised.
\<close>

theorem method_dispatch:
  assumes "is_ascii m"
  shows "rpc_lookup (service_method title m) =
    (if CHR ''.'' \<in> set m then NoService
     else if str_contains ''mining'' (title_from (CHR '' '') m) then IllFormed
     else if m \<in> {''login'', ''Login''} then CallLogin
     else if m \<in> {''getjob'', ''Getjob''} then CallGetjob
     else if m \<in> {''submit'', ''Submit''} then CallSubmit
     else if m \<in> {''keepalived'', ''Keepalived''} then CallKeepalived else NoMethod)"
proof -
  let ?t = "title_from (CHR '' '') m"
  have sm: "service_method title m = (if str_contains ''mining'' ?t then ?t else ''mining.'' @ ?t)"
    using assms by (simp add: service_method_def strings_Title_def Let_def)
  have space: "is_separator (CHR '' '')" by (simp add: is_separator_def)
  show ?thesis
  proof (cases "CHR ''.'' \<in> set m")
    case True
    then have dot: "CHR ''.'' \<in> set ?t" by (simp add: title_from_dot)
    from True have "hd ?t \<noteq> CHR ''m''" using upper_char_not_m space by (cases m) auto
    with dot have "rpc_lookup ?t = NoService" by (intro rpc_lookup_head)
    moreover obtain a b where "?t = a @ CHR ''.'' # b" using dot by (meson split_list)
    then have "rpc_lookup (''mining.'' @ ?t) = NoService"
      by (intro rpc_lookup_other [where x = "''mining.'' @ a" and t = b]) simp_all
    ultimately show ?thesis using True sm by simp
  next
    case False
    then have dot: "CHR ''.'' \<notin> set ?t" by (simp add: title_from_dot)
    show ?thesis
    proof (cases "str_contains ''mining'' ?t")
      case True
      with False dot sm show ?thesis by (simp add: rpc_lookup_def)
    next
      case other: False
      then have "service_method title m = ''mining.'' @ ?t" by (simp only: sm if_False)
      then show ?thesis using False other by (simp only: rpc_lookup_mining [OF dot] title_names) auto
    qed
  qed
qed

theorem method_dispatch_witness:
  "rpc_lookup (service_method id ''mining.submit'') = NoService \<and> rpc_lookup (service_method id ''Submit'') = CallSubmit
   \<and> rpc_lookup (service_method id ''xmining'') = IllFormed"
  using method_dispatch [of "''mining.submit''" id] method_dispatch [of "''Submit''" id] method_dispatch [of "''xmining''" id]
  by (simp add: is_ascii_def name_simps)

end
