(* ===== verification/Service.thy ===== *)
theory Service
  imports Codec
begin

text \<open>
  One request of a miner, from the JSON value on the wire to the response: \<open>Server.ServeCodec\<close>
  (\<open>server/stratum/server.go\<close>), which is \<open>net/rpc\<close>, between the codec of theory Codec and the
  handlers of theory Session. \<open>net/rpc\<close> runs each handler in a goroutine of its own; a request here is
  served on its own, and theory Serving lets them overlap. \<open>body_error\<close> is the text of an error in the params.
\<close>

definition job_json :: "job \<Rightarrow> json" where
  "job_json j = JObj [(''blob'', JStr (j_Blob j)), (''job_id'', JStr (j_ID j)), (''target'', JStr (j_Target j)),
     (''seed_hash'', JStr (j_SeedHash j)), (''algo'', JStr (j_Algo j))]"

definition login_json :: "(int \<Rightarrow> string \<Rightarrow> json) \<Rightarrow> login_reply \<Rightarrow> json" where
  "login_json mk_error r = JObj ([(''id'', JStr (lr_ID r)),
     (''job'', case lr_Job r of None \<Rightarrow> JNull | Some j \<Rightarrow> job_json j), (''status'', JStr (lr_Status r))]
     @ (case lr_Error r of None \<Rightarrow> [] | Some (code, msg) \<Rightarrow> [(''error'', mk_error code msg)]))"

definition status_json :: "string \<Rightarrow> json" where
  "status_json s = JObj [(''status'', JStr s)]"

text \<open>
  What a request leaves behind: the state, a goroutine for \<open>Run\<close>, a share whose request waits
  for the proxy (theory ProxyConc), or the end of the session.
\<close>

datatype served = Served codec world | StartRun string codec world | SentShare share codec world
  | EndSession codec world

definition answer :: "(int \<Rightarrow> string \<Rightarrow> json) \<Rightarrow> u64 \<Rightarrow> string \<Rightarrow> json option \<Rightarrow> codec \<Rightarrow> codec" where
  "answer mk_error n err x c = snd (WriteResponse True mk_error n err (if err = [] then x else Some (JObj [])) c)"

text \<open>
  \<open>readRequest\<close> of \<open>net/rpc\<close>: the header, the name, the params. A request that cannot be
  dispatched is refused by the loop itself; an error in the header ends it.
\<close>

datatype request = EndOfRequests | Refused u64 string | Dispatched u64 rpc_target params

definition readRequest :: "(int \<Rightarrow> string \<Rightarrow> json) \<Rightarrow> (string \<Rightarrow> string) \<Rightarrow> string \<Rightarrow> json option \<Rightarrow> codec
    \<Rightarrow> request \<times> codec" where
  "readRequest mk_error title body_error raw c =
     (case ReadRequestHeader mk_error title raw c of
        (None, c) \<Rightarrow> (EndOfRequests, c)
      | (Some (sm, n), c) \<Rightarrow>
          (if rpc_lookup sm = IllFormed then Refused n (''rpc: service/method request ill-formed: '' @ sm)
           else if rpc_lookup sm = NoService then Refused n (''rpc: can't find service '' @ sm)
           else if rpc_lookup sm = NoMethod then Refused n (''rpc: can't find method '' @ sm)
           else (case ReadRequestBody c of
                   None \<Rightarrow> Refused n body_error
                 | Some ps \<Rightarrow> Dispatched n (rpc_lookup sm) ps), c))"

text \<open>
  The handler of a request: the error and the reply for the response, the name with which \<open>Run\<close>
  is started, if it is, and the state; or a share for the proxy's goroutine.
\<close>

datatype called = Answered string "json option" "string option" world | HandsShare share

definition service_call :: "(int \<Rightarrow> string \<Rightarrow> json) \<Rightarrow> (hex_error \<Rightarrow> string) \<Rightarrow> job \<Rightarrow> u64 \<Rightarrow> rpc_target \<Rightarrow> params
    \<Rightarrow> world \<Rightarrow> called go" where
  "service_call mk_error hexmsg fake k target ps w =
     (if target = CallLogin then
        go_bind (Login fake k ps w) (\<lambda>(r, err, name, w).
          Ret (Answered (case err of None \<Rightarrow> [] | Some e \<Rightarrow> e) (Some (login_json mk_error r)) name w))
      else if target = CallGetjob then
        go_bind (Getjob k ps w) (\<lambda>(j, w). Ret (Answered [] (Some (job_json j)) None w))
      else if target = CallSubmit then
        go_bind (Mining_Submit k ps w) (\<lambda>r.
          case r of Inl e \<Rightarrow> Ret (Answered (error_text hexmsg e) None None w) | Inr s \<Rightarrow> Ret (HandsShare s))
      else Ret (Answered [] (Some (status_json Keepalived)) None w))"

definition serve_one :: "(int \<Rightarrow> string \<Rightarrow> json) \<Rightarrow> (string \<Rightarrow> string) \<Rightarrow> string \<Rightarrow> (hex_error \<Rightarrow> string) \<Rightarrow> job
    \<Rightarrow> u64 \<Rightarrow> json option \<Rightarrow> codec \<Rightarrow> world \<Rightarrow> served go" where
  "serve_one mk_error title body_error hexmsg fake k raw c w =
     (case readRequest mk_error title body_error raw c of
        (EndOfRequests, c) \<Rightarrow> Ret (EndSession c w)
      | (Refused n err, c) \<Rightarrow> Ret (Served (answer mk_error n err None c) w)
      | (Dispatched n target ps, c) \<Rightarrow>
          go_bind (service_call mk_error hexmsg fake k target ps w) (\<lambda>r.
            case r of
              HandsShare s \<Rightarrow> Ret (SentShare s c w)
            | Answered err x name w \<Rightarrow>
                let c = answer mk_error n err x c in
                Ret (case name of None \<Rightarrow> Served c w | Some name \<Rightarrow> StartRun name c w)))"

text \<open>\<open>HandleHTTP\<close>, which nothing calls: the requests a second that the handler lets through.\<close>

definition HandleHTTP_limit :: "config \<Rightarrow> int" where
  "HandleHTTP_limit cfg = (let limit = RateLimit cfg in if limit = 0 then 1 else limit)"

subsection \<open>Properties\<close>

lemma answer_eq:
  "sm_get (cd_pending c) n = Some i \<Longrightarrow> answer mk_error n err x c =
     send (if err = [] then server_response i (Some (json_id x)) None
           else server_response i None (Some (mk_error (-32603) err)))
       (c\<lparr>cd_pending := sm_del (cd_pending c) n\<rparr>)"
  by (simp add: answer_def WriteResponse_eq)

definition request_json :: "string \<Rightarrow> string \<Rightarrow> json \<Rightarrow> json" where
  "request_json i m ps = JObj [(''id'', JNum i), (''jsonrpc'', JStr ''2.0''), (''method'', JStr m), (''params'', ps)]"

lemma request_json_read:
  "request_UnmarshalJSON r (request_json i m (JObj kvs)) =
     Some \<lparr>rq_Version = ''2.0'', rq_Method = m, rq_Params = Some (JObj kvs), rq_ID = Some (JNum i)\<rparr>"
  by (simp add: request_json_def request_UnmarshalJSON_def unmarshal_request_def request_member_def
      request_names_def request_reset_def find_field_def empty_request_def raw_map_def raw_pointer_def Let_def
      lower_char_def)

definition read_request :: "(string \<Rightarrow> string) \<Rightarrow> string \<Rightarrow> string \<Rightarrow> (string \<times> json) list \<Rightarrow> codec \<Rightarrow> codec" where
  "read_request title i m kvs c = c\<lparr>cd_req := \<lparr>rq_Version = ''2.0'', rq_Method = m, rq_Params = Some (JObj kvs),
     rq_ID = None\<rparr>, cd_seq := cd_seq c + 1, cd_pending := sm_set (cd_pending c) (cd_seq c + 1) (Some (JNum i))\<rparr>"

lemma header_read:
  "ReadRequestHeader mk_error title (Some (request_json i m (JObj kvs))) c =
     (Some (service_method title m, cd_seq c + 1), read_request title i m kvs c)"
  by (simp add: ReadRequestHeader_Some [OF request_json_read] read_request_def)

lemma body_read:
  "ReadRequestBody (read_request title i m kvs c) = Some (add_members kvs (SetContext Map.empty))"
  by (simp add: ReadRequestBody_def read_request_def ReadParams_def Let_def)

lemma read_request_pending:
  "sm_inv (cd_pending c) \<Longrightarrow> sm_get (cd_pending (read_request title i m kvs c)) (cd_seq c + 1) = Some (Some (JNum i))"
  by (simp add: read_request_def sm.get_put)

text \<open>
  C28: A miner that sends \<open>login\<close> with a valid wallet address over the wire, to a pool that is up, gets
  one response: it carries the id of the request, status OK and a first job. The proxy has adopted
  the address and \<open>Run\<close> is started with the miner's name, or none for the password \<open>x\<close>.
\<close>

theorem login_over_the_wire:
  assumes "wk_p (w_workers w k) = Some i" and "w_poolIsDown w = 0"
    and "world_inv w" "live_id w i" "\<not> p_isClosed (w_proxies w i)" "length (p_addressHash (w_proxies w i)) = 24"
    and "sm_inv (cd_pending c)" and "length payload = 19"
  shows "\<exists>q c'. serve_one mk_error title body_error hexmsg fake k
      (Some (request_json n ''login'' (JObj [(''login'', JStr (CheckEncode payload v)), (''pass'', JStr name)]))) c w
    = Ret (StartRun (if name = ''x'' then [] else name) c' (upd_proxy i (\<lambda>_. q) w))
    \<and> cd_out c' = cd_out c @ [JObj [(''jsonrpc'', JStr ''2.0''), (''id'', JNum n),
        (''result'', JObj [(''id'', JStr (worker_id_str k w)), (''job'', job_json fake), (''status'', JStr ''OK'')])]]
    \<and> p_address q = CheckEncode payload v \<and> \<not> p_isClosed q"
proof -
  let ?kvs = "[(''login'', JStr (CheckEncode payload v)), (''pass'', JStr name)]"
  let ?ps = "add_members ?kvs (SetContext Map.empty)"
  let ?c = "read_request title n ''login'' ?kvs c"
  have ps: "?ps ''login'' = Some (PJson (JStr (CheckEncode payload v)))" "?ps ''pass'' = Some (PJson (JStr name))"
    "getWorker k ?ps = Ret k"
    by (simp_all add: add_members_def SetContext_def getWorker_def params_context_def)
  obtain q where set_addr: "set_worker_address k (CheckEncode payload v) w = Ret (None, upd_proxy i (\<lambda>_. q) w)"
    and q: "SetAddress (CheckEncode payload v) (w_proxies w i) = (None, q)"
    using set_worker_address_eq [OF assms(1,6), of "CheckEncode payload v"] assms(8) by (auto split: if_splits)
  have "p_address q = CheckEncode payload v" "\<not> p_isClosed q"
    using SetAddress_ok [OF q] SetAddress_keeps [OF q] assms(5) by auto
  moreover have "Login fake k ?ps w = Ret
      (\<lparr>lr_ID = worker_id_str k w, lr_Job = Some fake, lr_Status = ''OK'', lr_Error = None\<rparr>, None,
       Some (if name = ''x'' then [] else name), upd_proxy i (\<lambda>_. q) w)"
    using ps set_addr assms(1,2) by (simp add: Login_def opt_string_def Let_def worker_id_str_def)
  moreover have "rpc_lookup (service_method title ''login'') = CallLogin"
    by (simp add: rpc_lookup_def name_simps)
  ultimately show ?thesis
    using read_request_pending [OF assms(7), of title n "''login''" ?kvs]
    by (intro exI [of _ q])
      (simp add: serve_one_def readRequest_def service_call_def header_read body_read Let_def answer_eq login_json_def server_response_def json_id_def,
       simp add: read_request_def)
qed

theorem login_over_the_wire_witness:
  "\<exists>q c'. serve_one (\<lambda>c m. JStr m) id [] (\<lambda>_. []) empty_job 1
      (Some (request_json ''7'' ''login''
        (JObj [(''login'', JStr (CheckEncode (replicate 19 0) 0)), (''pass'', JStr ''x'')]))) NewDefaultServerCodec demo_session
    = Ret (StartRun [] c' (upd_proxy 1 (\<lambda>_. q) demo_session))
    \<and> p_address q = CheckEncode (replicate 19 0) 0"
proof -
  have "\<not> p_isClosed (w_proxies demo_session 1)" "length (p_addressHash (w_proxies demo_session 1)) = 24"
    by (simp_all add: demo_session_fields NewProxy_def)
  moreover have "sm_inv (cd_pending NewDefaultServerCodec)"
    using sm.inv_empty by (simp add: NewDefaultServerCodec_def)
  ultimately show ?thesis
    using login_over_the_wire [OF demo_session_fields(5) demo_session_inv(3,1,2),
        of NewDefaultServerCodec "replicate 19 0" "\<lambda>c m. JStr m" id "[]" "\<lambda>_. []" empty_job "''7''" 0 "''x''"] by auto
qed

end
