(* ===== verification/Serving.thy ===== *)
theory Serving
  imports Service ProxyConc
begin

text \<open>
  A miner's whole session: \<open>SpawnWorker\<close> (\<open>server/tcp/worker.go\<close>) from the first request to its
  return. \<open>ServeCodec\<close> of \<open>net/rpc\<close> reads requests one after the other and runs each handler in a
  goroutine of its own; when a header cannot be read it waits for all of them and returns, and
  only then is the miner disconnected. The handlers, \<open>Run\<close> and whoever else uses the proxy interleave.

  The state is that of theory ProxyConc for the proxy \<open>i\<close> and of theory Codec for the connection, with
  the handlers that have not ended. A step that would panic or wait is no step. A worker has no
  proxy but the one it was given, or none. Each login starts a goroutine \<open>Run\<close>, which first connects
  to the pool, also when another one is alive.
\<close>

record serving =
  sv_conc :: conc
  sv_codec :: codec_sys
  sv_calls :: "u64 \<rightharpoonup> rpc_target \<times> params"
  sv_reading :: bool
  sv_connecting :: "nat \<rightharpoonup> string \<times> int"
  sv_open :: bool

text \<open>
  \<open>sendResponse\<close> of \<open>net/rpc\<close>, which ignores the error of \<open>WriteResponse\<close>; \<open>wr\<close> says whether the
  response can be written.
\<close>

definition respond :: "bool \<Rightarrow> (int \<Rightarrow> string \<Rightarrow> json) \<Rightarrow> u64 \<Rightarrow> string \<Rightarrow> json option \<Rightarrow> codec_sys \<Rightarrow> codec_sys" where
  "respond wr mk_error n err x s =
     (case WriteResponse wr mk_error n err (if err = [] then x else Some (JObj [])) (cs_codec s) of
        (ok, c) \<Rightarrow> note_response n ok c s)"

definition note_request :: "u64 \<Rightarrow> json option \<Rightarrow> codec \<Rightarrow> codec_sys \<Rightarrow> codec_sys" where
  "note_request n id_of c s = s\<lparr>cs_codec := c, cs_asked := (cs_asked s)(n \<mapsto> id_of)\<rparr>"

text \<open>What the reply of the proxy's goroutine to a share becomes.\<close>

fun reply_error :: "(hex_error \<Rightarrow> string) \<Rightarrow> reply \<Rightarrow> string" where
  "reply_error hexmsg (ReplyError e) = error_text hexmsg e"
| "reply_error hexmsg _ = []"

fun reply_json :: "reply \<Rightarrow> json option" where
  "reply_json (ReplyStatus st) = Some (status_json st)"
| "reply_json _ = None"

abbreviation sv_world :: "serving \<Rightarrow> world" where
  "sv_world s \<equiv> cc_world (sv_conc s)"

abbreviation own_proxy :: "u64 \<Rightarrow> u64 \<Rightarrow> world \<Rightarrow> bool" where
  "own_proxy i k w \<equiv> wk_p (w_workers w k) = Some i \<or> wk_p (w_workers w k) = None"

text \<open>
  The steps: the reading loop; a handler; a share handed to \<open>Run\<close> and its reply; one attempt of \<open>Run\<close>
  to connect; the other steps of the proxy; a job sent to the miner; the rest of the server, which
  leaves this proxy and this miner alone; and the return of \<open>ServeCodec\<close>.
\<close>

inductive serve_step :: "config \<Rightarrow> (f64 \<Rightarrow> u64) \<Rightarrow> (int \<Rightarrow> string \<Rightarrow> json) \<Rightarrow> (string \<Rightarrow> string) \<Rightarrow> string
    \<Rightarrow> (hex_error \<Rightarrow> string) \<Rightarrow> u64 \<Rightarrow> u64 \<Rightarrow> serving \<Rightarrow> serving \<Rightarrow> bool"
  for cfg conv mk_error title body_error hexmsg i k where
  serve_read: "sv_reading s \<Longrightarrow> cd_seq (cs_codec (sv_codec s)) \<noteq> MaxUint64 \<Longrightarrow>
     request_UnmarshalJSON (cd_req (cs_codec (sv_codec s))) raw = Some q \<Longrightarrow>
     readRequest mk_error title body_error (Some raw) (cs_codec (sv_codec s)) = (Dispatched n target ps, c) \<Longrightarrow>
     serve_step cfg conv mk_error title body_error hexmsg i k s
       (s\<lparr>sv_codec := note_request n (rq_ID q) c (sv_codec s), sv_calls := (sv_calls s)(n \<mapsto> (target, ps))\<rparr>)"
| serve_refuse: "sv_reading s \<Longrightarrow> cd_seq (cs_codec (sv_codec s)) \<noteq> MaxUint64 \<Longrightarrow>
     request_UnmarshalJSON (cd_req (cs_codec (sv_codec s))) raw = Some q \<Longrightarrow>
     readRequest mk_error title body_error (Some raw) (cs_codec (sv_codec s)) = (Refused n err, c) \<Longrightarrow>
     serve_step cfg conv mk_error title body_error hexmsg i k s
       (s\<lparr>sv_codec := respond wr mk_error n err None (note_request n (rq_ID q) c (sv_codec s))\<rparr>)"
| serve_end: "sv_reading s \<Longrightarrow>
     readRequest mk_error title body_error raw (cs_codec (sv_codec s)) = (EndOfRequests, c) \<Longrightarrow>
     serve_step cfg conv mk_error title body_error hexmsg i k s
       (s\<lparr>sv_codec := (sv_codec s)\<lparr>cs_codec := c\<rparr>, sv_reading := False\<rparr>)"
| serve_call: "sv_calls s n = Some (target, ps) \<Longrightarrow> cc_sub (sv_conc s) (unat n) = SIdle \<Longrightarrow>
     own_proxy i k (sv_world s) \<Longrightarrow>
     service_call mk_error hexmsg fake k target ps (sv_world s) = Ret (Answered err x name v) \<Longrightarrow>
     cc_run (sv_conc s) g = RGone \<and> sv_connecting s g = None \<Longrightarrow>
     serve_step cfg conv mk_error title body_error hexmsg i k s
       (s\<lparr>sv_codec := respond wr mk_error n err x (sv_codec s), sv_calls := (sv_calls s)(n := None),
          sv_conc := (sv_conc s)\<lparr>cc_world := v\<rparr>,
          sv_connecting := (case name of None \<Rightarrow> sv_connecting s | Some nm \<Rightarrow> (sv_connecting s)(g \<mapsto> (nm, 0)))\<rparr>)"
| serve_hand: "sv_calls s n = Some (target, ps) \<Longrightarrow> cc_sub (sv_conc s) (unat n) = SIdle \<Longrightarrow>
     wk_p (w_workers (sv_world s) k) = Some i \<Longrightarrow>
     service_call mk_error hexmsg fake k target ps (sv_world s) = Ret (HandsShare sh) \<Longrightarrow>
     serve_step cfg conv mk_error title body_error hexmsg i k s
       (s\<lparr>sv_conc := (sv_conc s)\<lparr>cc_world := lock_proxy i (sv_world s),
            cc_sub := (cc_sub (sv_conc s))(unat n := SSending sh)\<rparr>\<rparr>)"
| serve_reply: "sv_calls s n = Some call \<Longrightarrow> cc_sub (sv_conc s) (unat n) = SReplied r \<Longrightarrow>
     serve_step cfg conv mk_error title body_error hexmsg i k s
       (s\<lparr>sv_codec := respond wr mk_error n (reply_error hexmsg r) (reply_json r) (sv_codec s),
          sv_calls := (sv_calls s)(n := None)\<rparr>)"
| serve_connected: "sv_connecting s g = Some (nm, m) \<Longrightarrow>
     run_connect cfg nm i m [(w_poolIsDown (sv_world s), dial)] (sv_world s) = Ret (Connected v) \<Longrightarrow>
     serve_step cfg conv mk_error title body_error hexmsg i k s
       (s\<lparr>sv_conc := (sv_conc s)\<lparr>cc_world := v, cc_run := (cc_run (sv_conc s))(g := RSelect)\<rparr>,
          sv_connecting := (sv_connecting s)(g := None)\<rparr>)"
| serve_retry: "sv_connecting s g = Some (nm, m) \<Longrightarrow>
     run_connect cfg nm i m [(w_poolIsDown (sv_world s), dial)] (sv_world s) = Ret (Retrying v) \<Longrightarrow>
     serve_step cfg conv mk_error title body_error hexmsg i k s
       (s\<lparr>sv_conc := (sv_conc s)\<lparr>cc_world := v\<rparr>, sv_connecting := (sv_connecting s)(g \<mapsto> (nm, m + 1))\<rparr>)"
| serve_give_up: "sv_connecting s g = Some (nm, m) \<Longrightarrow>
     run_connect cfg nm i m [(w_poolIsDown (sv_world s), dial)] (sv_world s) = Ret (Stopped (Ret v)) \<Longrightarrow>
     serve_step cfg conv mk_error title body_error hexmsg i k s
       (s\<lparr>sv_conc := (sv_conc s)\<lparr>cc_world := v\<rparr>, sv_connecting := (sv_connecting s)(g := None)\<rparr>)"
| serve_proxy: "conc_step cfg conv i (sv_conc s) c \<Longrightarrow> \<forall>n. cc_sub (sv_conc s) n = SIdle \<longrightarrow> cc_sub c n = SIdle \<Longrightarrow>
     serve_step cfg conv mk_error title body_error hexmsg i k s (s\<lparr>sv_conc := c\<rparr>)"
| serve_notify: "serve_step cfg conv mk_error title body_error hexmsg i k s
     (s\<lparr>sv_codec := (sv_codec s)\<lparr>cs_codec := Notify meth args (cs_codec (sv_codec s))\<rparr>\<rparr>)"
| serve_other: "w_proxies v i = w_proxies (sv_world s) i \<Longrightarrow> w_workers v k = w_workers (sv_world s) k \<Longrightarrow>
     sm_get (proxies (w_director v)) i = sm_get (proxies (w_director (sv_world s))) i \<Longrightarrow>
     serve_step cfg conv mk_error title body_error hexmsg i k s (s\<lparr>sv_conc := (sv_conc s)\<lparr>cc_world := v\<rparr>\<rparr>)"
| serve_return: "sv_open s \<Longrightarrow> \<not> sv_reading s \<Longrightarrow> sv_calls s = Map.empty \<Longrightarrow> own_proxy i k (sv_world s) \<Longrightarrow>
     SpawnWorker_end k (sv_world s) = Ret v \<Longrightarrow>
     serve_step cfg conv mk_error title body_error hexmsg i k s
       (s\<lparr>sv_conc := (sv_conc s)\<lparr>cc_world := v\<rparr>, sv_open := False\<rparr>)"

definition serve_init :: "u64 \<Rightarrow> serving \<Rightarrow> bool" where
  "serve_init i s \<longleftrightarrow> (\<forall>n. cc_sub (sv_conc s) n = SIdle) \<and> (\<forall>g. cc_run (sv_conc s) g = RGone)
     \<and> \<not> p_connMu (w_proxies (sv_world s) i) \<and> codec_init (sv_codec s) \<and> sv_calls s = Map.empty
     \<and> sv_reading s \<and> sv_connecting s = Map.empty \<and> sv_open s"


subsection \<open>While a share is handed over\<close>

lemma complete_job_held:
  assumes "p_connMu (w_proxies w i)" and "complete_job conv now nonce jid d i w = Ret v"
  shows "w_workers v = w_workers w \<and> w_director v = w_director w"
proof -
  let ?p = "(w_proxies w i)\<lparr>p_recvByte := copy_at 32 64 (p_recvByte (w_proxies w i)) d\<rparr>"
  obtain q job where q: "(if of_nat (initDiffCount + 1) < p_shares ?p \<and> refreshDiffInterval \<le> now - p_targetSince ?p
        then setTarget conv now (p_shares ?p) ?p else Ret ?p) = Ret q"
    and v: "v = upd_proxy i (\<lambda>_. q) w \<or> handleJob job now i (upd_proxy i (\<lambda>_. q) w) = Ret v"
    using assms(2) unfolding complete_job_def Let_def go_bind_eq_Ret_iff by (auto simp: go_bind_eq_Ret_iff split: if_splits)
  have "p_connMu q" using q assms(1) by (auto split: if_splits dest: setTarget_connMu)
  then have "handleJob job now i (upd_proxy i (\<lambda>_. q) w) = Deadlock"
    by (simp add: handleJob_def mutex_waits adopt_job_def)
  with v show ?thesis by auto
qed

lemma handleNotification_held:
  assumes held: "p_connMu (w_proxies w i)" and "handleNotification cfg conv now nonce jid d i w = Ret v"
  shows "w_workers v = w_workers w \<and> w_director v = w_director w"
proof -
  let ?d = "go_copy (replicate 32 0) d"
  let ?w = "upd_proxy i (\<lambda>p. p\<lparr>p_fieldIn := p_fieldIn p + 1, p_recvCount := 0\<rparr>) w"
  have waits: "shutdown cfg (-1) i (?w\<lparr>w_poolIsDown := 0\<rparr>) = Deadlock" using held by (simp add: mutex_waits)
  have job: "complete_job conv now nonce jid ?d i ?w = Ret v \<Longrightarrow> w_workers v = w_workers w \<and> w_director v = w_director w"
    using complete_job_held [of ?w i conv now nonce jid ?d v] held by simp
  show ?thesis
    using assms(2) waits job by (auto simp: handleNotification_def Let_def go_bind_eq_Ret_iff split: if_splits)
qed

lemma conc_held_step:
  assumes inv: "conc_inv i s" and held: "holds_mutex (cc_sub s n)" and "conc_step cfg conv i s t"
  shows "holds_mutex (cc_sub t n) \<and> w_workers (cc_world t) = w_workers (cc_world s)
    \<and> w_director (cc_world t) = w_director (cc_world s)"
  using assms(3)
proof (cases rule: conc_step.cases)
  case (conc_field d now nonce jid v)
  with handleNotification_held conc_invD(1) [OF inv held] held show ?thesis by simp
qed (use conc_invD(1) [OF inv held] held in \<open>auto simp: mutex_waits\<close>)

lemma Login_eq:
  assumes "Login fake k ps w = Ret (r, err, name, v)"
  shows "(if 0 < w_poolIsDown w then err \<noteq> None \<and> name = None \<and> worker_RemoveProxy k w = Ret v
    else \<exists>e u. (case ps ''login'' of
              Some a \<Rightarrow> go_bind (as_string a) (\<lambda>a. set_worker_address k a w)
            | None \<Rightarrow> Ret (Some (ErrText ''no login param''), w)) = Ret (e, u)
          \<and> (if e = None then v = u else err \<noteq> None \<and> name = None \<and> worker_RemoveProxy k u = Ret v))"
  using assms
  by (auto simp: Login_def go_bind_eq_Ret_iff Let_def getWorker_def split: if_splits option.splits; fastforce)

lemma set_worker_address_keeps:
  assumes "wk_p (w_workers w k) = Some i \<or> wk_p (w_workers w k) = None"
    and "set_worker_address k a w = Ret (e, u)"
  shows "w_workers u = w_workers w \<and> w_director u = w_director w
    \<and> p_connMu (w_proxies u i) = p_connMu (w_proxies w i)"
  using assms SetAddress_keeps [of a "w_proxies w i"]
  by (auto simp: set_worker_address_def split: option.splits prod.splits)

lemma worker_RemoveProxy_connMu:
  assumes "own_proxy i k w" and "worker_RemoveProxy k w = Ret v"
  shows "p_connMu (w_proxies v i) = p_connMu (w_proxies w i)"
  using assms ending_free(2) [of i w] ending_released(2) [of i w]
  by (auto simp: worker_RemoveProxy_def go_bind_eq_Ret_iff)

lemma worker_RemoveProxy_held:
  "p_connMu (w_proxies w i) \<Longrightarrow> wk_p (w_workers w k) = Some i \<Longrightarrow> worker_RemoveProxy k w = Deadlock"
  by (simp add: worker_RemoveProxy_def mutex_waits)

lemma login_address_keeps:
  assumes "own_proxy i k w"
    and "(case ps ''login'' of
              Some a \<Rightarrow> go_bind (as_string a) (\<lambda>a. set_worker_address k a w)
            | None \<Rightarrow> Ret (Some (ErrText ''no login param''), w)) = Ret (e, u)"
  shows "w_workers u = w_workers w \<and> w_director u = w_director w
    \<and> p_connMu (w_proxies u i) = p_connMu (w_proxies w i)"
  using assms(2) set_worker_address_keeps [OF assms(1)] by (auto simp: go_bind_eq_Ret_iff split: option.splits)

lemma Login_keeps:
  assumes own: "own_proxy i k w" and login: "Login fake k ps w = Ret (r, err, name, v)"
  shows "p_connMu (w_proxies v i) = p_connMu (w_proxies w i)"
    and "p_connMu (w_proxies w i) \<Longrightarrow> wk_p (w_workers w k) = Some i \<Longrightarrow>
      w_workers v = w_workers w \<and> w_director v = w_director w"
proof -
  let ?a = "case ps ''login'' of
              Some a \<Rightarrow> go_bind (as_string a) (\<lambda>a. set_worker_address k a w)
            | None \<Rightarrow> Ret (Some (ErrText ''no login param''), w)"
  consider "worker_RemoveProxy k w = Ret v" | e u where "?a = Ret (e, u)" "v = u \<or> worker_RemoveProxy k u = Ret v"
    using Login_eq [OF login] by (auto split: if_splits)
  then have "p_connMu (w_proxies v i) = p_connMu (w_proxies w i)
    \<and> (p_connMu (w_proxies w i) \<and> wk_p (w_workers w k) = Some i \<longrightarrow>
        w_workers v = w_workers w \<and> w_director v = w_director w)"
  proof cases
    case 1
    with worker_RemoveProxy_connMu [OF own 1] worker_RemoveProxy_held [of w i k] show ?thesis by auto
  next
    case (2 e u)
    have u: "w_workers u = w_workers w \<and> w_director u = w_director w
        \<and> p_connMu (w_proxies u i) = p_connMu (w_proxies w i)"
      using login_address_keeps [of w k i ps e u] own 2(1) by blast
    then have "own_proxy i k u" using own by simp
    with 2(2) u worker_RemoveProxy_connMu [of u k i v] worker_RemoveProxy_held [of u i k] show ?thesis by auto
  qed
  then show "p_connMu (w_proxies v i) = p_connMu (w_proxies w i)"
    and "p_connMu (w_proxies w i) \<Longrightarrow> wk_p (w_workers w k) = Some i \<Longrightarrow>
      w_workers v = w_workers w \<and> w_director v = w_director w"
    by blast+
qed

lemma Getjob_keeps:
  assumes "own_proxy i k w" and "Getjob k ps w = Ret (j, v)"
  shows "w_workers v = w_workers w \<and> w_director v = w_director w
    \<and> p_connMu (w_proxies v i) = p_connMu (w_proxies w i)"
  using assms by (auto simp: Getjob_def go_bind_eq_Ret_iff getWorker_def NextJob_def Let_def
      split: option.splits prod.splits)

lemma service_call_keeps:
  assumes own: "own_proxy i k w" and call: "service_call mk_error hexmsg fake k target ps w = Ret (Answered err x name v)"
  shows "p_connMu (w_proxies v i) = p_connMu (w_proxies w i)"
    and "p_connMu (w_proxies w i) \<Longrightarrow> wk_p (w_workers w k) = Some i \<Longrightarrow>
      w_workers v = w_workers w \<and> w_director v = w_director w"
proof -
  consider r e n where "Login fake k ps w = Ret (r, e, n, v)" | j where "Getjob k ps w = Ret (j, v)" | "v = w"
    using call by (auto simp: service_call_def go_bind_eq_Ret_iff split: if_splits prod.splits sum.splits) (metis sum.exhaust)
  note cases = this
  show "p_connMu (w_proxies v i) = p_connMu (w_proxies w i)"
    by (cases rule: cases) (use Login_keeps(1) [OF own] Getjob_keeps [OF own] in auto)
  show "w_workers v = w_workers w \<and> w_director v = w_director w"
    if "p_connMu (w_proxies w i)" "wk_p (w_workers w k) = Some i"
    by (cases rule: cases) (use Login_keeps(2) [OF own _ that] Getjob_keeps [OF own] in auto)
qed

lemma service_call_hands:
  assumes "wk_p (w_workers w k) = Some i" and "service_call mk_error hexmsg fake k target ps w = Ret (HandsShare sh)"
  shows "\<not> p_connMu (w_proxies w i) \<and> submit_request ps (w_proxies w i) = Ret (Inr sh)"
  using assms
  by (auto simp: service_call_def go_bind_eq_Ret_iff Mining_Submit_def getWorker_def
      split: if_splits sum.splits option.splits prod.splits) (metis sum.exhaust)+

text \<open>One attempt to connect.\<close>

lemma connect_released:
  "connect cfg dial nm i w = Ret (e, v) \<Longrightarrow> \<not> p_connMu (w_proxies w i) \<and> \<not> p_connMu (w_proxies v i)"
  by (auto simp: connect_def locked_val_def go_bind_eq_Ret_iff split: if_splits)

lemma attempt_released:
  assumes "run_connect cfg nm i m [(down, dial)] w = Ret r" and "r = Connected v \<or> r = Retrying v \<or> r = Stopped (Ret v)"
  shows "\<not> p_connMu (w_proxies w i) \<and> \<not> p_connMu (w_proxies v i)"
  using assms
  by (auto simp: Let_def go_bind_eq_Ret_iff split: if_splits
      dest: connect_released ending_free(1) ending_released(1))

subsection \<open>The invariant\<close>

lemma respond_inv:
  assumes inv: "codec_inv s"
  shows "codec_inv (respond wr mk_error n err x s)" "cs_asked (respond wr mk_error n err x s) = cs_asked s"
    "n \<in> dom (cs_asked s) \<Longrightarrow> responded (respond wr mk_error n err x s) = insert n (responded s)"
proof -
  let ?x = "if err = [] then x else Some (JObj [])"
  obtain ok c where w: "WriteResponse wr mk_error n err ?x (cs_codec s) = (ok, c)" by force
  then have r: "respond wr mk_error n err x s = note_response n ok c s"
    by (simp add: respond_def)
  show "codec_inv (respond wr mk_error n err x s)"
    unfolding r by (rule codec_inv_step [OF inv codec_write [OF w, of title]])
  show "cs_asked (respond wr mk_error n err x s) = cs_asked s" by (simp add: r note_response_def)
  assume "n \<in> dom (cs_asked s)"
  then obtain a where a: "cs_asked s n = Some a" by blast
  have "sm_get (cd_pending (cs_codec s)) n = (if n \<in> responded s then None else cs_asked s n)"
    using inv by (simp add: codec_inv_def restrict_map_def)
  with a w show "responded (respond wr mk_error n err x s) = insert n (responded s)"
    by (auto simp: r note_response_def WriteResponse_eq split: if_splits)
qed

lemma readRequest_header:
  assumes "readRequest mk_error title body_error raw c = (r, c')"
  shows "r = EndOfRequests \<Longrightarrow> ReadRequestHeader mk_error title raw c = (None, c')"
    and "r = Dispatched n target ps \<or> r = Refused n err \<Longrightarrow> \<exists>sm. ReadRequestHeader mk_error title raw c = (Some (sm, n), c')"
  using assms by (auto simp: readRequest_def split: prod.splits option.splits if_splits)

lemma note_request_inv:
  assumes inv: "codec_inv s" and "cd_seq (cs_codec s) \<noteq> MaxUint64"
    and "request_UnmarshalJSON (cd_req (cs_codec s)) raw = Some q"
    and "readRequest mk_error title body_error (Some raw) (cs_codec s) = (r, c)"
    and "r = Dispatched n target ps \<or> r = Refused n err"
  shows "codec_inv (note_request n (rq_ID q) c s)" "n \<notin> dom (cs_asked s)" "n \<notin> responded s"
proof -
  obtain sm where h: "ReadRequestHeader mk_error title (Some raw) (cs_codec s) = (Some (sm, n), c)"
    using readRequest_header(2) [OF assms(4,5)] by blast
  show "codec_inv (note_request n (rq_ID q) c s)"
    unfolding note_request_def by (rule codec_inv_step [OF inv codec_read [OF assms(2,3) h]])
  have "n = cd_seq (cs_codec s) + 1" using h ReadRequestHeader_Some [OF assms(3), of mk_error title] by simp
  moreover have "MaxUint64 = - 1" by (simp add: MaxUint64_def)
  then have "cd_seq (cs_codec s) \<noteq> - 1" using assms(2) by metis
  ultimately show "n \<notin> dom (cs_asked s)" using inv next_word(3) by (auto simp: codec_inv_def)
  then show "n \<notin> responded s" using inv by (auto simp: codec_inv_def)
qed

text \<open>The codec's part of the invariant.\<close>

definition calls_ok :: "serving \<Rightarrow> bool" where
  "calls_ok s \<longleftrightarrow> codec_inv (sv_codec s)
     \<and> dom (sv_calls s) = dom (cs_asked (sv_codec s)) - responded (sv_codec s)"

lemma calls_ok_step:
  assumes inv: "calls_ok s" and "serve_step cfg conv mk_error title body_error hexmsg i k s t"
  shows "calls_ok t"
  using assms(2)
proof cases
  case (serve_read raw q n target ps c)
  with inv note_request_inv [of "sv_codec s" raw q mk_error title body_error _ c n target ps]
  show ?thesis by (auto simp: calls_ok_def note_request_def)
next
  case (serve_refuse raw q n err c wr)
  let ?n = "note_request n (rq_ID q) c (sv_codec s)"
  have n: "codec_inv ?n" "n \<notin> dom (cs_asked (sv_codec s))" "n \<notin> responded (sv_codec s)"
    using inv note_request_inv [OF _ serve_refuse(3-5), of n _ _ err] by (auto simp: calls_ok_def)
  have "n \<in> dom (cs_asked ?n)" by (simp add: note_request_def)
  with n respond_inv [OF n(1), where wr = wr and mk_error = mk_error and n = n and err = err and x = None] inv serve_refuse(1) show ?thesis
    by (auto simp: calls_ok_def note_request_def)
next
  case (serve_end raw c)
  from codec_refuse [OF readRequest_header(1) [OF serve_end(3)]]
  have "codec_inv ((sv_codec s)\<lparr>cs_codec := c\<rparr>)"
    using codec_inv_step inv by (auto simp: calls_ok_def)
  with inv serve_end(1) show ?thesis by (simp add: calls_ok_def)
next
  case (serve_call n target ps fake err x name v g wr)
  then have "n \<in> dom (cs_asked (sv_codec s))" using inv by (auto simp: calls_ok_def)
  with inv respond_inv [of "sv_codec s", where wr = wr and mk_error = mk_error and n = n and err = err and x = x] serve_call(1) show ?thesis by (auto simp: calls_ok_def)
next
  case (serve_reply n call r wr)
  then have "n \<in> dom (cs_asked (sv_codec s))" using inv by (auto simp: calls_ok_def)
  with inv respond_inv [of "sv_codec s", where wr = wr and mk_error = mk_error and n = n and err = "reply_error hexmsg r" and x = "reply_json r"]
    serve_reply(1)
  show ?thesis by (auto simp: calls_ok_def)
next
  case (serve_notify meth args)
  from codec_inv_step [OF _ codec_notify, of "sv_codec s" meth args] inv serve_notify show ?thesis
    by (auto simp: calls_ok_def)
qed (use inv in \<open>simp_all add: calls_ok_def\<close>)

text \<open>The proxy's part: who holds the mutex, and for which request.\<close>

definition held_ok :: "u64 \<Rightarrow> u64 \<Rightarrow> serving \<Rightarrow> bool" where
  "held_ok i k s \<longleftrightarrow> conc_inv i (sv_conc s)
     \<and> (\<forall>n. holds_mutex (cc_sub (sv_conc s) n) \<longrightarrow>
          wk_p (w_workers (sv_world s) k) = Some i \<and> n \<in> unat ` dom (sv_calls s))"

lemma conc_inv_world:
  "conc_inv i s \<Longrightarrow> p_connMu (w_proxies v i) = p_connMu (w_proxies (cc_world s) i) \<Longrightarrow> conc_inv i (s\<lparr>cc_world := v\<rparr>)"
  by (rule conc_inv_same_subs) simp_all

lemma conc_inv_free:
  "conc_inv i s \<Longrightarrow> \<not> p_connMu (w_proxies (cc_world s) i) \<Longrightarrow> \<not> holds_mutex (cc_sub s n)"
  using conc_invD(1) by blast

lemma held_ok_free:
  assumes inv: "held_ok i k s" and "\<not> p_connMu (w_proxies (sv_world s) i) \<and> \<not> p_connMu (w_proxies (sv_world t) i)"
    and "cc_sub (sv_conc t) = cc_sub (sv_conc s)"
    and "\<And>g. cc_run (sv_conc t) g = cc_run (sv_conc s) g \<or> cc_run (sv_conc t) g = RSelect"
  shows "held_ok i k t"
proof -
  have c: "conc_inv i (sv_conc s)" using inv by (simp add: held_ok_def)
  have free: "\<not> holds_mutex (cc_sub (sv_conc s) n)" for n using conc_inv_free [OF c] assms(2) by blast
  then have "cc_sub (sv_conc s) n \<noteq> SWaiting sh" for n sh using holds_mutex_simps(3) by metis
  then have none: "cc_run (sv_conc s) g \<noteq> RShare n sh" for g n sh using conc_invD(3) [OF c] by blast
  have "cc_run (sv_conc t) g \<noteq> RShare n sh" for g n sh
    using assms(4) [of g] none [of g n sh] by (elim disjE) simp_all
  with none have "conc_inv i (sv_conc t)"
    using assms(2,3) by (intro conc_inv_same_subs [OF c]) simp_all
  then show ?thesis using free assms(3) by (simp add: held_ok_def)
qed

lemma new_holder:
  assumes "conc_step cfg conv i s t" and "\<forall>n. cc_sub s n = SIdle \<longrightarrow> cc_sub t n = SIdle"
    and "holds_mutex (cc_sub t n)"
  shows "holds_mutex (cc_sub s n)"
  using assms by cases (auto split: if_splits)

lemma hand_inv:
  assumes inv: "conc_inv i c" and "cc_sub c n = SIdle" "\<not> p_connMu (w_proxies (cc_world c) i)"
    and "submit_request ps (w_proxies (cc_world c) i) = Ret (Inr sh)"
  shows "conc_inv i (c\<lparr>cc_world := lock_proxy i (cc_world c), cc_sub := (cc_sub c)(n := SSending sh)\<rparr>)"
  by (rule conc_inv_step [OF inv conc_lock [OF assms(2-4)]])

lemma held_ok_step:
  assumes inv: "held_ok i k s" and calls: "calls_ok s"
    and "serve_step cfg conv mk_error title body_error hexmsg i k s t"
  shows "held_ok i k t"
  using assms(3)
proof cases
  case (serve_call n target ps fake err x name v g)
  note keeps = service_call_keeps [OF serve_call(4,5)]
  have c: "conc_inv i (sv_conc s)" using inv by (simp add: held_ok_def)
  have "wk_p (w_workers v k) = Some i \<and> m \<in> unat ` dom ((sv_calls s)(n := None))"
    if "holds_mutex (cc_sub (sv_conc s) m)" for m
  proof -
    have h: "wk_p (w_workers (sv_world s) k) = Some i" "m \<in> unat ` dom (sv_calls s)"
      using inv that by (auto simp: held_ok_def)
    moreover have "w_workers v = w_workers (sv_world s)"
      using keeps(2) conc_invD(1) [OF c that] h(1) by blast
    moreover have "m \<noteq> unat n" using that serve_call(3) by auto
    ultimately show ?thesis by auto
  qed
  with conc_inv_world [OF c keeps(1)] serve_call(1) show ?thesis by (simp add: held_ok_def)
next
  case (serve_hand n target ps fake sh)
  note free = service_call_hands [OF serve_hand(4,5)]
  have c: "conc_inv i (sv_conc s)" using inv by (simp add: held_ok_def)
  have none: "\<not> holds_mutex (cc_sub (sv_conc s) m)" for m using conc_inv_free [OF c] free by blast
  have "n \<in> dom (sv_calls s)" using serve_hand(2) by blast
  then show ?thesis
    using hand_inv [OF c serve_hand(3) conjunct1 [OF free] conjunct2 [OF free]] none serve_hand(1,4)
    by (simp add: held_ok_def lock_proxy_def)
next
  case (serve_reply n call r)
  have "m \<noteq> unat n" if "holds_mutex (cc_sub (sv_conc s) m)" for m using that serve_reply(3) by auto
  with inv serve_reply(1) show ?thesis by (fastforce simp: held_ok_def)
next
  case (serve_read raw q n target ps c)
  with inv show ?thesis by (auto simp: held_ok_def)
next
  case (serve_connected g nm m dial v)
  with attempt_released [OF serve_connected(3), of v] show ?thesis by (intro held_ok_free [OF inv]) simp_all
next
  case (serve_retry g nm m dial v)
  with attempt_released [OF serve_retry(3), of v] show ?thesis by (intro held_ok_free [OF inv]) simp_all
next
  case (serve_give_up g nm m dial v)
  with attempt_released [OF serve_give_up(3), of v] show ?thesis by (intro held_ok_free [OF inv]) simp_all
next
  case (serve_proxy c)
  have c: "conc_inv i (sv_conc s)" using inv by (simp add: held_ok_def)
  show ?thesis
    using inv conc_inv_step [OF c serve_proxy(2)] new_holder [OF serve_proxy(2,3)]
      conc_held_step [OF c _ serve_proxy(2)] serve_proxy(1)
    by (auto simp: held_ok_def) metis
next
  case (serve_other v)
  with inv conc_inv_world [of i "sv_conc s" v] show ?thesis by (simp add: held_ok_def)
next
  case (serve_return v)
  have c: "conc_inv i (sv_conc s)" using inv by (simp add: held_ok_def)
  have none: "\<not> holds_mutex (cc_sub (sv_conc s) n)" for n using inv serve_return(4) by (auto simp: held_ok_def)
  have "p_connMu (w_proxies v i) = p_connMu (w_proxies (sv_world s) i)"
    using serve_return(5,6) ending_free(3) [of i "upd_worker k (\<lambda>x. x\<lparr>wk_conn_open := False\<rparr>) (sv_world s)"]
      ending_released(3) [of i "upd_worker k (\<lambda>x. x\<lparr>wk_conn_open := False\<rparr>) (sv_world s)"]
    by (auto simp: SpawnWorker_end_def worker_Disconnect_def Let_def go_bind_eq_Ret_iff)
  with conc_inv_world [OF c] none serve_return(1) show ?thesis by (simp add: held_ok_def)
qed (use inv in \<open>simp_all add: held_ok_def\<close>)

text \<open>
  The requests that have not been answered are those whose handlers have not ended; the mutex of the
  proxy is held by one of them; after the return nothing is left.
\<close>

definition serve_inv :: "u64 \<Rightarrow> u64 \<Rightarrow> serving \<Rightarrow> bool" where
  "serve_inv i k s \<longleftrightarrow> calls_ok s \<and> held_ok i k s \<and> (sv_open s \<or> sv_calls s = Map.empty \<and> \<not> sv_reading s)"

lemma serve_inv_init: "serve_init i s \<Longrightarrow> serve_inv i k s"
  using codec_inv_init [of "sv_codec s"]
  by (auto simp: serve_init_def serve_inv_def calls_ok_def held_ok_def conc_inv_def codec_init_def)

lemma serve_inv_step:
  assumes "serve_inv i k s" and step: "serve_step cfg conv mk_error title body_error hexmsg i k s t"
  shows "serve_inv i k t"
proof -
  have "sv_open t \<or> sv_calls t = Map.empty \<and> \<not> sv_reading t"
    using step assms(1) by cases (auto simp: serve_inv_def)
  with assms calls_ok_step held_ok_step show ?thesis unfolding serve_inv_def by blast
qed

interpretation serving: invariant_system "serve_init i"
  "serve_step cfg conv mk_error title body_error hexmsg i k" "serve_inv i k"
  using serve_inv_init serve_inv_step by unfold_locales

lemma holder_step:
  assumes inv: "serve_inv i k s" and held: "holds_mutex (cc_sub (sv_conc s) n)"
    and "serve_step cfg conv mk_error title body_error hexmsg i k s t"
  shows "holds_mutex (cc_sub (sv_conc t) n) \<and> w_workers (sv_world t) k = w_workers (sv_world s) k
    \<and> sm_get (proxies (w_director (sv_world t))) i = sm_get (proxies (w_director (sv_world s))) i"
proof -
  have c: "conc_inv i (sv_conc s)" and own: "wk_p (w_workers (sv_world s) k) = Some i"
    and calls: "sv_calls s \<noteq> Map.empty"
    using inv held by (auto simp: serve_inv_def held_ok_def)
  have mu: "p_connMu (w_proxies (sv_world s) i)" by (rule conc_invD(1) [OF c held])
  from assms(3) show ?thesis
  proof cases
    case (serve_call n target ps fake err x name v g)
    with service_call_keeps(2) [OF serve_call(4,5) mu own] held show ?thesis by simp
  next
    case (serve_hand n target ps fake sh)
    with service_call_hands [OF serve_hand(4,5)] mu show ?thesis by simp
  next
    case (serve_connected g nm m dial v)
    with attempt_released [OF serve_connected(3), of v] mu show ?thesis by simp
  next
    case (serve_retry g nm m dial v)
    with attempt_released [OF serve_retry(3), of v] mu show ?thesis by simp
  next
    case (serve_give_up g nm m dial v)
    with attempt_released [OF serve_give_up(3), of v] mu show ?thesis by simp
  next
    case (serve_proxy d)
    with conc_held_step [OF c held serve_proxy(2)] show ?thesis by simp
  qed (use held calls in simp_all)
qed

lemma holder_steps:
  assumes "(serve_step cfg conv mk_error title body_error hexmsg i k)\<^sup>*\<^sup>* s t"
    and "serve_inv i k s" and "holds_mutex (cc_sub (sv_conc s) n)"
  shows "holds_mutex (cc_sub (sv_conc t) n) \<and> w_workers (sv_world t) k = w_workers (sv_world s) k
    \<and> sm_get (proxies (w_director (sv_world t))) i = sm_get (proxies (w_director (sv_world s))) i"
  using assms(1)
proof (induction rule: rtranclp_induct)
  case (step u v)
  then have "serve_inv i k u" using serving.steps_inv assms(2) by blast
  with holder_step [OF this _ step.hyps(2)] step.IH show ?case by auto
qed (use assms(3) in simp)

subsection \<open>Properties\<close>

text \<open>
  C14: At every moment of a session each request that was read is in exactly one of three places: its
  handler is still running, its response has been written, once, or its response was lost because it
  could not be written, once and for all. When \<open>ServeCodec\<close> has returned, and with it \<open>SpawnWorker\<close>, no
  handler is left and nothing is read any more, so that every request has been answered but for those
  whose response could not be written.
\<close>

theorem session_answers_all:
  assumes "reach (serve_init i) (serve_step cfg conv mk_error title body_error hexmsg i k) s"
  shows "distinct (cs_answered (sv_codec s) @ cs_lost (sv_codec s))
    \<and> dom (sv_calls s) \<inter> (set (cs_answered (sv_codec s)) \<union> set (cs_lost (sv_codec s))) = {}
    \<and> dom (sv_calls s) \<union> set (cs_answered (sv_codec s)) \<union> set (cs_lost (sv_codec s))
        = {n. 0 < n \<and> n \<le> cd_seq (cs_codec (sv_codec s))}
    \<and> (\<not> sv_open s \<longrightarrow> sv_calls s = Map.empty \<and> \<not> sv_reading s)"
proof -
  have inv: "serve_inv i k s" by (rule serving.reach_inv [OF assms(1)])
  note parts = inv [unfolded serve_inv_def calls_ok_def codec_inv_def]
  have calls: "dom (sv_calls s) = dom (cs_asked (sv_codec s)) - responded (sv_codec s)" using parts by (elim conjE)
  have asked: "responded (sv_codec s) \<subseteq> dom (cs_asked (sv_codec s))" using parts by (elim conjE)
  have seq: "dom (cs_asked (sv_codec s)) = {n. 0 < n \<and> n \<le> cd_seq (cs_codec (sv_codec s))}" using parts by (elim conjE)
  have once: "distinct (cs_answered (sv_codec s) @ cs_lost (sv_codec s))" using parts by (elim conjE)
  have "\<not> sv_open s \<longrightarrow> sv_calls s = Map.empty \<and> \<not> sv_reading s"
    using inv by (auto simp: serve_inv_def)
  moreover have "dom (sv_calls s) \<union> responded (sv_codec s) = dom (cs_asked (sv_codec s))" "dom (sv_calls s) \<inter> responded (sv_codec s) = {}"
    using calls asked by blast+
  ultimately show ?thesis using once seq by (simp only: Un_assoc [symmetric])
qed

text \<open>
  C4: A share that has passed the checks of \<open>Submit\<close> keeps its session for ever: whatever happens
  afterwards, also when the miner hangs up, its request is not answered, \<open>ServeCodec\<close> and
  \<open>SpawnWorker\<close> do not return, the miner's worker stays as it is, the connection to the miner with it,
  and the proxy keeps its place with the director.
\<close>

theorem accepted_share_keeps_session:
  assumes "reach (serve_init i) (serve_step cfg conv mk_error title body_error hexmsg i k) s"
    and "holds_mutex (cc_sub (sv_conc s) (unat n))"
    and "(serve_step cfg conv mk_error title body_error hexmsg i k)\<^sup>*\<^sup>* s t"
  shows "sv_open t \<and> n \<in> dom (sv_calls t) \<and> n \<notin> set (cs_answered (sv_codec t))
    \<and> w_workers (sv_world t) k = w_workers (sv_world s) k \<and> p_connMu (w_proxies (sv_world t) i)
    \<and> sm_get (proxies (w_director (sv_world t))) i = sm_get (proxies (w_director (sv_world s))) i"
proof -
  have inv: "serve_inv i k s" by (rule serving.reach_inv [OF assms(1)])
  note later = holder_steps [OF assms(3) inv assms(2)]
  have t: "serve_inv i k t" by (rule serving.steps_inv [OF assms(3) inv])
  then have "unat n \<in> unat ` dom (sv_calls t)" using later unfolding serve_inv_def held_ok_def by blast
  then obtain m where "unat n = unat m" "m \<in> dom (sv_calls t)" by blast
  moreover from this(1) have "n = m" by (rule unsigned_word_eqI)
  ultimately have "n \<in> dom (sv_calls t)" by simp
  moreover have "p_connMu (w_proxies (sv_world t) i)"
    using t later conc_invD(1) by (auto simp: serve_inv_def held_ok_def)
  ultimately show ?thesis using t later by (auto simp: serve_inv_def calls_ok_def)
qed

subsection \<open>Examples\<close>

lemma readRequest_object:
  assumes "rpc_lookup (service_method title m) \<in> {CallLogin, CallGetjob, CallSubmit, CallKeepalived}"
  shows "readRequest mk_error title body_error (Some (request_json i m (JObj kvs))) c =
    (Dispatched (cd_seq c + 1) (rpc_lookup (service_method title m)) (add_members kvs (SetContext Map.empty)),
     read_request title i m kvs c)"
  using assms by (auto simp: readRequest_def header_read body_read)

definition demo_serving :: serving where
  "demo_serving = \<lparr>sv_conc = \<lparr>cc_world = demo_session, cc_sub = (\<lambda>_. SIdle), cc_run = (\<lambda>_. RGone)\<rparr>,
     sv_codec = \<lparr>cs_codec = NewDefaultServerCodec, cs_asked = Map.empty, cs_answered = [], cs_lost = []\<rparr>,
     sv_calls = Map.empty, sv_reading = True, sv_connecting = Map.empty, sv_open = True\<rparr>"

abbreviation demo_step :: "serving \<Rightarrow> serving \<Rightarrow> bool" where
  "demo_step \<equiv> serve_step default_config (\<lambda>_. 0) (\<lambda>c m. JStr m) id [] (\<lambda>_. []) 1 1"

lemma demo_serving_init: "serve_init 1 demo_serving"
  by (simp add: serve_init_def demo_serving_def codec_init_def demo_session_fields NewProxy_def)

lemma demo_reach: "reach (serve_init 1) demo_step demo_serving"
  by (rule reach_init) (rule demo_serving_init)

lemma demo_reach_step:
  "reach (serve_init 1) demo_step s \<Longrightarrow> demo_step s t \<Longrightarrow> reach (serve_init 1) demo_step t"
  by (rule reach_step)

lemma demo_read:
  assumes "rpc_lookup (service_method id m) \<in> {CallLogin, CallGetjob, CallSubmit, CallKeepalived}"
  shows "demo_step demo_serving (demo_serving\<lparr>sv_codec := note_request 1 (Some (JNum ''7''))
      (read_request id ''7'' m kvs NewDefaultServerCodec) (sv_codec demo_serving),
    sv_calls := [1 \<mapsto> (rpc_lookup (service_method id m), add_members kvs (SetContext Map.empty))]\<rparr>)"
proof -
  have z: "cd_seq NewDefaultServerCodec = 0" by (simp add: NewDefaultServerCodec_def)
  have "demo_step demo_serving (demo_serving\<lparr>sv_codec := note_request 1 (Some (JNum ''7''))
      (read_request id ''7'' m kvs NewDefaultServerCodec) (sv_codec demo_serving),
    sv_calls := (sv_calls demo_serving)(1 \<mapsto> (rpc_lookup (service_method id m), add_members kvs (SetContext Map.empty)))\<rparr>)"
    using serve_read [OF _ _ request_json_read, of demo_serving "\<lambda>c m. JStr m" id "[]" "''7''" m kvs]
      readRequest_object [OF assms, of "\<lambda>c m. JStr m" "[]" "''7''" kvs NewDefaultServerCodec] z
    by (simp add: demo_serving_def MaxUint64_def)
  then show ?thesis by (simp add: demo_serving_def)
qed

theorem accepted_share_keeps_session_witness:
  "\<exists>s. reach (serve_init 1) demo_step s \<and> sv_open s \<and> 1 \<in> dom (sv_calls s)
    \<and> p_connMu (w_proxies (sv_world s) 1)"
proof -
  let ?kvs = "[(''job_id'', JStr ''FFFFFFFFFF0''), (''nonce'', JStr ''00'')]"
  let ?ps = "add_members ?kvs (SetContext Map.empty)"
  have name: "rpc_lookup (service_method id ''submit'') = CallSubmit" by (simp add: rpc_lookup_def name_simps)
  let ?s = "demo_serving\<lparr>sv_codec := note_request 1 (Some (JNum ''7''))
      (read_request id ''7'' ''submit'' ?kvs NewDefaultServerCodec) (sv_codec demo_serving),
    sv_calls := [1 \<mapsto> (CallSubmit, ?ps)]\<rparr>"
  have one: "demo_step demo_serving ?s" using demo_read [of "''submit''" ?kvs] name by simp
  let ?sh = "\<lparr>s_AuthID = [], s_JobID = ''FFFFFFFFFF0'', s_Nonce = ''00'', s_Result = []\<rparr>"
  have "submit_request ?ps (w_proxies demo_session 1) = Ret (Inr ?sh)" "getWorker 1 ?ps = Ret 1"
    by (simp_all add: submit_request_def newShare_def opt_string_def add_members_def SetContext_def
        demo_session_fields NewProxy_def has_prefix_def fakePrefix_def getWorker_def params_context_def)
  then have "service_call (\<lambda>c m. JStr m) (\<lambda>_. []) empty_job 1 CallSubmit ?ps demo_session = Ret (HandsShare ?sh)"
    by (simp add: service_call_def Mining_Submit_def demo_session_fields NewProxy_def)
  then have two: "demo_step ?s (?s\<lparr>sv_conc := (sv_conc ?s)\<lparr>cc_world := lock_proxy 1 (sv_world ?s),
      cc_sub := (cc_sub (sv_conc ?s))(unat (1 :: u64) := SSending ?sh)\<rparr>\<rparr>)"
    by (intro serve_hand [where target = CallSubmit and ps = ?ps and fake = empty_job])
      (simp_all add: demo_serving_def demo_session_fields)
  have r: "reach (serve_init 1) demo_step (?s\<lparr>sv_conc := (sv_conc ?s)\<lparr>cc_world := lock_proxy 1 (sv_world ?s),
      cc_sub := (cc_sub (sv_conc ?s))(unat (1 :: u64) := SSending ?sh)\<rparr>\<rparr>)"
    using demo_reach_step [OF demo_reach_step [OF demo_reach one] two] .
  show ?thesis
    using accepted_share_keeps_session [OF r _ rtranclp.rtrancl_refl, of 1] r by (intro exI conjI) (assumption | simp)+
qed

theorem session_answers_all_witness:
  "\<exists>s. reach (serve_init 1) demo_step s \<and> \<not> sv_open s \<and> set (cs_answered (sv_codec s)) \<union> set (cs_lost (sv_codec s)) = {1}"
proof -
  have name: "rpc_lookup (service_method id ''keepalived'') = CallKeepalived" by (simp add: rpc_lookup_def name_simps)
  let ?ps = "add_members [] (SetContext Map.empty)"
  let ?s = "demo_serving\<lparr>sv_codec := note_request 1 (Some (JNum ''7''))
      (read_request id ''7'' ''keepalived'' [] NewDefaultServerCodec) (sv_codec demo_serving),
    sv_calls := [1 \<mapsto> (CallKeepalived, ?ps)]\<rparr>"
  have one: "demo_step demo_serving ?s" using demo_read [of "''keepalived''" "[]"] name by simp
  let ?t = "?s\<lparr>sv_codec := respond True (\<lambda>c m. JStr m) 1 [] (Some (status_json Keepalived)) (sv_codec ?s),
      sv_calls := Map.empty\<rparr>"
  have "service_call (\<lambda>c m. JStr m) (\<lambda>_. []) empty_job 1 CallKeepalived ?ps demo_session
      = Ret (Answered [] (Some (status_json Keepalived)) None demo_session)"
    by (simp add: service_call_def)
  then have two: "demo_step ?s ?t"
    using serve_call [of ?s 1 CallKeepalived ?ps 1 1 "\<lambda>c m. JStr m" "\<lambda>_. []" empty_job "[]"
        "Some (status_json Keepalived)" None demo_session 0 default_config "\<lambda>_. 0" id "[]" True]
    by (simp add: demo_serving_def demo_session_fields)
  obtain c where c: "readRequest (\<lambda>c m. JStr m) id [] None (cs_codec (sv_codec ?t)) = (EndOfRequests, c)"
    by (simp add: readRequest_def ReadRequestHeader_def)
  let ?u = "?t\<lparr>sv_codec := (sv_codec ?t)\<lparr>cs_codec := c\<rparr>, sv_reading := False\<rparr>"
  have three: "demo_step ?t ?u" by (rule serve_end [OF _ c]) (simp add: demo_serving_def)
  let ?w = "upd_worker 1 (\<lambda>x. x\<lparr>wk_conn_open := False\<rparr>) demo_session"
  have "session_ok ?w 1" "\<not> p_isClosed (w_proxies ?w 1)"
    using session_ok_cong [of ?w 1 demo_session] world_invD(1) [OF demo_session_inv(1,2)]
    by (simp_all add: demo_session_fields NewProxy_def)
  from proxy_Remove_open [OF this(1) _ this(2)] have "\<exists>v. SpawnWorker_end 1 demo_session = Ret v"
    by (simp add: SpawnWorker_end_def worker_Disconnect_def demo_session_fields)
  then obtain v where v: "SpawnWorker_end 1 demo_session = Ret v" by blast
  have four: "demo_step ?u (?u\<lparr>sv_conc := (sv_conc ?u)\<lparr>cc_world := v\<rparr>, sv_open := False\<rparr>)"
    by (rule serve_return) (simp_all add: demo_serving_def demo_session_fields v)
  have r: "reach (serve_init 1) demo_step (?u\<lparr>sv_conc := (sv_conc ?u)\<lparr>cc_world := v\<rparr>, sv_open := False\<rparr>)"
    using demo_reach_step [OF demo_reach_step [OF demo_reach_step [OF demo_reach_step [OF demo_reach one] two] three] four] .
  have "cd_seq c = 1"
    using c by (auto simp: readRequest_def ReadRequestHeader_def respond_def note_request_def read_request_def
        WriteResponse_eq note_response_def NewDefaultServerCodec_def split: option.splits prod.splits)
  moreover have "{n :: u64. 0 < n \<and> n \<le> 1} = {1}" using next_word(2) [of "0 :: u64"] by auto
  ultimately have "set (cs_answered (sv_codec ?u)) \<union> set (cs_lost (sv_codec ?u)) = {1}"
    using session_answers_all [OF r] by simp
  with r show ?thesis by (intro exI conjI) (assumption | simp)+
qed

end
