(* ===== verification/StratumClient.thy ===== *)
theory StratumClient
  imports Codec
begin

text \<open>
  \<open>server/stratum/client.go\<close>: the client's side of the protocol, a codec for the client of
  \<open>net/rpc\<close>, which numbers the requests. The server does not use it; it is what a Go program
  at the other end of theory Codec runs.

  The error object belongs to package \<open>jsonrpc2\<close>: its type is a type variable, and \<open>dec_error\<close> is how
  it is unmarshalled. What is read is a JSON value, the end of the stream or text that is no JSON.
\<close>

subsection \<open>Requests\<close>

definition seqNotify :: u64 where "seqNotify = MaxUint64"
definition notificationBufferLength :: nat where "notificationBufferLength = 10"

record client_request =
  cr_Version :: string
  cr_Method :: string
  cr_Params :: "json option"
  cr_ID :: "u64 option"

record 'e client_response =
  rs_Version :: string
  rs_ID :: "u64 option"
  rs_Result :: "json option"
  rs_Error :: "'e option"

record 'e client =
  cl_resp :: "'e client_response"
  cl_notif :: client_request
  cl_pending :: "u64 \<rightharpoonup> string"
  cl_notifications :: "client_request list"
  cl_out :: "json list"

definition empty_client_request :: client_request where
  "empty_client_request = \<lparr>cr_Version = [], cr_Method = [], cr_Params = None, cr_ID = None\<rparr>"

definition empty_response :: "'e client_response" where
  "empty_response = \<lparr>rs_Version = [], rs_ID = None, rs_Result = None, rs_Error = None\<rparr>"

definition newClientCodec :: "'e client" where
  "newClientCodec = \<lparr>cl_resp = empty_response, cl_notif = empty_client_request, cl_pending = Map.empty,
     cl_notifications = [], cl_out = []\<rparr>"

text \<open>
  A parameter by its \<open>reflect.Kind\<close>, with its JSON: \<open>PMap\<close> says whether the keys are strings and
  whether it is nil, \<open>PSlice\<close> and \<open>PPtr\<close> whether they are nil, \<open>POther\<close> names any other kind.
\<close>

datatype go_param = PNil | PMap bool bool json | PSlice bool json | PArray json | PStruct json
  | PPtr bool go_param | POther string json

fun param_json :: "go_param \<Rightarrow> json option" where
  "param_json PNil = None"
| "param_json (PMap _ is_nil j) = Some (if is_nil then JNull else j)"
| "param_json (PSlice is_nil j) = Some (if is_nil then JNull else j)"
| "param_json (PArray j) = Some j"
| "param_json (PStruct j) = Some j"
| "param_json (PPtr is_nil p) = (if is_nil then Some JNull else param_json p)"
| "param_json (POther _ j) = Some j"

definition is_nil_value :: "bool \<Rightarrow> bool \<Rightarrow> bool go" where
  "is_nil_value ptr_nil value_nil = (if ptr_nil then Panic else Ret value_nil)"

text \<open>The reflection of \<open>WriteRequest\<close>: the params, none, or an error for the kind.\<close>

fun check_param :: "go_param \<Rightarrow> (string + json option) go" where
  "check_param PNil = Ret (Inr None)"
| "check_param (PMap str is_nil j) =
     Ret (Inr (if str \<and> is_nil then None else param_json (PMap str is_nil j)))"
| "check_param (PSlice is_nil j) = Ret (Inr (if is_nil then None else Some j))"
| "check_param (PArray j) = Ret (Inr (Some j))"
| "check_param (PStruct j) = Ret (Inr (Some j))"
| "check_param (PPtr nil (PMap str is_nil j)) =
     (if str then go_bind (is_nil_value nil is_nil) (\<lambda>b. Ret (Inr (if b then None else Some j)))
      else Ret (Inr (param_json (PPtr nil (PMap str is_nil j)))))"
| "check_param (PPtr nil (PSlice is_nil j)) =
     go_bind (is_nil_value nil is_nil) (\<lambda>b. Ret (Inr (if b then None else Some j)))"
| "check_param (PPtr nil (PArray j)) = Ret (Inr (param_json (PPtr nil (PArray j))))"
| "check_param (PPtr nil (PStruct j)) = Ret (Inr (param_json (PPtr nil (PStruct j))))"
| "check_param (PPtr nil (PPtr _ _)) = Ret (Inl ''unsupported param type: Ptr to ptr'')"
| "check_param (PPtr nil PNil) = Ret (Inl ''unsupported param type: Ptr to interface'')"
| "check_param (PPtr nil (POther kind _)) = Ret (Inl (''unsupported param type: Ptr to '' @ kind))"
| "check_param (POther kind _) = Ret (Inl (''unsupported param type: '' @ kind))"

definition request_value :: "client_request \<Rightarrow> json" where
  "request_value r = JObj ([(''jsonrpc'', JStr (cr_Version r)), (''method'', JStr (cr_Method r))]
     @ (case cr_Params r of None \<Rightarrow> [] | Some p \<Rightarrow> [(''params'', p)])
     @ (case cr_ID r of None \<Rightarrow> [] | Some n \<Rightarrow> [(''id'', JNum (dec_digits (unat n)))]))"

text \<open>
  \<open>WriteRequest\<close>: an error is plain, or one of package \<open>jsonrpc2\<close> with the code for an internal
  error; \<open>enc_err\<close> is the error of writing, if there is one.
\<close>

datatype write_error = PlainError string | RpcError int string

definition WriteRequest :: "string option \<Rightarrow> u64 \<Rightarrow> string \<Rightarrow> go_param \<Rightarrow> 'e client
    \<Rightarrow> (write_error option \<times> 'e client) go" where
  "WriteRequest enc_err seq meth param c =
     (if seq = 0 then Ret (Some (PlainError ''skipping first request''), c)
      else
        go_bind (check_param param) (\<lambda>chk.
          case chk of
            Inl e \<Rightarrow> Ret (Some (RpcError (fst errInternal) e), c)
          | Inr ps \<Rightarrow>
              let c = (if seq \<noteq> seqNotify then c\<lparr>cl_pending := (cl_pending c)(seq \<mapsto> meth)\<rparr> else c);
                  req = \<lparr>cr_Version = ''2.0'', cr_Method = meth, cr_Params = ps,
                         cr_ID = (if seq \<noteq> seqNotify then Some seq else None)\<rparr>
              in case enc_err of
                   None \<Rightarrow> Ret (None, c\<lparr>cl_out := cl_out c @ [request_value req]\<rparr>)
                 | Some e \<Rightarrow> Ret (Some (RpcError (fst errInternal) e), c)))"

definition Client_Notify :: "string option \<Rightarrow> string \<Rightarrow> go_param \<Rightarrow> 'e client
    \<Rightarrow> (write_error option \<times> 'e client) go" where
  "Client_Notify enc_err meth param c = WriteRequest enc_err seqNotify meth param c"

subsection \<open>Responses\<close>

definition response_names :: "string list" where
  "response_names = [''jsonrpc'', ''id'', ''result'', ''error'']"

text \<open>A \<open>*uint64\<close> field: \<open>null\<close> is the nil pointer.\<close>

fun uint_field :: "json \<Rightarrow> u64 option option" where
  "uint_field JNull = Some None"
| "uint_field (JNum s) =
     (case parse_nat s of Some n \<Rightarrow> if n < 2 ^ 64 then Some (Some (of_nat n)) else None | None \<Rightarrow> None)"
| "uint_field _ = None"

definition response_member :: "(json \<Rightarrow> 'e option) \<Rightarrow> 'e client_response \<times> bool \<Rightarrow> string \<times> json
    \<Rightarrow> 'e client_response \<times> bool" where
  "response_member dec_error st m =
     (case st of (r, ok) \<Rightarrow> case m of (k, j) \<Rightarrow>
        case find_field response_names k of
          None \<Rightarrow> (r, ok)
        | Some i \<Rightarrow>
            if i = 0 then
              (case string_field (rs_Version r) j of None \<Rightarrow> (r, False) | Some s \<Rightarrow> (r\<lparr>rs_Version := s\<rparr>, ok))
            else if i = 1 then
              (case uint_field j of None \<Rightarrow> (r, False) | Some n \<Rightarrow> (r\<lparr>rs_ID := n\<rparr>, ok))
            else if i = 2 then (r\<lparr>rs_Result := raw_pointer j\<rparr>, ok)
            else if j = JNull then (r\<lparr>rs_Error := None\<rparr>, ok)
            else (case dec_error j of None \<Rightarrow> (r, False) | Some e \<Rightarrow> (r\<lparr>rs_Error := Some e\<rparr>, ok)))"

definition unmarshal_response :: "(json \<Rightarrow> 'e option) \<Rightarrow> 'e client_response \<Rightarrow> json \<Rightarrow> 'e client_response \<times> bool" where
  "unmarshal_response dec_error r raw =
     (case raw of JNull \<Rightarrow> (r, True) | JObj kvs \<Rightarrow> foldl (response_member dec_error) (r, True) kvs | _ \<Rightarrow> (r, False))"

fun object_size :: "json \<Rightarrow> nat" where
  "object_size (JObj kvs) = length (remdups (map fst kvs))"
| "object_size _ = 0"

text \<open>The error object: a code and a message, and at most one more member, \<open>data\<close>.\<close>

fun error_object_ok :: "json \<Rightarrow> bool" where
  "error_object_ok (JObj kvs) =
     (let oe = raw_map kvs; n = object_size (JObj kvs) in
      oe ''code'' \<noteq> None \<and> oe ''code'' \<noteq> Some None \<and> oe ''message'' \<noteq> None \<and> oe ''message'' \<noteq> Some None
      \<and> \<not> (oe ''data'' = None \<and> 2 < n) \<and> \<not> 3 < n)"
| "error_object_ok _ = False"

text \<open>\<open>clientResponse.UnmarshalJSON\<close>; \<open>None\<close> is "bad response".\<close>

definition response_UnmarshalJSON :: "(json \<Rightarrow> 'e option) \<Rightarrow> json \<Rightarrow> 'e client_response option" where
  "response_UnmarshalJSON dec_error raw =
     (case unmarshal_response dec_error empty_response raw of (r, ok) \<Rightarrow>
        if \<not> ok then None
        else
          let o' = raw_members raw; okVer = o' ''jsonrpc'' \<noteq> None; okID = o' ''id'' \<noteq> None;
              okRes = o' ''result'' \<noteq> None; okErr = o' ''error'' \<noteq> None in
          if \<not> okVer \<or> \<not> okID \<or> \<not> (okRes \<or> okErr) \<or> 4 < object_size raw then None
          else if rs_Version r \<noteq> ''2.0'' then None
          else
            let r = (if okRes \<and> rs_Result r = None then r\<lparr>rs_Result := Some JNull\<rparr> else r) in
            if (case o' ''error'' of Some (Some e) \<Rightarrow> \<not> error_object_ok e | _ \<Rightarrow> False) then None
            else if o' ''id'' = Some None \<and> \<not> okErr then None
            else Some r)"

subsection \<open>Notifications\<close>

definition notification_names :: "string list" where
  "notification_names = [''jsonrpc'', ''method'', ''params'', ''id'']"

definition notification_member :: "client_request \<times> bool \<Rightarrow> string \<times> json \<Rightarrow> client_request \<times> bool" where
  "notification_member st m =
     (case st of (r, ok) \<Rightarrow> case m of (k, j) \<Rightarrow>
        case find_field notification_names k of
          None \<Rightarrow> (r, ok)
        | Some i \<Rightarrow>
            if i = 0 then
              (case string_field (cr_Version r) j of None \<Rightarrow> (r, False) | Some s \<Rightarrow> (r\<lparr>cr_Version := s\<rparr>, ok))
            else if i = 1 then
              (case string_field (cr_Method r) j of None \<Rightarrow> (r, False) | Some s \<Rightarrow> (r\<lparr>cr_Method := s\<rparr>, ok))
            else if i = 2 then (r\<lparr>cr_Params := raw_pointer j\<rparr>, ok)
            else (case uint_field j of None \<Rightarrow> (r, False) | Some n \<Rightarrow> (r\<lparr>cr_ID := n\<rparr>, ok)))"

definition unmarshal_notification :: "client_request \<Rightarrow> json \<Rightarrow> client_request \<times> bool" where
  "unmarshal_notification r raw =
     (case raw of JNull \<Rightarrow> (r, True) | JObj kvs \<Rightarrow> foldl notification_member (r, True) kvs | _ \<Rightarrow> (r, False))"

text \<open>A full buffer ends the process.\<close>

definition receiveNotification :: "'e client \<Rightarrow> 'e client go" where
  "receiveNotification c =
     (if notificationBufferLength \<le> length (cl_notifications c) then Exit
      else Ret (c\<lparr>cl_notifications := cl_notifications c @ [cl_notif c]\<rparr>))"

text \<open>
  \<open>handleNotification\<close> decodes the same value once more, into the notification of before, which
  is not reset; \<open>False\<close> is an error.
\<close>

definition handleNotification_client :: "json option \<Rightarrow> 'e client \<Rightarrow> (bool \<times> 'e client) go" where
  "handleNotification_client raw c =
     (case raw of
        None \<Rightarrow> Ret (False, c)
      | Some raw \<Rightarrow>
          (case unmarshal_notification (cl_notif c) raw of (n, ok) \<Rightarrow>
             let c = c\<lparr>cl_notif := n\<rparr> in
             if ok then go_bind (receiveNotification c) (\<lambda>c. Ret (True, c)) else Ret (False, c)))"

subsection \<open>Reading\<close>

datatype client_input = InputEOF | InputBad | InputJson json

text \<open>What \<open>ReadResponseHeader\<close> returns to \<open>net/rpc\<close>: any error shuts the client down.\<close>

datatype 'e header = HeaderEOF | HeaderNotification bool | HeaderError 'e | HeaderInternal | HeaderFor string u64

definition ReadResponseHeader :: "(json \<Rightarrow> 'e option) \<Rightarrow> client_input \<Rightarrow> 'e client \<Rightarrow> ('e header \<times> 'e client) go" where
  "ReadResponseHeader dec_error input c =
     (case input of
        InputEOF \<Rightarrow> Ret (HeaderEOF, c)
      | InputBad \<Rightarrow> go_bind (handleNotification_client None c) (\<lambda>(ok, c). Ret (HeaderNotification ok, c))
      | InputJson raw \<Rightarrow>
          (case response_UnmarshalJSON dec_error raw of
             None \<Rightarrow> go_bind (handleNotification_client (Some raw) c) (\<lambda>(ok, c). Ret (HeaderNotification ok, c))
           | Some r \<Rightarrow>
               let c = c\<lparr>cl_resp := r\<rparr> in
               case rs_Error r of
                 Some e \<Rightarrow> Ret (HeaderError e, c)
               | None \<Rightarrow>
                   (case rs_ID r of
                      None \<Rightarrow> Ret (HeaderInternal, c)
                    | Some n \<Rightarrow>
                        Ret (HeaderFor (case cl_pending c n of None \<Rightarrow> [] | Some m \<Rightarrow> m) n,
                             c\<lparr>cl_pending := (cl_pending c)(n := None)\<rparr>))))"

text \<open>\<open>ReadResponseBody\<close>: the result, unmarshalled into the reply if one is wanted; \<open>Inl\<close> is an
  error.\<close>

definition ReadResponseBody :: "(json \<Rightarrow> 'x option) \<Rightarrow> bool \<Rightarrow> 'e client \<Rightarrow> unit + 'x option" where
  "ReadResponseBody unmarshal wanted c =
     (if \<not> wanted then Inr None
      else case rs_Result (cl_resp c) of
        None \<Rightarrow> Inr None
      | Some j \<Rightarrow> (case unmarshal j of None \<Rightarrow> Inl () | Some x \<Rightarrow> Inr (Some x)))"

text \<open>\<open>Call\<close>: the error of the call, or the timeout when the call does not end in time.\<close>

datatype call_error = CallFailed string | ErrCallTimedOut

definition Call :: "string option option \<Rightarrow> call_error option" where
  "Call result = (case result of None \<Rightarrow> Some ErrCallTimedOut | Some None \<Rightarrow> None | Some (Some e) \<Rightarrow> Some (CallFailed e))"

subsection \<open>Lemmas\<close>

lemma uint_field_digits: "uint_field (JNum (dec_digits (unat n))) = Some (Some n)" for n :: u64
  using unsigned_less [of n, where 'a = nat] by (simp add: parse_dec_digits)

lemmas names_simps = find_field_def request_names_def response_names_def notification_names_def
  request_member_def response_member_def notification_member_def lower_char_def

lemma request_value_read:
  assumes "is_container ps \<or> ps = None"
  shows "request_UnmarshalJSON r (request_value \<lparr>cr_Version = ''2.0'', cr_Method = m, cr_Params = ps, cr_ID = i\<rparr>) =
    Some \<lparr>rq_Version = ''2.0'', rq_Method = m, rq_Params = ps,
      rq_ID = map_option (\<lambda>n. JNum (dec_digits (unat n))) i\<rparr>"
proof -
  have "raw_pointer p = Some p" if "ps = Some p" for p
    using assms that by (cases p) (auto simp: raw_pointer_def)
  then show ?thesis
    using assms
    by (cases ps; cases i)
      (auto simp: request_value_def request_UnmarshalJSON_def unmarshal_request_def names_simps request_reset_def
        empty_request_def raw_map_def raw_pointer_def Let_def)
qed

lemma response_read:
  "response_UnmarshalJSON dec_error (server_response (Some (JNum (dec_digits (unat n)))) (Some x) None) =
     Some \<lparr>rs_Version = ''2.0'', rs_ID = Some n, rs_Result = Some x, rs_Error = None\<rparr>" for n :: u64
  using uint_field_digits [of n]
  by (auto simp: server_response_def response_UnmarshalJSON_def unmarshal_response_def names_simps empty_response_def
      raw_map_def raw_pointer_def json_id_def Let_def simp del: uint_field.simps(2))

subsection \<open>Properties\<close>

text \<open>
  C17: The two codecs understand each other. A numbered request with an object, an array or no params is
  read by the server with its method and params; the response the server writes is read by the
  client as the answer to that very request, under its method, with the result unchanged (\<open>null\<close>
  included), and the request is no longer pending on either side.
\<close>

theorem rpc_roundtrip:
  assumes "n \<noteq> 0" "n \<noteq> seqNotify" and "check_param p = Ret (Inr ps)" "is_container ps \<or> ps = None"
    and "sm_inv (cd_pending d)"
  shows "\<exists>c' r d' d'' j c''. WriteRequest None n m p c = Ret (None, c') \<and> cl_out c' = cl_out c @ [r]
    \<and> ReadRequestHeader mk_error title (Some r) d = (Some (service_method title m, cd_seq d + 1), d')
    \<and> rq_Params (cd_req d') = ps
    \<and> WriteResponse True mk_error (cd_seq d + 1) [] (Some x) d' = (True, d'') \<and> cd_out d'' = cd_out d @ [j]
    \<and> sm_get (cd_pending d'') (cd_seq d + 1) = None
    \<and> ReadResponseHeader dec_error (InputJson j) c' = Ret (HeaderFor m n, c'') \<and> cl_pending c'' n = None
    \<and> ReadResponseBody unmarshal True c'' = (case unmarshal x of None \<Rightarrow> Inl () | Some v \<Rightarrow> Inr (Some v))"
proof -
  let ?q = "\<lparr>cr_Version = ''2.0'', cr_Method = m, cr_Params = ps, cr_ID = Some n\<rparr>"
  let ?r = "request_value ?q"
  let ?c = "c\<lparr>cl_pending := (cl_pending c)(n \<mapsto> m), cl_out := cl_out c @ [?r]\<rparr>"
  have one: "WriteRequest None n m p c = Ret (None, ?c)"
    using assms(1-3) by (simp add: WriteRequest_def Let_def)
  let ?i = "Some (JNum (dec_digits (unat n)))"
  let ?s = "\<lparr>rq_Version = ''2.0'', rq_Method = m, rq_Params = ps, rq_ID = ?i\<rparr>"
  let ?d = "d\<lparr>cd_req := ?s\<lparr>rq_ID := None\<rparr>, cd_seq := cd_seq d + 1,
      cd_pending := sm_set (cd_pending d) (cd_seq d + 1) ?i\<rparr>"
  have "request_UnmarshalJSON (cd_req d) ?r = Some ?s"
    using request_value_read [OF assms(4), of "cd_req d" m "Some n"] by simp
  from ReadRequestHeader_Some [OF this]
  have two: "ReadRequestHeader mk_error title (Some ?r) d = (Some (service_method title m, cd_seq d + 1), ?d)"
    by simp
  let ?j = "server_response ?i (Some x) None"
  let ?e = "send ?j (?d\<lparr>cd_pending := sm_del (cd_pending ?d) (cd_seq d + 1)\<rparr>)"
  have inv: "sm_inv (cd_pending ?d)" using sm.inv_put [OF assms(5)] by simp
  have "sm_get (cd_pending ?d) (cd_seq d + 1) = Some ?i" using sm.get_put [OF assms(5)] by simp
  then have three: "WriteResponse True mk_error (cd_seq d + 1) [] (Some x) ?d = (True, ?e)"
    unfolding WriteResponse_eq by (simp add: json_id_def)
  have gone: "sm_get (cd_pending ?e) (cd_seq d + 1) = None"
    using sm.get_del [OF inv, of "cd_seq d + 1"] by simp
  let ?f = "?c\<lparr>cl_resp := \<lparr>rs_Version = ''2.0'', rs_ID = Some n, rs_Result = Some x, rs_Error = None\<rparr>,
      cl_pending := (cl_pending ?c)(n := None)\<rparr>"
  have four: "ReadResponseHeader dec_error (InputJson ?j) ?c = Ret (HeaderFor m n, ?f)"
    by (simp add: ReadResponseHeader_def response_read Let_def)
  have five: "ReadResponseBody unmarshal True ?f = (case unmarshal x of None \<Rightarrow> Inl () | Some v \<Rightarrow> Inr (Some v))"
    by (simp add: ReadResponseBody_def)
  show ?thesis
    by (rule exI [of _ ?c], rule exI [of _ ?r], rule exI [of _ ?d], rule exI [of _ ?e], rule exI [of _ ?j],
        rule exI [of _ ?f])
      (use one two three four five gone in simp)
qed

lemma new_out: "cl_out newClientCodec @ xs = xs"
  by (simp add: newClientCodec_def)

theorem rpc_roundtrip_witness:
  "\<exists>r d' d'' j c''. ReadRequestHeader (\<lambda>c m. JStr m) id (Some r) NewDefaultServerCodec = (Some (''mining.Keepalived'', 1), d')
    \<and> WriteResponse True (\<lambda>c m. JStr m) 1 [] (Some (JStr ''ok'')) d' = (True, d'') \<and> cd_out d'' = [j]
    \<and> ReadResponseHeader (Some :: json \<Rightarrow> json option) (InputJson j) (newClientCodec\<lparr>cl_pending := [3 \<mapsto> ''keepalived''], cl_out := [r]\<rparr>)
      = Ret (HeaderFor ''keepalived'' 3, c'')"
proof -
  have hyps: "(3 :: u64) \<noteq> 0" "(3 :: u64) \<noteq> seqNotify" "check_param PNil = Ret (Inr None)"
    "is_container None \<or> None = None" "sm_inv (cd_pending NewDefaultServerCodec)"
    using sm.inv_empty by (simp_all add: seqNotify_def MaxUint64_def NewDefaultServerCodec_def)
  obtain c' r d' d'' j c'' where *: "WriteRequest None 3 ''keepalived'' PNil newClientCodec = Ret (None, c')"
      "cl_out c' = [r]"
      "ReadRequestHeader (\<lambda>c m. JStr m) id (Some r) NewDefaultServerCodec
        = (Some (service_method id ''keepalived'', cd_seq NewDefaultServerCodec + 1), d')"
      "WriteResponse True (\<lambda>c m. JStr m) (cd_seq NewDefaultServerCodec + 1) [] (Some (JStr ''ok'')) d' = (True, d'')"
      "cd_out d'' = cd_out NewDefaultServerCodec @ [j]"
      "ReadResponseHeader (Some :: json \<Rightarrow> json option) (InputJson j) c' = Ret (HeaderFor ''keepalived'' 3, c'')"
    using rpc_roundtrip [OF hyps, of "''keepalived''" newClientCodec "\<lambda>c m. JStr m" id "JStr ''ok''" "Some :: json \<Rightarrow> json option" Some]
    unfolding new_out by blast
  have "c' = newClientCodec\<lparr>cl_pending := [3 \<mapsto> ''keepalived''], cl_out := [r]\<rparr>"
    using *(1,2) hyps(2) by (auto simp: WriteRequest_def newClientCodec_def Let_def)
  moreover have "service_method id ''keepalived'' = ''mining.Keepalived''" by (simp add: name_simps)
  moreover have "cd_seq NewDefaultServerCodec = 0" "cd_out NewDefaultServerCodec = []"
    by (simp_all add: NewDefaultServerCodec_def)
  ultimately have "ReadRequestHeader (\<lambda>c m. JStr m) id (Some r) NewDefaultServerCodec = (Some (''mining.Keepalived'', 1), d')"
    "WriteResponse True (\<lambda>c m. JStr m) 1 [] (Some (JStr ''ok'')) d' = (True, d'')" "cd_out d'' = [j]"
    "ReadResponseHeader (Some :: json \<Rightarrow> json option) (InputJson j) (newClientCodec\<lparr>cl_pending := [3 \<mapsto> ''keepalived''], cl_out := [r]\<rparr>)
      = Ret (HeaderFor ''keepalived'' 3, c'')"
    using *(3-6) by simp_all
  then show ?thesis by blast
qed

text \<open>
  A notification is queued as it was sent only when it has params of its own: the struct it is
  decoded into is not reset, so that one without params is queued with those of the
  notification before.
\<close>

theorem stale_notification:
  assumes "p \<noteq> JNull" and "length (cl_notifications c) + 2 \<le> notificationBufferLength"
  shows "\<exists>c'. go_bind (ReadResponseHeader dec_error (InputJson (JObj [(''method'', JStr m), (''params'', p)])) c)
        (\<lambda>(h, c). ReadResponseHeader dec_error (InputJson (JObj [(''method'', JStr m')])) c)
      = Ret (HeaderNotification True, c')
    \<and> map (\<lambda>x. (cr_Method x, cr_Params x)) (cl_notifications c')
      = map (\<lambda>x. (cr_Method x, cr_Params x)) (cl_notifications c) @ [(m, Some p), (m', Some p)]"
  using assms
  by (simp add: ReadResponseHeader_def response_UnmarshalJSON_def unmarshal_response_def names_simps raw_map_def
      handleNotification_client_def unmarshal_notification_def receiveNotification_def notificationBufferLength_def
      raw_pointer_def Let_def)

theorem stale_notification_witness:
  "\<exists>c'. go_bind (ReadResponseHeader (Some :: json \<Rightarrow> json option) (InputJson (JObj [(''method'', JStr ''job''), (''params'', JNum ''1'')])) newClientCodec)
        (\<lambda>(h, c). ReadResponseHeader (Some :: json \<Rightarrow> json option) (InputJson (JObj [(''method'', JStr ''ping'')])) c)
      = Ret (HeaderNotification True, c')
    \<and> map cr_Params (cl_notifications c') = [Some (JNum ''1''), Some (JNum ''1'')]"
proof -
  have "length (cl_notifications newClientCodec) + 2 \<le> notificationBufferLength"
    by (simp add: newClientCodec_def notificationBufferLength_def)
  from stale_notification [OF _ this, of "JNum ''1''" "Some :: json \<Rightarrow> json option" "''job''" "''ping''"]
  show ?thesis by (auto simp: newClientCodec_def map_eq_Cons_conv)
qed

end
