(* ===== verification/RpcClient.thy ===== *)
theory RpcClient
  imports StratumClient
begin

text \<open>
  The client of \<open>server/stratum/client.go\<close>: \<open>NewClient\<close>, \<open>Dial\<close> and \<open>Close\<close> on top of the client of
  \<open>net/rpc\<close>, which numbers the calls from 0, keeps those that are pending, and reads responses in a
  loop until an error; and of the codec of theory StratumClient, which refuses the number 0. Calls are
  named by numbers of their own, \<open>unmarshal\<close> reads a result.
\<close>

datatype ('e, 'x) outcome = Reply "'x option" | FailShutdown | FailWrite write_error | FailBody
  | FailRemote 'e | FailEOF | FailInternal | FailNotification

record ('e, 'x) rpc =
  rc_codec :: "'e client"
  rc_seq :: u64
  rc_pending :: "u64 \<rightharpoonup> nat"
  rc_shutdown :: bool
  rc_closing :: bool
  rc_done :: "nat \<rightharpoonup> ('e, 'x) outcome"

definition finish :: "nat \<Rightarrow> ('e, 'x) outcome \<Rightarrow> ('e, 'x) rpc \<Rightarrow> ('e, 'x) rpc" where
  "finish call r s = s\<lparr>rc_done := (rc_done s)(call \<mapsto> r)\<rparr>"

text \<open>\<open>Go\<close> and \<open>send\<close> of \<open>net/rpc\<close>.\<close>

definition rpc_Go :: "string option \<Rightarrow> nat \<Rightarrow> string \<Rightarrow> go_param \<Rightarrow> ('e, 'x) rpc \<Rightarrow> ('e, 'x) rpc go" where
  "rpc_Go enc_err call meth param s =
     (if rc_shutdown s \<or> rc_closing s then Ret (finish call FailShutdown s)
      else
        let seq = rc_seq s; s = s\<lparr>rc_seq := seq + 1, rc_pending := (rc_pending s)(seq \<mapsto> call)\<rparr> in
        go_bind (WriteRequest enc_err seq meth param (rc_codec s)) (\<lambda>(err, c).
          let s = s\<lparr>rc_codec := c\<rparr> in
          case err of
            None \<Rightarrow> Ret s
          | Some e \<Rightarrow> Ret (finish call (FailWrite e) (s\<lparr>rc_pending := (rc_pending s)(seq := None)\<rparr>))))"

text \<open>\<open>input\<close> of \<open>net/rpc\<close> after its loop: every pending call fails.\<close>

definition rpc_terminate :: "('e, 'x) outcome \<Rightarrow> ('e, 'x) rpc \<Rightarrow> ('e, 'x) rpc" where
  "rpc_terminate r s = s\<lparr>rc_shutdown := True,
     rc_done := (\<lambda>call. if call \<in> ran (rc_pending s) then Some r else rc_done s call)\<rparr>"

text \<open>One turn of the loop: \<open>rpc_deliver\<close> is what follows a header for the number \<open>seq\<close>.\<close>

definition rpc_deliver :: "(json \<Rightarrow> 'x option) \<Rightarrow> u64 \<Rightarrow> ('e, 'x) rpc \<Rightarrow> ('e, 'x) rpc" where
  "rpc_deliver unmarshal seq s =
     (let call = rc_pending s seq; s = s\<lparr>rc_pending := (rc_pending s)(seq := None)\<rparr> in
      case call of
        None \<Rightarrow>
          (case ReadResponseBody unmarshal False (rc_codec s) of Inl _ \<Rightarrow> rpc_terminate FailBody s | Inr _ \<Rightarrow> s)
      | Some call \<Rightarrow>
          (case ReadResponseBody unmarshal True (rc_codec s) of
             Inl _ \<Rightarrow> rpc_terminate FailBody (finish call FailBody s)
           | Inr x \<Rightarrow> finish call (Reply x) s))"

definition rpc_input :: "(json \<Rightarrow> 'x option) \<Rightarrow> (json \<Rightarrow> 'e option) \<Rightarrow> client_input \<Rightarrow> ('e, 'x) rpc
    \<Rightarrow> ('e, 'x) rpc go" where
  "rpc_input unmarshal dec_error input s =
     go_bind (ReadResponseHeader dec_error input (rc_codec s)) (\<lambda>(h, c).
       let s = s\<lparr>rc_codec := c\<rparr> in
       case h of
         HeaderEOF \<Rightarrow> Ret (rpc_terminate (if rc_closing s then FailShutdown else FailEOF) s)
       | HeaderNotification ok \<Rightarrow> Ret (if ok then rpc_deliver unmarshal 0 s else rpc_terminate FailNotification s)
       | HeaderError e \<Rightarrow> Ret (rpc_terminate (FailRemote e) s)
       | HeaderInternal \<Rightarrow> Ret (rpc_terminate FailInternal s)
       | HeaderFor m n \<Rightarrow> Ret (rpc_deliver unmarshal n s))"

definition rpc_Close :: "('e, 'x) rpc \<Rightarrow> bool \<times> ('e, 'x) rpc" where
  "rpc_Close s = (if rc_closing s then (False, s) else (True, s\<lparr>rc_closing := True\<rparr>))"

text \<open>\<open>NewClient\<close>: the call 0 is \<open>incrementMySequence\<close>, which uses up the number 0.\<close>

definition NewClient :: "('e, 'x) rpc go" where
  "NewClient = rpc_Go None 0 ''incrementMySequence'' PNil
     \<lparr>rc_codec = newClientCodec, rc_seq = 0, rc_pending = Map.empty, rc_shutdown = False, rc_closing = False,
      rc_done = Map.empty\<rparr>"

text \<open>\<open>Dial\<close> and \<open>DialTimeout\<close>: \<open>dial_err\<close> is the error of connecting.\<close>

definition Dial :: "string option \<Rightarrow> string + ('e, 'x) rpc go" where
  "Dial dial_err = (case dial_err of Some e \<Rightarrow> Inl e | None \<Rightarrow> Inr NewClient)"

subsection \<open>The client at work\<close>

text \<open>\<open>ru_issued\<close> are the calls made so far; the numbers run out before they reach that of notifications.\<close>

record ('e, 'x) rpc_use =
  ru_rpc :: "('e, 'x) rpc"
  ru_issued :: "nat set"

inductive rpc_step :: "(json \<Rightarrow> 'x option) \<Rightarrow> (json \<Rightarrow> 'e option) \<Rightarrow> ('e, 'x) rpc_use \<Rightarrow> ('e, 'x) rpc_use \<Rightarrow> bool"
  for unmarshal dec_error where
  rpc_go: "call \<notin> ru_issued s \<Longrightarrow> rc_seq (ru_rpc s) \<noteq> seqNotify \<Longrightarrow>
     rpc_Go enc_err call meth param (ru_rpc s) = Ret r \<Longrightarrow>
     rpc_step unmarshal dec_error s \<lparr>ru_rpc = r, ru_issued = insert call (ru_issued s)\<rparr>"
| rpc_read: "\<not> rc_shutdown (ru_rpc s) \<Longrightarrow> rpc_input unmarshal dec_error inp (ru_rpc s) = Ret r \<Longrightarrow>
     rpc_step unmarshal dec_error s (s\<lparr>ru_rpc := r\<rparr>)"
| rpc_close: "rpc_Close (ru_rpc s) = (ok, r) \<Longrightarrow> rpc_step unmarshal dec_error s (s\<lparr>ru_rpc := r\<rparr>)"

definition rpc_init :: "('e, 'x) rpc_use \<Rightarrow> bool" where
  "rpc_init s \<longleftrightarrow> NewClient = Ret (ru_rpc s) \<and> ru_issued s = {0}"

text \<open>
  Numbers of pending calls lie between 1 and the next one, no call has two; every call made is
  pending or done, and not both until the client has shut down, when all are done.
\<close>

definition rc_ok :: "nat set \<Rightarrow> ('e, 'x) rpc \<Rightarrow> bool" where
  "rc_ok issued r \<longleftrightarrow>
     0 < rc_seq r \<and> (\<forall>n call. rc_pending r n = Some call \<longrightarrow> 0 < n \<and> n < rc_seq r)
     \<and> (\<forall>m n call. rc_pending r m = Some call \<longrightarrow> rc_pending r n = Some call \<longrightarrow> m = n)
     \<and> issued = dom (rc_done r) \<union> ran (rc_pending r)
     \<and> (if rc_shutdown r then ran (rc_pending r) \<subseteq> dom (rc_done r)
        else ran (rc_pending r) \<inter> dom (rc_done r) = {})"

definition rpc_inv :: "('e, 'x) rpc_use \<Rightarrow> bool" where
  "rpc_inv s \<longleftrightarrow> rc_ok (ru_issued s) (ru_rpc s)"

lemma NewClient_eq:
  "NewClient = Ret \<lparr>rc_codec = newClientCodec, rc_seq = 1, rc_pending = Map.empty, rc_shutdown = False,
     rc_closing = False, rc_done = [0 \<mapsto> FailWrite (PlainError ''skipping first request'')]\<rparr>"
  by (simp add: NewClient_def rpc_Go_def WriteRequest_def finish_def Let_def)

lemma rpc_inv_init: "rpc_init s \<Longrightarrow> rpc_inv s"
proof -
  assume "rpc_init s"
  then have "ru_rpc s = \<lparr>rc_codec = newClientCodec, rc_seq = 1, rc_pending = Map.empty, rc_shutdown = False,
     rc_closing = False, rc_done = [0 \<mapsto> FailWrite (PlainError ''skipping first request'')]\<rparr>" "ru_issued s = {0}"
    by (simp_all add: rpc_init_def NewClient_eq)
  then show "rpc_inv s" by (simp add: rpc_inv_def rc_ok_def)
qed

lemma ran_del:
  "\<forall>m n c. f m = Some c \<longrightarrow> f n = Some c \<longrightarrow> m = n \<Longrightarrow> f n = Some call \<Longrightarrow> ran (f(n := None)) = ran f - {call}"
  by (auto simp: ran_def) (metis option.inject)

lemma rc_ok_codec [simp]: "rc_ok I (r\<lparr>rc_codec := c\<rparr>) = rc_ok I r"
  by (simp add: rc_ok_def)

lemma rc_ok_closing [simp]: "rc_ok I (r\<lparr>rc_closing := b\<rparr>) = rc_ok I r"
  by (simp add: rc_ok_def)

lemma rc_ok_terminate: "rc_ok I r \<Longrightarrow> rc_ok I (rpc_terminate x r)"
  by (auto simp: rc_ok_def rpc_terminate_def split: if_splits)

lemma rc_ok_answer:
  assumes ok: "rc_ok I r" and "rc_pending r n = Some call"
  shows "rc_ok I (finish call x (r\<lparr>rc_pending := (rc_pending r)(n := None)\<rparr>))"
proof -
  have inj: "\<forall>m n c. rc_pending r m = Some c \<longrightarrow> rc_pending r n = Some c \<longrightarrow> m = n" using ok by (simp add: rc_ok_def)
  have "call \<in> ran (rc_pending r)" using assms(2) by (auto simp: ran_def)
  then show ?thesis
    using ok ran_del [OF inj assms(2)] by (auto simp: rc_ok_def finish_def split: if_splits)
qed

lemma rc_ok_none: "rc_pending r n = None \<Longrightarrow> r\<lparr>rc_pending := (rc_pending r)(n := None)\<rparr> = r"
  by (simp add: fun_upd_idem)

lemma rc_ok_deliver: "rc_ok I r \<Longrightarrow> rc_ok I (rpc_deliver unmarshal n r)"
  using rc_ok_answer [of I r n] rc_ok_terminate
  by (cases "rc_pending r n") (auto simp: rpc_deliver_def Let_def rc_ok_none split: sum.split)

lemma rc_ok_input:
  assumes "rc_ok I r" and "rpc_input unmarshal dec_error inp r = Ret r'"
  shows "rc_ok I r'"
proof -
  obtain h c where "ReadResponseHeader dec_error inp (rc_codec r) = Ret (h, c)"
    using assms(2) by (auto simp: rpc_input_def go_bind_eq_Ret_iff)
  with assms show ?thesis
    by (cases h) (auto simp: rpc_input_def Let_def intro!: rc_ok_terminate rc_ok_deliver split: if_splits)
qed

lemma rc_ok_Go:
  assumes ok: "rc_ok I r" and "call \<notin> I" and "rc_seq r \<noteq> seqNotify" and "rpc_Go enc_err call meth param r = Ret r'"
  shows "rc_ok (insert call I) r'"
proof (cases "rc_shutdown r \<or> rc_closing r")
  case True
  with assms show ?thesis by (auto simp: rpc_Go_def finish_def rc_ok_def split: if_splits)
next
  case False
  let ?r = "r\<lparr>rc_seq := rc_seq r + 1, rc_pending := (rc_pending r)(rc_seq r \<mapsto> call)\<rparr>"
  have "- 1 = seqNotify" by (simp add: seqNotify_def MaxUint64_def)
  then have room: "rc_seq r \<noteq> - 1" using assms(3) by metis
  have fresh: "rc_pending r (rc_seq r) = None" using ok by (cases "rc_pending r (rc_seq r)") (auto simp: rc_ok_def)
  have new: "call \<notin> ran (rc_pending r)" "call \<notin> dom (rc_done r)" using ok assms(2) by (auto simp: rc_ok_def)
  have up: "rc_seq r < rc_seq r + 1" "0 < rc_seq r + 1"
    using next_word(3) [OF room] next_word(1) [OF room] by (simp_all add: not_le)
  moreover have "0 < rc_seq r" "\<And>n. n < rc_seq r \<Longrightarrow> n < rc_seq r + 1"
    using ok up(1) by (simp_all add: rc_ok_def)
  moreover have "ran (rc_pending ?r) = insert call (ran (rc_pending r))" using fresh by simp
  moreover have "rc_pending r n \<noteq> Some call" for n using new(1) by (auto simp: ran_def)
  ultimately have r: "rc_ok (insert call I) ?r"
    using ok new False fresh by (auto simp: rc_ok_def split: if_splits)
  have eq: "(rc_pending ?r)(rc_seq r := None) = rc_pending r" using fresh by (simp add: fun_upd_idem)
  obtain err c where w: "WriteRequest enc_err (rc_seq r) meth param (rc_codec r) = Ret (err, c)"
    "r' = (case err of None \<Rightarrow> ?r\<lparr>rc_codec := c\<rparr>
      | Some e \<Rightarrow> finish call (FailWrite e) (?r\<lparr>rc_codec := c, rc_pending := (rc_pending ?r)(rc_seq r := None)\<rparr>))"
    using assms(4) False by (auto simp: rpc_Go_def go_bind_eq_Ret_iff Let_def split: option.splits)
  show ?thesis
  proof (cases err)
    case None
    with w(2) r show ?thesis by simp
  next
    case (Some e)
    have "rc_ok (insert call I) (finish call (FailWrite e) (?r\<lparr>rc_pending := (rc_pending ?r)(rc_seq r := None)\<rparr>))"
      by (rule rc_ok_answer [OF r]) simp
    moreover have "r' = (finish call (FailWrite e) (?r\<lparr>rc_pending := (rc_pending ?r)(rc_seq r := None)\<rparr>))\<lparr>rc_codec := c\<rparr>"
      using w(2) Some by (simp add: finish_def)
    ultimately show ?thesis by simp
  qed
qed

lemma rpc_inv_step: "rpc_inv s \<Longrightarrow> rpc_step unmarshal dec_error s t \<Longrightarrow> rpc_inv t"
  by (erule rpc_step.cases) (auto simp: rpc_inv_def rc_ok_Go rc_ok_input rpc_Close_def rc_ok_closing split: if_splits)

interpretation rpc: invariant_system rpc_init "rpc_step unmarshal dec_error" rpc_inv
  using rpc_inv_init rpc_inv_step by unfold_locales

subsection \<open>Properties\<close>

text \<open>
  C15: Every call made is pending under one number or has ended, never both; when the client has shut
  down all have ended. A notification ends none of them and changes nothing but the codec: \<open>net/rpc\<close>
  takes it for a response with the number 0, which \<open>NewClient\<close> has used up. A response ends the
  call with its number and no other. But a response that carries an error is no error of one call:
  every pending call fails with it and the client shuts down.
\<close>

theorem client_calls:
  assumes "reach rpc_init (rpc_step unmarshal dec_error) s"
  shows "let r = ru_rpc s in ru_issued s = dom (rc_done r) \<union> ran (rc_pending r)
    \<and> (if rc_shutdown r then ru_issued s = dom (rc_done r) else ran (rc_pending r) \<inter> dom (rc_done r) = {})
    \<and> (ReadResponseHeader dec_error inp (rc_codec r) = Ret (HeaderNotification True, c) \<longrightarrow>
        rpc_input unmarshal dec_error inp r = Ret (r\<lparr>rc_codec := c\<rparr>))
    \<and> (ReadResponseHeader dec_error inp (rc_codec r) = Ret (HeaderFor m n, c)
          \<and> rc_pending r n = Some call \<and> ReadResponseBody unmarshal True c = Inr x \<longrightarrow>
        rpc_input unmarshal dec_error inp r = Ret (r\<lparr>rc_codec := c, rc_pending := (rc_pending r)(n := None),
          rc_done := (rc_done r)(call \<mapsto> Reply x)\<rparr>))
    \<and> (ReadResponseHeader dec_error inp (rc_codec r) = Ret (HeaderError e, c) \<longrightarrow>
        (\<exists>t. rpc_input unmarshal dec_error inp r = Ret t \<and> rc_shutdown t
          \<and> (\<forall>call \<in> ran (rc_pending r). rc_done t call = Some (FailRemote e))))"
proof -
  let ?r = "ru_rpc s"
  have ok: "rc_ok (ru_issued s) ?r" using rpc.reach_inv [OF assms] by (simp add: rpc_inv_def)
  then have "rc_pending ?r 0 = None" by (cases "rc_pending ?r 0") (auto simp: rc_ok_def)
  then have "rpc_deliver unmarshal 0 (?r\<lparr>rc_codec := c\<rparr>) = ?r\<lparr>rc_codec := c\<rparr>"
    using rc_ok_none [of "?r\<lparr>rc_codec := c\<rparr>" 0] by (simp add: rpc_deliver_def ReadResponseBody_def)
  then show ?thesis
    using ok by (auto simp: rc_ok_def rpc_input_def Let_def rpc_deliver_def finish_def rpc_terminate_def
        split: if_splits)
qed

definition demo_rpc :: "(json, json) rpc_use" where
  "demo_rpc = \<lparr>ru_rpc = \<lparr>rc_codec = newClientCodec\<lparr>cl_pending := [1 \<mapsto> ''login''], cl_out :=
       [request_value \<lparr>cr_Version = ''2.0'', cr_Method = ''login'', cr_Params = None, cr_ID = Some 1\<rparr>]\<rparr>,
     rc_seq = 2, rc_pending = [1 \<mapsto> 5], rc_shutdown = False, rc_closing = False,
     rc_done = [0 \<mapsto> FailWrite (PlainError ''skipping first request'')]\<rparr>, ru_issued = {0, 5}\<rparr>"

lemma demo_rpc_reach: "reach rpc_init (rpc_step unmarshal dec_error) demo_rpc"
proof -
  let ?s = "\<lparr>ru_rpc = \<lparr>rc_codec = newClientCodec, rc_seq = 1, rc_pending = Map.empty, rc_shutdown = False,
     rc_closing = False, rc_done = [0 \<mapsto> FailWrite (PlainError ''skipping first request'')]\<rparr>, ru_issued = {0}\<rparr> :: (json, json) rpc_use"
  have "reach rpc_init (rpc_step unmarshal dec_error) ?s"
    by (rule reach_init) (simp add: rpc_init_def NewClient_eq)
  moreover have "rpc_step unmarshal dec_error ?s demo_rpc"
  proof -
    have room: "(1 :: u64) \<noteq> seqNotify" by (simp add: seqNotify_def MaxUint64_def)
    then have "rpc_Go None 5 ''login'' PNil (ru_rpc ?s) = Ret (ru_rpc demo_rpc)"
      by (simp add: rpc_Go_def WriteRequest_def demo_rpc_def newClientCodec_def)
    with room have "rpc_step unmarshal dec_error ?s \<lparr>ru_rpc = ru_rpc demo_rpc, ru_issued = insert 5 (ru_issued ?s)\<rparr>"
      by (intro rpc_go) simp_all
    then show ?thesis by (simp add: demo_rpc_def insert_commute)
  qed
  ultimately show ?thesis by (rule reach_step)
qed

theorem client_calls_witness:
  "\<exists>c. rpc_input Some Some (InputJson (JObj [(''method'', JStr ''job'')])) (ru_rpc demo_rpc)
     = Ret ((ru_rpc demo_rpc)\<lparr>rc_codec := c\<rparr>) \<and> length (cl_notifications c) = 1"
proof -
  obtain c where c: "ReadResponseHeader Some (InputJson (JObj [(''method'', JStr ''job'')])) (rc_codec (ru_rpc demo_rpc))
      = Ret (HeaderNotification True, c)" "length (cl_notifications c) = 1"
    by (simp add: ReadResponseHeader_def response_UnmarshalJSON_def unmarshal_response_def names_simps raw_map_def
        handleNotification_client_def unmarshal_notification_def receiveNotification_def
        notificationBufferLength_def demo_rpc_def newClientCodec_def Let_def)
  then show ?thesis using client_calls [OF demo_rpc_reach, where unmarshal = Some and dec_error = Some] by (auto simp: Let_def)
qed

end
