(* ===== verification/Generator.thy ===== *)
theory Generator
  imports Base58
begin

text \<open>
  \<open>server/base58/genalphabet.go\<close>: the program that writes \<open>alphabet.go\<close>, write by write, and the
  text of that file. The device is an argument: whether the file can be created, and whether a write
  succeeds after what has been written; \<open>log.Fatal\<close> ends the process.
\<close>

abbreviation tab :: char where "tab \<equiv> CHR 0x09"
abbreviation nl :: char where "nl \<equiv> CHR 0x0A"
abbreviation quote :: char where "quote \<equiv> CHR 0x22"
abbreviation apos :: char where "apos \<equiv> CHR 0x27"

fun write_lines :: "string list \<Rightarrow> string" where
  "write_lines [] = []"
| "write_lines (l # ls) = l @ nl # write_lines ls"

subsection \<open>The generator\<close>

text \<open>The literal \<open>start\<close>, whose last line has no end.\<close>

definition gen_start :: string where
  "gen_start = write_lines
     [''// Copyright (c) 2015 The btcsuite developers'',
      ''// Use of this source code is governed by an ISC'',
      ''// license that can be found in the LICENSE file.'',
      [],
      ''// AUTOGENERATED by genalphabet.go; do not edit.'',
      [],
      ''package base58'',
      [],
      ''const ('',
      [tab] @ ''// alphabet is the modified base58 alphabet used by Bitcoin.'',
      [tab] @ ''alphabet = '' @ [quote] @ ''123456789ABCDEFGHJKLMNPQRSTUVWXYZabcdefghijkmnopqrstuvwxyz'' @ [quote],
      [],
      [tab] @ ''alphabetIdx0 = '' @ [apos] @ ''1'' @ [apos],
      '')'',
      []] @ ''var b58 = [256]byte{''"

text \<open>What the loop writes for one entry and one row, and all the writes of \<open>main\<close> in order.\<close>

definition entry_writes :: "nat \<Rightarrow> nat \<Rightarrow> string list" where
  "entry_writes i j =
     (let idx = index_byte alphabet (i * 8 + j) in
      [if idx = -1 then ''255'' else itoa idx, '',''] @ (if j \<noteq> 7 then ['' ''] else []))"

definition row_writes :: "nat \<Rightarrow> string list" where
  "row_writes i = [[tab]] @ concat (map (entry_writes i) [0..<8]) @ [[nl]]"

definition gen_writes :: "string list" where
  "gen_writes = [gen_start, [nl]] @ concat (map row_writes [0..<32]) @ [''}'', [nl]]"

fun write_all :: "(string \<Rightarrow> string \<Rightarrow> bool) \<Rightarrow> string list \<Rightarrow> string \<Rightarrow> string go" where
  "write_all ok [] out = Ret out"
| "write_all ok (b # bs) out = (if ok out b then write_all ok bs (out @ b) else Exit)"

definition gen_main :: "bool \<Rightarrow> (string \<Rightarrow> string \<Rightarrow> bool) \<Rightarrow> string go" where
  "gen_main create_ok ok = (if create_ok then write_all ok gen_writes [] else Exit)"

subsection \<open>The file\<close>

definition alphabet_go_head :: "string list" where
  "alphabet_go_head =
     [''// Copyright (c) 2015 The btcsuite developers'',
      ''// Use of this source code is governed by an ISC'',
      ''// license that can be found in the LICENSE file.'',
      [],
      ''// AUTOGENERATED by genalphabet.go; do not edit.'',
      [],
      ''package base58'',
      [],
      ''const ('',
      [tab] @ ''// alphabet is the modified base58 alphabet used by Bitcoin.'',
      [tab] @ ''alphabet = '' @ [quote] @ ''123456789ABCDEFGHJKLMNPQRSTUVWXYZabcdefghijkmnopqrstuvwxyz'' @ [quote],
      [],
      [tab] @ ''alphabetIdx0 = '' @ [apos] @ ''1'' @ [apos],
      '')'',
      [],
      ''var b58 = [256]byte{'']"

definition alphabet_go_rows :: "string list" where
  "alphabet_go_rows =
     [''255, 255, 255, 255, 255, 255, 255, 255,'',
      ''255, 255, 255, 255, 255, 255, 255, 255,'',
      ''255, 255, 255, 255, 255, 255, 255, 255,'',
      ''255, 255, 255, 255, 255, 255, 255, 255,'',
      ''255, 255, 255, 255, 255, 255, 255, 255,'',
      ''255, 255, 255, 255, 255, 255, 255, 255,'',
      ''255, 0, 1, 2, 3, 4, 5, 6,'',
      ''7, 8, 255, 255, 255, 255, 255, 255,'',
      ''255, 9, 10, 11, 12, 13, 14, 15,'',
      ''16, 255, 17, 18, 19, 20, 21, 255,'',
      ''22, 23, 24, 25, 26, 27, 28, 29,'',
      ''30, 31, 32, 255, 255, 255, 255, 255,'',
      ''255, 33, 34, 35, 36, 37, 38, 39,'',
      ''40, 41, 42, 43, 255, 44, 45, 46,'',
      ''47, 48, 49, 50, 51, 52, 53, 54,'',
      ''55, 56, 57, 255, 255, 255, 255, 255,'',
      ''255, 255, 255, 255, 255, 255, 255, 255,'',
      ''255, 255, 255, 255, 255, 255, 255, 255,'',
      ''255, 255, 255, 255, 255, 255, 255, 255,'',
      ''255, 255, 255, 255, 255, 255, 255, 255,'',
      ''255, 255, 255, 255, 255, 255, 255, 255,'',
      ''255, 255, 255, 255, 255, 255, 255, 255,'',
      ''255, 255, 255, 255, 255, 255, 255, 255,'',
      ''255, 255, 255, 255, 255, 255, 255, 255,'',
      ''255, 255, 255, 255, 255, 255, 255, 255,'',
      ''255, 255, 255, 255, 255, 255, 255, 255,'',
      ''255, 255, 255, 255, 255, 255, 255, 255,'',
      ''255, 255, 255, 255, 255, 255, 255, 255,'',
      ''255, 255, 255, 255, 255, 255, 255, 255,'',
      ''255, 255, 255, 255, 255, 255, 255, 255,'',
      ''255, 255, 255, 255, 255, 255, 255, 255,'',
      ''255, 255, 255, 255, 255, 255, 255, 255,'']"

definition alphabet_go :: string where
  "alphabet_go = write_lines (alphabet_go_head @ map (Cons tab) alphabet_go_rows @ [''}''])"

subsection \<open>Lemmas\<close>

lemma write_lines_append: "write_lines (xs @ ys) = write_lines xs @ write_lines ys"
  by (induction xs) simp_all

lemma write_all_ok: "(\<And>out b. ok out b) \<Longrightarrow> write_all ok bs out = Ret (out @ concat bs)"
  by (induction bs arbitrary: out) simp_all

lemma write_all_cases: "write_all ok bs out = Ret (out @ concat bs) \<or> write_all ok bs out = Exit"
proof (induction bs arbitrary: out)
  case (Cons b bs)
  from Cons.IH [of "out @ b"] show ?case by auto
qed simp

fun row_text :: "nat list \<Rightarrow> string" where
  "row_text [] = []"
| "row_text (n # ns) = dec_digits n @ (if ns = [] then '','' else '', '' @ row_text ns)"

text \<open>A row of the generator is a row of the table.\<close>

lemma index_from_ge: "index_from s b n = - 1 \<or> n \<le> index_from s b n"
proof (induction s arbitrary: n)
  case (Cons c s)
  from Cons.IH [of "n + 1"] show ?case by auto
qed simp

lemmas digit_text = dec_digits_def to_digits_step char_of_def bit_0

lemma decimal:
  "dec_digits 0 = ''0''" "dec_digits 1 = ''1''" "dec_digits 2 = ''2''" "dec_digits 3 = ''3''"
  "dec_digits 4 = ''4''" "dec_digits 5 = ''5''" "dec_digits 6 = ''6''" "dec_digits 7 = ''7''"
  "dec_digits 8 = ''8''" "dec_digits 9 = ''9''" "dec_digits 10 = ''10''" "dec_digits 11 = ''11''"
  "dec_digits 12 = ''12''" "dec_digits 13 = ''13''" "dec_digits 14 = ''14''" "dec_digits 15 = ''15''"
  "dec_digits 16 = ''16''" "dec_digits 17 = ''17''" "dec_digits 18 = ''18''" "dec_digits 19 = ''19''"
  "dec_digits 20 = ''20''" "dec_digits 21 = ''21''" "dec_digits 22 = ''22''" "dec_digits 23 = ''23''"
  "dec_digits 24 = ''24''" "dec_digits 25 = ''25''" "dec_digits 26 = ''26''" "dec_digits 27 = ''27''"
  "dec_digits 28 = ''28''" "dec_digits 29 = ''29''" "dec_digits 30 = ''30''" "dec_digits 31 = ''31''"
  "dec_digits 32 = ''32''" "dec_digits 33 = ''33''" "dec_digits 34 = ''34''" "dec_digits 35 = ''35''"
  "dec_digits 36 = ''36''" "dec_digits 37 = ''37''" "dec_digits 38 = ''38''" "dec_digits 39 = ''39''"
  "dec_digits 40 = ''40''" "dec_digits 41 = ''41''" "dec_digits 42 = ''42''" "dec_digits 43 = ''43''"
  "dec_digits 44 = ''44''" "dec_digits 45 = ''45''" "dec_digits 46 = ''46''" "dec_digits 47 = ''47''"
  "dec_digits 48 = ''48''" "dec_digits 49 = ''49''" "dec_digits 50 = ''50''" "dec_digits 51 = ''51''"
  "dec_digits 52 = ''52''" "dec_digits 53 = ''53''" "dec_digits 54 = ''54''" "dec_digits 55 = ''55''"
  "dec_digits 56 = ''56''" "dec_digits 57 = ''57''" "dec_digits 255 = ''255''"
  by (simp_all add: digit_text)

lemma entry_writes_eq:
  assumes "i < 32" and "j < 8"
  shows "concat (entry_writes i j) = dec_digits (b58 ! (i * 8 + j)) @ (if j = 7 then '','' else '', '')"
proof -
  have "i * 8 + j < 256" using assms by simp
  from b58_entry [OF this] have e: "b58 ! (i * 8 + j) =
      (let idx = index_byte alphabet (i * 8 + j) in if idx = -1 then 255 else nat idx)" .
  have "index_byte alphabet (i * 8 + j) = - 1 \<or> 0 \<le> index_byte alphabet (i * 8 + j)"
    unfolding index_byte_def by (rule index_from_ge)
  then show ?thesis
    unfolding e by (auto simp: entry_writes_def itoa_def Let_def decimal)
qed

lemma upt_8: "[0..<8] = [0, 1, 2, 3, 4, 5, 6, 7 :: nat]"
  by (simp add: upt_rec)

lemma row_writes_eq:
  assumes "i < 32"
  shows "concat (row_writes i) = tab # row_text (map (\<lambda>j. b58 ! (i * 8 + j)) [0..<8]) @ [nl]"
  using entry_writes_eq [OF assms] by (simp add: row_writes_def upt_8)

lemma decimal_1: "dec_digits (Suc 0) = ''1''"
  using decimal(2) by simp

lemma table_slice: "i < 32 \<Longrightarrow> map (\<lambda>j. b58 ! (i * 8 + j)) [0..<8] = take 8 (drop (i * 8) b58)"
  by (rule nth_equalityI) simp_all

lemma upt_32: "[0..<32] = [0, 1, 2, 3, 4, 5, 6, 7, 8, 9, 10, 11, 12, 13, 14, 15, 16, 17, 18, 19, 20, 21, 22, 23,
  24, 25, 26, 27, 28, 29, 30, 31 :: nat]"
  by (simp add: upt_rec)

lemma table_text: "map (\<lambda>i. row_text (take 8 (drop (i * 8) b58))) [0..<32] = alphabet_go_rows"
  by (simp add: upt_32 b58_def alphabet_go_rows_def decimal decimal_1)

lemma table_rows: "map (\<lambda>i. row_text (map (\<lambda>j. b58 ! (i * 8 + j)) [0..<8])) [0..<32] = alphabet_go_rows"
  unfolding table_text [symmetric] by (rule map_cong [OF refl]) (subst table_slice, simp_all)

lemma concat_concat_map: "concat (concat xss) = concat (map concat xss)"
  by (induction xss) simp_all

lemma concat_rows:
  "concat (map concat (map row_writes is)) = write_lines (map (\<lambda>i. tab # row_text (map (\<lambda>j. b58 ! (i * 8 + j)) [0..<8])) is)"
  if "\<forall>i \<in> set is. i < 32"
  using that by (induction "is") (simp_all add: row_writes_eq)

subsection \<open>Property\<close>

text \<open>
  C36: The generator writes \<open>alphabet.go\<close> as it is in the repository, byte for byte, or ends the
  process when the file cannot be created or a write fails.
\<close>

theorem generated_file:
  "(gen_main create_ok ok = Exit \<or> gen_main create_ok ok = Ret alphabet_go)
   \<and> gen_main True (\<lambda>out b. True) = Ret alphabet_go"
proof -
  have "map (Cons tab) alphabet_go_rows = map (\<lambda>i. tab # row_text (map (\<lambda>j. b58 ! (i * 8 + j)) [0..<8])) [0..<32]"
    unfolding table_rows [symmetric] by (simp add: comp_def)
  moreover have "gen_start @ [nl] = write_lines alphabet_go_head"
    by (simp add: gen_start_def alphabet_go_head_def)
  ultimately have "concat gen_writes = alphabet_go"
    using concat_rows [of "[0..<32]"]
    by (simp add: gen_writes_def alphabet_go_def write_lines_append concat_concat_map)
  then show ?thesis
    using write_all_cases [of ok gen_writes "[]"] write_all_ok [of "\<lambda>out b. True" gen_writes "[]"]
    by (auto simp: gen_main_def)
qed

end
