(* ===== verification/Startup.thy ===== *)
theory Startup
  imports Logger Session
begin

text \<open>
  The start of the process: \<open>server/main.go\<close> with package \<open>flag\<close> as far as it is used, and \<open>Get\<close> of
  \<open>server/config/config.go\<close>, which loads the configuration on the first call and keeps it.

  The surroundings are arguments: \<open>args\<close> are the command line without the name \<open>prog\<close> of the program,
  \<open>files\<close> is what \<open>os.Open\<close> and \<open>ReadAll\<close> give, \<open>env\<close> is the configuration that package
  \<open>envconfig\<close> makes from the environment, \<open>stat_ok\<close> and \<open>open_ok\<close> are those of theory Logger.
\<close>

subsection \<open>Flags\<close>

text \<open>
  One call of \<open>parseOne\<close>, for the one flag \<open>c\<close>, which has a value: the value and the arguments that
  are left, the end of the flags, the request for help, or an error.
\<close>

datatype flag_result = FlagSeen string "string list" | FlagsEnd "string list" | FlagHelp | FlagBad

definition is_flag :: "string \<Rightarrow> bool" where
  "is_flag s \<longleftrightarrow> 2 \<le> length s \<and> hd s = CHR ''-''"

definition split_value :: "string \<Rightarrow> string \<times> string option" where
  "split_value name =
     (let x = hd name # takeWhile (\<lambda>c. c \<noteq> CHR ''='') (tl name) in
      (x, if length x = length name then None else Some (drop (length x + 1) name)))"

definition parse_flag :: "string \<Rightarrow> string list \<Rightarrow> flag_result" where
  "parse_flag s args =
     (let name = drop (if s ! 1 = CHR ''-'' then 2 else 1) s in
      if name = [] \<or> hd name = CHR ''-'' \<or> hd name = CHR ''='' then FlagBad
      else case split_value name of (x, val) \<Rightarrow>
        if x \<noteq> ''c'' then (if x = ''help'' \<or> x = ''h'' then FlagHelp else FlagBad)
        else case val of
          Some v \<Rightarrow> FlagSeen v args
        | None \<Rightarrow> (case args of [] \<Rightarrow> FlagBad | v # args \<Rightarrow> FlagSeen v args))"

definition parseOne :: "string list \<Rightarrow> flag_result" where
  "parseOne args =
     (case args of
        [] \<Rightarrow> FlagsEnd []
      | s # rest \<Rightarrow>
          if \<not> is_flag s then FlagsEnd (s # rest)
          else if s = ''--'' then FlagsEnd rest
          else parse_flag s rest)"

lemma parseOne_shorter: "parseOne args = FlagSeen v rest \<Longrightarrow> length rest < length args"
  by (auto simp: parseOne_def parse_flag_def Let_def split: list.splits if_splits prod.splits option.splits)

text \<open>\<open>flag.Parse\<close>: the value of \<open>c\<close> and \<open>flag.Args()\<close>, or the code with which the process ends.\<close>

function flag_Parse :: "string \<Rightarrow> string list \<Rightarrow> nat + string \<times> string list" where
  "flag_Parse c args =
     (case parseOne args of
        FlagSeen v rest \<Rightarrow> flag_Parse v rest
      | FlagsEnd rest \<Rightarrow> Inr (c, rest)
      | FlagHelp \<Rightarrow> Inl 0
      | FlagBad \<Rightarrow> Inl 2)"
  by pat_completeness auto
termination
  by (relation "measure (\<lambda>(c, args). length args)") (auto dest: parseOne_shorter)

declare flag_Parse.simps [simp del]

definition usage_text :: "string \<Rightarrow> string" where
  "usage_text prog = ''Usage: '' @ prog @ '' [-c CONFIG_PATH] '' @ [CHR 0x0A]
     @ ''  -c string'' @ [CHR 0x0A] @ ''    '' @ [CHR 0x09]
     @ ''JSON file from which to read configuration values (default '' @ [CHR 0x22] @ ''config.json''
     @ [CHR 0x22] @ '')'' @ [CHR 0x0A]"

subsection \<open>Configuration\<close>

text \<open>\<open>cf_done\<close> is \<open>instantiation\<close>, the \<open>sync.Once\<close>.\<close>

record config_state =
  cf_File :: string
  cf_done :: bool
  cf_instance :: "config option"

definition initial_config_state :: config_state where
  "initial_config_state = \<lparr>cf_File = [], cf_done = False, cf_instance = None\<rparr>"

text \<open>\<open>IsMissingConfig\<close> on an error of \<open>validate\<close>, whose text is "required key ... missing value".\<close>

definition config_error_text :: "(config_error \<Rightarrow> string) \<Rightarrow> config_error \<Rightarrow> string" where
  "config_error_text other e =
     (case e of MissingKey n \<Rightarrow> ''required key '' @ n @ '' missing value'' | _ \<Rightarrow> other e)"

definition IsMissingConfig :: "string \<Rightarrow> bool" where
  "IsMissingConfig text = str_contains ''required key'' text"

text \<open>\<open>Exit\<close> is \<open>log.Fatal\<close>.\<close>

type_synonym load = "(string \<Rightarrow> byte list option) \<times> config option \<times> (byte list \<Rightarrow> json option)"

definition configFromEnv :: "config option \<Rightarrow> config_state \<Rightarrow> config_state option" where
  "configFromEnv env st = map_option (\<lambda>c. st\<lparr>cf_instance := Some c\<rparr>) env"

definition config_Get :: "load \<Rightarrow> config_state \<Rightarrow> (config option \<times> config_state) go" where
  "config_Get ld st =
     (case ld of (files, env, parse) \<Rightarrow>
      if cf_done st then Ret (cf_instance st, st)
      else
        let st = st\<lparr>cf_done := True\<rparr> in
        if cf_File st \<noteq> [] then
          (case files (cf_File st) of
             None \<Rightarrow> Exit
           | Some data \<Rightarrow>
               (case configFromFile parse data of
                  Inl e \<Rightarrow> Exit
                | Inr c \<Rightarrow> Ret (Some c, st\<lparr>cf_instance := Some c\<rparr>)))
        else
          (case configFromEnv env st of
             None \<Rightarrow> Exit
           | Some st \<Rightarrow> Ret (cf_instance st, st)))"

subsection \<open>The program\<close>

text \<open>
  \<open>Running\<close>: the two goroutines of the program have been started and \<open>main\<close> waits for ever. The
  lines are those of the welcome message, which go to the logger.
\<close>

record started =
  st_config :: config_state
  st_log :: log_state
  st_logFile :: "log_file option"
  st_lines :: "string list"

datatype main_result = Exited nat | HelpShown string | Running started

definition version :: string where "version = ''2.0.7''"

definition tabs :: "nat \<Rightarrow> string" where "tabs n = replicate n (CHR 0x09)"

definition printWelcomeMessage :: "config \<Rightarrow> string list" where
  "printWelcomeMessage c =
     [replicate 72 (CHR ''*''),
      ''*    XMR Stratum to XDAG Proxy '' @ tabs 3 @ '' v'' @ version @ '' '' @ tabs 1 @ ''*'' @ [CHR 0x0A],
      ''*    Accepting XMRig Connections on port: '' @ tabs 2 @ '' '' @ itoa (StratumPort c) @ tabs 2 @ ''*'' @ [CHR 0x0A],
      ''*    Printing stats every: '' @ tabs 4 @ '' '' @ itoa (StatInterval c) @ '' seconds'' @ tabs 1 @ ''*'' @ [CHR 0x0A],
      replicate 72 (CHR ''*'')]"

text \<open>\<open>setOptions\<close>: the file named by \<open>c\<close>, or the code with which the process ends.\<close>

definition setOptions :: "string list \<Rightarrow> config_state \<Rightarrow> nat + config_state" where
  "setOptions args st = sum_bind (flag_Parse ''config.json'' args) (\<lambda>(path, _). Inr (st\<lparr>cf_File := path\<rparr>))"

definition fatal :: "'a go \<Rightarrow> nat + 'a" where
  "fatal r = (case r of Ret x \<Rightarrow> Inr x | _ \<Rightarrow> Inl 1)"

text \<open>
  \<open>main\<close>: an end of the process is \<open>Inl\<close> of its code until the last step. The flags are parsed
  once more after \<open>setOptions\<close>; \<open>args[1]\<close> is the second argument that is no flag.
\<close>

definition main :: "load \<Rightarrow> (string \<Rightarrow> bool) \<Rightarrow> (string \<Rightarrow> bool) \<Rightarrow> string \<Rightarrow> string list \<Rightarrow> main_result" where
  "main ld stat_ok open_ok prog args =
     (case
        sum_bind (setOptions args initial_config_state) (\<lambda>st.
        sum_bind (fatal (config_Get ld st)) (\<lambda>(inst, st).
        sum_bind (case inst of None \<Rightarrow> Inl 2
                  | Some c \<Rightarrow> (case setupLogger stat_ok open_ok c initial_log_state of
                      None \<Rightarrow> Inl 1 | Some (file, ls) \<Rightarrow> Inr (c, file, ls))) (\<lambda>(c, file, ls).
        sum_bind (flag_Parse (cf_File st) args) (\<lambda>(path, words).
          if 1 < length words \<and> (words ! 1 = ''help'' \<or> words ! 1 = ''-h'') then Inr (HelpShown (usage_text prog))
          else Inr (Running \<lparr>st_config = st\<lparr>cf_File := path\<rparr>, st_log = ls, st_logFile = file,
                      st_lines = printWelcomeMessage c\<rparr>)))))
      of Inl code \<Rightarrow> Exited code | Inr r \<Rightarrow> r)"

subsection \<open>Lemmas\<close>

lemma parseOne_c: "parseOne (''-c'' # p # args) = FlagSeen p args"
  by (simp add: parseOne_def is_flag_def parse_flag_def split_value_def)

lemma parseOne_words: "ws = [] \<or> \<not> is_flag (hd ws) \<Longrightarrow> parseOne ws = FlagsEnd ws"
  by (cases ws) (auto simp: parseOne_def)

definition with_paths :: "string list \<Rightarrow> string list \<Rightarrow> string list" where
  "with_paths ps ws = concat (map (\<lambda>p. [''-c'', p]) ps) @ ws"

lemma flag_Parse_paths:
  "ws = [] \<or> \<not> is_flag (hd ws) \<Longrightarrow> flag_Parse c (with_paths ps ws) = Inr (last (c # ps), ws)"
proof (induction ps arbitrary: c)
  case Nil
  then show ?case by (simp add: with_paths_def flag_Parse.simps [of c ws] parseOne_words)
next
  case (Cons p ps)
  have "with_paths (p # ps) ws = ''-c'' # p # with_paths ps ws" by (simp add: with_paths_def)
  with Cons show ?case by (simp add: flag_Parse.simps [of c "''-c'' # _"] parseOne_c)
qed

text \<open>Where the configuration comes from.\<close>

fun loaded :: "load \<Rightarrow> string \<Rightarrow> config option" where
  "loaded (files, env, parse) f =
     (if f = [] then env
      else case files f of None \<Rightarrow> None
        | Some data \<Rightarrow> (case configFromFile parse data of Inl _ \<Rightarrow> None | Inr c \<Rightarrow> Some c))"

lemma config_Get_first:
  "config_Get ld (initial_config_state\<lparr>cf_File := f\<rparr>) =
     (case loaded ld f of None \<Rightarrow> Exit
      | Some c \<Rightarrow> Ret (Some c, \<lparr>cf_File = f, cf_done = True, cf_instance = Some c\<rparr>))"
  by (cases ld) (auto simp: config_Get_def initial_config_state_def configFromEnv_def
      split: option.split sum.split)

lemma config_Get_later: "cf_done st \<Longrightarrow> config_Get ld st = Ret (cf_instance st, st)"
  by (simp add: config_Get_def split: prod.split)

lemma logger_after_setup:
  "LogFile c \<noteq> [] \<and> \<not> open_ok (LogFile c) \<Longrightarrow> setupLogger stat_ok open_ok c initial_log_state = None"
  "LogFile c = [] \<or> open_ok (LogFile c) \<Longrightarrow> \<exists>lf st. setupLogger stat_ok open_ok c initial_log_state = Some (lf, st)
    \<and> l_out (fst (Get st)) = Some (if LogFile c \<noteq> [] then StdoutAndFile (LogFile c)
         else if DiscardLog c then DiscardWriter else Stdout)
    \<and> snd (Get st) = st"
  by (auto simp: setupLogger_def open_log_def Configure_def Get_def New_def initial_log_state_def Let_def)

subsection \<open>Property\<close>

text \<open>
  C16: Started with any number of options \<open>-c path\<close> and then words, the program takes its
  configuration from the last path (\<open>config.json\<close> if there is none; the environment if it is empty).
  It ends with code 1 when that fails or the log file cannot be opened, whatever the words are;
  otherwise it shows its help when the second word, not the first, asks for it, and runs if not: the
  log goes where the configuration says, and whoever asks later for the configuration gets this one,
  without another look at the file.
\<close>

theorem start_up:
  assumes "ws = [] \<or> \<not> is_flag (hd ws)"
  shows "case loaded ld (last (''config.json'' # ps)) of
      None \<Rightarrow> main ld stat_ok open_ok prog (with_paths ps ws) = Exited 1
    | Some c \<Rightarrow>
        if LogFile c \<noteq> [] \<and> \<not> open_ok (LogFile c) then main ld stat_ok open_ok prog (with_paths ps ws) = Exited 1
        else if 1 < length ws \<and> (ws ! 1 = ''help'' \<or> ws ! 1 = ''-h'')
        then main ld stat_ok open_ok prog (with_paths ps ws) = HelpShown (usage_text prog)
        else \<exists>r. main ld stat_ok open_ok prog (with_paths ps ws) = Running r
          \<and> config_Get ld' (st_config r) = Ret (Some c, st_config r)
          \<and> l_out (fst (Get (st_log r))) = Some (if LogFile c \<noteq> [] then StdoutAndFile (LogFile c)
               else if DiscardLog c then DiscardWriter else Stdout)
          \<and> snd (Get (st_log r)) = st_log r \<and> st_lines r = printWelcomeMessage c"
proof (cases "loaded ld (last (''config.json'' # ps))")
  case None
  then show ?thesis
    using flag_Parse_paths [OF assms, of "''config.json''" ps]
    by (simp add: main_def setOptions_def config_Get_first fatal_def)
next
  case (Some c)
  let ?f = "last (''config.json'' # ps)"
  have flags: "flag_Parse ''config.json'' (with_paths ps ws) = Inr (?f, ws)"
    "flag_Parse ?f (with_paths ps ws) = Inr (last (?f # ps), ws)"
    by (rule flag_Parse_paths [OF assms])+
  show ?thesis
  proof (cases "LogFile c \<noteq> [] \<and> \<not> open_ok (LogFile c)")
    case True
    with flags(1) Some logger_after_setup(1) show ?thesis
      by (simp add: main_def setOptions_def config_Get_first fatal_def del: last.simps)
  next
    case False
    then obtain lf st where "setupLogger stat_ok open_ok c initial_log_state = Some (lf, st)"
      "l_out (fst (Get st)) = Some (if LogFile c \<noteq> [] then StdoutAndFile (LogFile c)
         else if DiscardLog c then DiscardWriter else Stdout)" "snd (Get st) = st"
      using logger_after_setup(2) by blast
    with flags Some False show ?thesis
      by (simp add: main_def setOptions_def config_Get_first fatal_def config_Get_later del: last.simps)
  qed
qed

theorem start_up_witness:
  "main (\<lambda>f. if f = ''b.json'' then Some [] else None, None, \<lambda>_. Some sample_json) (\<lambda>_. False) (\<lambda>_. True)
      ''proxy'' [''-c'', ''a.json'', ''-c'', ''b.json'', ''run'', ''help''] = HelpShown (usage_text ''proxy'')"
proof -
  let ?ld = "(\<lambda>f. if f = ''b.json'' then Some [] else None, None, \<lambda>_. Some sample_json) :: load"
  have args: "[''-c'', ''a.json'', ''-c'', ''b.json'', ''run'', ''help'']
      = with_paths [''a.json'', ''b.json''] [''run'', ''help'']"
    by (simp add: with_paths_def)
  have "[''run'', ''help''] = [] \<or> \<not> is_flag (hd [''run'', ''help''])" by (simp add: is_flag_def)
  from start_up [OF this, where ld = ?ld and ps = "[''a.json'', ''b.json'']"] show ?thesis
    unfolding args by (simp add: sample_config default_config_def zero_config_def)
qed

end
