(* ===== verification/Spec2Isabelle.thy ===== *)
theory Spec2Isabelle
  imports Base58Check SafeMap XdagBlock XdagTime Connect Config Logger Uniuri Job Share Target
    ProxyState Stats Proxy Submit JobStream Session Relogin PoolDown WellFormed ProxyConc Teardown Codec Service Serving
    StratumClient RpcClient Generator Startup
begin

text \<open>
  A model of xmrig2xdag (\<open>src/server\<close>), a proxy that lets XMRig miners, which speak stratum
  (JSON-RPC over TCP), mine for an XDAG pool, which speaks 32-byte fields over TCP.

  \<^bold>\<open>The program.\<close> \<open>main\<close> loads the configuration, sets up the log, and starts the TCP server and the pool
  detector. For each miner the server makes a worker (\<open>tcp/worker.go\<close>) and, through the director
  (\<open>proxy/director.go\<close>), a proxy (\<open>proxy/proxy.go\<close>), and serves the miner's requests with
  \<open>net/rpc\<close> over the codec of \<open>stratum/codec.go\<close>. \<open>login\<close> starts the proxy's goroutine \<open>Run\<close>, which
  connects to the pool (\<open>xdag/connect.go\<close>), logs in with the account's hash, turns pairs of fields
  into jobs for the miner, and judges the miner's shares and reports the best of them. A flag
  \<open>poolIsDown\<close>, raised when the pool cannot be reached, refuses miners; \<open>proxy/detect.go\<close> is to lower it.

  \<^bold>\<open>Conventions.\<close> A Go function is a HOL function of the same name (with a prefix where two have the
  same one) on the state it reads and writes, which it returns updated. What can go wrong is in the
  result: \<open>'a go\<close> of theory Prelude is a return, a panic, a wait for a mutex that is not given back, or
  the end of the process; an error value is \<open>Inl\<close> or an option. Integers have their width: \<open>u64\<close>
  is \<open>64 word\<close>, \<open>int\<close> is HOL's \<open>int\<close> where it is only compared. A string is a list of \<open>char\<close>, one for
  each byte. The clock, random numbers, the network and the file system are arguments, or the
  environment's steps. All definitions compute.

  \<^bold>\<open>Theories\<close>, from the bottom up.
  \<^item> Prelude: outcomes, positional notation, and the interfaces: \<open>codec\<close> and \<open>strict_codec\<close> (encoder and
    decoder), \<open>closable\<close> (an object that is closed once), \<open>invariant_system\<close> (a step relation with an
    invariant). GoLib: the parts of Go's library the program uses. Float64: IEEE doubles, for the
    difficulty. Sha256: SHA-256. Json: unmarshalling into structs and maps.
  \<^item> Base58, Base58Check (\<open>base58/\<close>): \<open>Decode\<close> and \<open>Encode\<close> with their ten-digit chunks, against positional
    notation; the table; the checksum. \<open>check_decode_iff\<close> is the contract. Generator: the
    program that writes \<open>alphabet.go\<close>, and that file byte for byte.
  \<^item> SafeMap (\<open>utils/safemap.go\<close>): the two-map dictionary refines a map (locales \<open>key_map\<close>, \<open>counted_map\<close>).
  \<^item> XdagBlock, XdagTime (\<open>xdag/block.go\<close>, \<open>time.go\<close>): addresses as base 64, raw blocks, timestamps.
  \<^item> Connect (\<open>xdag/connect.go\<close>): the connection object, and its reader, writer and users as a step
    relation: the one way to panic, and messages in order.
  \<^item> Config, Logger, Uniuri: configuration from defaults and file; the log's destination and level;
    unbiased random strings.
  \<^item> Job, Share, Target (\<open>proxy/job.go\<close>, \<open>share.go\<close>, \<open>setTarget\<close>): blobs and nonce ranges, validation of
    shares, the computation of the difficulty.
  \<^item> ProxyState: the world (director, proxies, workers, the flag) and the ways a session ends. Stats: the
    director's statistics, their reads interleaved with removals (\<open>books_step\<close>), and how far off they can be. Proxy: logging in, fields and jobs,
    shares, and the two loops of \<open>Run\<close>. Submit: which share the pool gets to see.
    JobStream: which jobs the miner gets to see, as a refinement of a two-register state machine.
  \<^item> Session (\<open>proxy/mining.go\<close>, \<open>tcp/\<close>): the miner's requests and the accept loop. Relogin: a miner
    that logs in several times, with connections as objects behind pointers. PoolDown: all operations as one relation \<open>server_step\<close>, and what they do to
    the flag. WellFormed: the well-formedness of every reachable proxy, from which its handlers do not
    panic. ProxyConc: the goroutines of one proxy and the mutex \<open>connMu\<close>.
    Teardown: the end of a session lock by lock, for a miner that logs in once, with the reader and the writer of the
    connection, \<open>Run\<close>, the requests in \<open>Submit\<close> and the removal, and the states in which nothing moves any more.
  \<^item> Codec, Service (\<open>stratum/codec.go\<close>, \<open>server.go\<close>, \<open>errors.go\<close>): requests, method names, responses, and
    one request from the wire to the response. Serving: the whole session of a miner as one step
    relation, the goroutines of the connection with those of the proxy. StratumClient, RpcClient
    (\<open>stratum/client.go\<close>): the other end, its codec and the client of \<open>net/rpc\<close> on top of it.
  \<^item> Startup (\<open>main.go\<close>, \<open>Get\<close> of \<open>config.go\<close>): the command line, the configuration and the log, up to the
    start of the goroutines.

  \<^bold>\<open>Granularity.\<close> Operations that hold a mutex from beginning to end are one step; a second attempt to
  take the mutex is \<open>Deadlock\<close>. Where the order between goroutines matters (Connect, Stats, ProxyConc, Teardown, Codec, Serving)
  each goroutine has its own steps. \<open>SendBuffMsg\<close> waits while its buffer is full, which is a guard of the step
  relation of Connect; in the other theories the message is queued. The connection is a value in its proxy,
  except in Relogin. \<open>handleNotification\<close> is one step, though only its end is under the
  mutex: what it changes before that is read by \<open>Run\<close> alone, except for the current job, which
  \<open>Getjob\<close> advances under \<open>jobMu\<close>.

  \<^bold>\<open>Bounds.\<close> \<open>run_connect\<close> takes the network's answers as a list, one for each attempt; it has come to
  an end when the list is longer than \<open>TryPoolTimes\<close> (\<open>run_connect_ends\<close>). \<open>books_step\<close> and
  \<open>codec_step\<close> require that ids and sequence numbers have not reached the largest \<open>uint64\<close>. Every other loop is a
  recursion that HOL accepts as total.

  \<^bold>\<open>Arguments for code that is not here\<close>: how package \<open>jsonrpc2\<close> renders and reads an error object
  (\<open>mk_error\<close>, \<open>dec_error\<close>), what package \<open>envconfig\<close> makes of the environment, the texts of errors of the
  JSON and hex packages, \<open>strings.Title\<close> outside ASCII, the conversion of a float that is no \<open>uint64\<close>
  (\<open>conv\<close>), which Go leaves to the machine, the dialler, the files, and the reader of JSON text. No
  property assumes anything of them.

  \<^bold>\<open>Not modelled\<close>: the text of log lines, but for the welcome message; read deadlines and the sleeps of
  \<open>Run\<close> and \<open>connect\<close>; \<open>ServeConn\<close>, which nothing calls; the dump of goroutines
  before \<open>client.go\<close> ends the process; data races.
\<close>

end
